(* ===== verification/Crates.thy ===== *)
theory Crates
  imports Prelude
begin

text \<open>
  The third-party functions the audit crates call (BLAKE3, the \<open>hex\<close> crate and the
  ML-DSA-87 implementation of \<open>fips204\<close>), as the fields of a record that every definition
  using them takes as an argument. What the program relies on is stated by the predicates
  below, each a documented property of the function; nothing else is known of them. The
  instance \<open>toy_crates\<close> shows that the predicates can hold together.

  Randomised functions take the entropy they draw as a \<open>nat\<close> argument.
\<close>

record crates =
  blake3 :: "bytes \<Rightarrow> bytes"
  hex_encode :: "bytes \<Rightarrow> string"
  hex_decode :: "string \<Rightarrow> bytes option"
  mldsa_keygen :: "nat \<Rightarrow> (bytes \<times> bytes) option"
  mldsa_sk_parses :: "bytes \<Rightarrow> bool"
  mldsa_pk_parses :: "bytes \<Rightarrow> bool"
  mldsa_get_public_key :: "bytes \<Rightarrow> bytes"
  mldsa_try_sign :: "nat \<Rightarrow> bytes \<Rightarrow> bytes \<Rightarrow> bytes \<Rightarrow> bytes option"
  mldsa_verify :: "bytes \<Rightarrow> bytes \<Rightarrow> bytes \<Rightarrow> bytes \<Rightarrow> bool"

text \<open>The array lengths of the ML-DSA-87 parameter set, constants of \<open>fips204\<close>.\<close>

abbreviation PK_LEN :: nat where "PK_LEN \<equiv> 2592"
abbreviation SK_LEN :: nat where "SK_LEN \<equiv> 4896"
abbreviation SIG_LEN :: nat where "SIG_LEN \<equiv> 4627"

text \<open>BLAKE3 in its default mode has 32 bytes of output.\<close>

definition blake3_ok :: "'a crates_scheme \<Rightarrow> bool" where
  "blake3_ok C \<longleftrightarrow> (\<forall>b. length (blake3 C b) = 32)"

text \<open>\<open>hex::decode\<close> inverts \<open>hex::encode\<close>, which writes two characters a byte.\<close>

definition hex_ok :: "'a crates_scheme \<Rightarrow> bool" where
  "hex_ok C \<longleftrightarrow> (\<forall>b. hex_decode C (hex_encode C b) = Some b \<and> length (hex_encode C b) = 2 * length b)"

text \<open>
  FIPS 204: key generation yields keys of the fixed lengths that parse, the public key is the
  one derived from the secret key, and a signature has the fixed length and verifies under the
  derived public key, the same message and the same context.
\<close>

definition mldsa_ok :: "'a crates_scheme \<Rightarrow> bool" where
  "mldsa_ok C \<longleftrightarrow>
     (\<forall>e pk sk. mldsa_keygen C e = Some (pk, sk) \<longrightarrow>
        length pk = PK_LEN \<and> length sk = SK_LEN \<and> mldsa_sk_parses C sk \<and> mldsa_get_public_key C sk = pk) \<and>
     (\<forall>sk. length sk = SK_LEN \<and> mldsa_sk_parses C sk \<longrightarrow>
        length (mldsa_get_public_key C sk) = PK_LEN \<and> mldsa_pk_parses C (mldsa_get_public_key C sk)) \<and>
     (\<forall>e sk m ctx sig. length sk = SK_LEN \<and> mldsa_sk_parses C sk \<and> mldsa_try_sign C e sk m ctx = Some sig \<longrightarrow>
        length sig = SIG_LEN \<and> mldsa_verify C (mldsa_get_public_key C sk) m sig ctx)"

lemma hex_encode_inj: "hex_ok C \<Longrightarrow> hex_encode C a = hex_encode C b \<longleftrightarrow> a = b"
  unfolding hex_ok_def by (metis option.inject)

lemma hex_decode_encode: "hex_ok C \<Longrightarrow> hex_decode C (hex_encode C b) = Some b"
  by (simp add: hex_ok_def)

lemma length_hex_encode: "hex_ok C \<Longrightarrow> length (hex_encode C b) = 2 * length b"
  by (simp add: hex_ok_def)

lemma length_blake3: "blake3_ok C \<Longrightarrow> length (blake3 C b) = 32"
  by (simp add: blake3_ok_def)

lemma mldsa_keygen_lengths:
  "mldsa_ok C \<Longrightarrow> mldsa_keygen C e = Some (pk, sk) \<Longrightarrow>
   length pk = PK_LEN \<and> length sk = SK_LEN \<and> mldsa_sk_parses C sk \<and> mldsa_get_public_key C sk = pk"
  unfolding mldsa_ok_def by blast

lemma mldsa_public:
  "mldsa_ok C \<Longrightarrow> length sk = SK_LEN \<Longrightarrow> mldsa_sk_parses C sk \<Longrightarrow>
   length (mldsa_get_public_key C sk) = PK_LEN \<and> mldsa_pk_parses C (mldsa_get_public_key C sk)"
  unfolding mldsa_ok_def by blast

lemma mldsa_sign_verifies:
  "mldsa_ok C \<Longrightarrow> length sk = SK_LEN \<Longrightarrow> mldsa_sk_parses C sk \<Longrightarrow> mldsa_try_sign C e sk m ctx = Some sig \<Longrightarrow>
   length sig = SIG_LEN \<and> mldsa_verify C (mldsa_get_public_key C sk) m sig ctx"
  unfolding mldsa_ok_def by blast

subsection \<open>A concrete instance\<close>

text \<open>
  Two characters a byte for \<open>hex\<close>, a 32-byte checksum for the hash, and a signature scheme in
  which keys and signatures repeat one byte. It is only there to instantiate the parameters.
\<close>

definition nibble :: "nat \<Rightarrow> char" where
  "nibble n = char_of (if n < 10 then 48 + n else 87 + n)"

definition unnibble :: "char \<Rightarrow> nat" where
  "unnibble c = (if (of_char c :: nat) < 58 then of_char c - 48 else of_char c - 87)"

definition toy_hex :: "bytes \<Rightarrow> string" where
  "toy_hex b = concat (map (\<lambda>x. [nibble (unat x div 16), nibble (unat x mod 16)]) b)"

fun toy_unhex :: "string \<Rightarrow> bytes option" where
  "toy_unhex [] = Some []"
| "toy_unhex [c] = None"
| "toy_unhex (c # d # s) = map_option ((#) (of_nat (unnibble c * 16 + unnibble d))) (toy_unhex s)"

definition toy_hash :: "bytes \<Rightarrow> bytes" where
  "toy_hash b = take 32 (rev b @ [of_nat (length b), sum_list b] @ replicate 32 7)"

definition toy_crates :: crates where
  "toy_crates = \<lparr>
     blake3 = toy_hash,
     hex_encode = toy_hex,
     hex_decode = toy_unhex,
     mldsa_keygen = (\<lambda>e. Some (replicate PK_LEN (of_nat e), replicate SK_LEN (of_nat e))),
     mldsa_sk_parses = (\<lambda>sk. True),
     mldsa_pk_parses = (\<lambda>pk. pk = replicate PK_LEN (hd pk)),
     mldsa_get_public_key = (\<lambda>sk. replicate PK_LEN (hd sk)),
     mldsa_try_sign = (\<lambda>e sk m ctx. Some (replicate SIG_LEN (hd sk + sum_list m))),
     mldsa_verify = (\<lambda>pk m sig ctx. sig = replicate SIG_LEN (hd pk + sum_list m)) \<rparr>"

lemma unnibble_nibble: "n < 16 \<Longrightarrow> unnibble (nibble n) = n"
  by (simp add: unnibble_def nibble_def)

lemma toy_unhex_hex: "toy_unhex (toy_hex b) = Some b"
proof (induction b)
  case Nil
  then show ?case by (simp add: toy_hex_def)
next
  case (Cons x b)
  have "unat x < 256" by (rule unat_u8_bound)
  then have "unat x div 16 < 16" by simp
  then have "unnibble (nibble (unat x div 16)) * 16 + unnibble (nibble (unat x mod 16)) = unat x"
    by (simp add: unnibble_nibble)
  then show ?case using Cons by (simp add: toy_hex_def)
qed

lemma length_toy_hex: "length (toy_hex b) = 2 * length b"
  by (induction b) (auto simp: toy_hex_def)

text \<open>The predicates hold for every extension of the instance.\<close>

lemma toy_fields:
  assumes "crates.truncate C = toy_crates"
  shows "blake3 C = toy_hash" "hex_encode C = toy_hex" "hex_decode C = toy_unhex"
    "mldsa_keygen C = mldsa_keygen toy_crates" "mldsa_sk_parses C = mldsa_sk_parses toy_crates"
    "mldsa_pk_parses C = mldsa_pk_parses toy_crates"
    "mldsa_get_public_key C = mldsa_get_public_key toy_crates"
    "mldsa_try_sign C = mldsa_try_sign toy_crates" "mldsa_verify C = mldsa_verify toy_crates"
  using assms by (simp_all add: crates.defs toy_crates_def)

lemma toy_hex_ok: assumes t: "crates.truncate C = toy_crates" shows "hex_ok C"
  by (simp add: hex_ok_def toy_fields [OF t] toy_unhex_hex length_toy_hex)

lemma length_toy_hash [simp]: "length (toy_hash b) = 32"
  by (auto simp: toy_hash_def min_def)

lemma toy_blake3_ok: assumes t: "crates.truncate C = toy_crates" shows "blake3_ok C"
  by (simp add: blake3_ok_def toy_fields [OF t])

lemma toy_mldsa_ok: assumes t: "crates.truncate C = toy_crates" shows "mldsa_ok C"
  unfolding mldsa_ok_def toy_fields [OF t] by (simp add: toy_crates_def)

lemmas toy_oks = toy_hex_ok toy_blake3_ok toy_mldsa_ok

end
