(* ===== verification/Signing.thy ===== *)
theory Signing
  imports Crates
begin

text \<open>
  The errors of \<open>qaudit-core\<close> and its ML-DSA-87 wrapper: key decoding, key pairs, the
  \<open>Signer\<close> trait and signature verification, with the software signer of \<open>qaudit-hsm\<close>.

  A value interpolated into an error message is left out of it; the structured fields of the
  error are kept. \<open>Panic\<close> is not an error of the source: it is the value of a computation in
  which an \<open>expect\<close> or an arithmetic check aborts the process.
\<close>

datatype error =
    Io string
  | Cbor string
  | BadSignature (bad_index: u64)
  | BadKey string
  | ChainBroken u64 string string
  | InvalidEntry u64 string
  | BadHeader string
  | VersionMismatch u32 u32
  | Internal string
  | Panic string

type_synonym 'a result = "error + 'a"
type_synonym public_key = bytes
type_synonym secret_key = bytes
type_synonym signature = bytes

definition PUBLIC_KEY_LEN :: usize where "PUBLIC_KEY_LEN = PK_LEN"
definition SECRET_KEY_LEN :: usize where "SECRET_KEY_LEN = SK_LEN"
definition SIGNATURE_LEN :: usize where "SIGNATURE_LEN = SIG_LEN"

definition SIG_CONTEXT :: bytes where
  "SIG_CONTEXT = ascii ''cofre-soberano-pq/qaudit/v1''"

definition QGATEWAY_AUDIT_PK_MAGIC :: bytes where
  "QGATEWAY_AUDIT_PK_MAGIC = ascii ''AUDITPK0''"

lemmas key_lens = PUBLIC_KEY_LEN_def SECRET_KEY_LEN_def SIGNATURE_LEN_def

subsection \<open>Keys and signatures\<close>

definition PublicKey_from_bytes :: "bytes \<Rightarrow> public_key result" where
  "PublicKey_from_bytes b =
     (if length b \<noteq> PUBLIC_KEY_LEN then Inl (BadKey ''public key must be 2592 bytes'') else Inr b)"

definition SecretKey_from_bytes :: "bytes \<Rightarrow> secret_key result" where
  "SecretKey_from_bytes b =
     (if length b \<noteq> SECRET_KEY_LEN then Inl (BadKey ''secret key must be 4896 bytes'') else Inr b)"

definition Signature_from_bytes :: "bytes \<Rightarrow> signature result" where
  "Signature_from_bytes b =
     (if length b \<noteq> SIGNATURE_LEN then Inl (BadSignature u64_max) else Inr b)"

definition decode_pubkey_any :: "bytes \<Rightarrow> public_key result" where
  "decode_pubkey_any b =
     (if length b = PUBLIC_KEY_LEN then PublicKey_from_bytes b
      else if length b = 8 + PUBLIC_KEY_LEN \<and> take 8 b = QGATEWAY_AUDIT_PK_MAGIC
        then PublicKey_from_bytes (drop 8 b)
      else if length b = 8 + PUBLIC_KEY_LEN
        then Inl (BadKey ''public-key file does not start with the expected magic'')
      else Inl (BadKey ''public key must be 2592 bytes or 2600 bytes''))"

definition derive_public :: "'a crates_scheme \<Rightarrow> secret_key \<Rightarrow> public_key result" where
  "derive_public C sk =
     (if length sk \<noteq> SECRET_KEY_LEN then Inl (BadKey ''secret key wrong length for derive_public'')
      else if \<not> mldsa_sk_parses C sk then Inl (Internal ''ML-DSA-87 SK parse'')
      else Inr (mldsa_get_public_key C sk))"

record keypair =
  kp_pk :: public_key
  kp_sk :: secret_key

definition KeyPair_generate :: "'a crates_scheme \<Rightarrow> nat \<Rightarrow> keypair result" where
  "KeyPair_generate C e =
     (case mldsa_keygen C e of
        None \<Rightarrow> Inl (Internal ''ML-DSA-87 keygen failed'')
      | Some (pk, sk) \<Rightarrow> Inr \<lparr> kp_pk = pk, kp_sk = sk \<rparr>)"

definition KeyPair_from_parts :: "public_key \<Rightarrow> secret_key \<Rightarrow> keypair" where
  "KeyPair_from_parts pk sk = \<lparr> kp_pk = pk, kp_sk = sk \<rparr>"

definition KeyPair_sign :: "'a crates_scheme \<Rightarrow> keypair \<Rightarrow> nat \<Rightarrow> bytes \<Rightarrow> signature result" where
  "KeyPair_sign C kp e msg =
     (if length (kp_sk kp) \<noteq> SECRET_KEY_LEN then Inl (BadKey ''secret key wrong length'')
      else if \<not> mldsa_sk_parses C (kp_sk kp) then Inl (BadKey ''ML-DSA-87 sk decode'')
      else case mldsa_try_sign C e (kp_sk kp) msg SIG_CONTEXT of
        None \<Rightarrow> Inl (Internal ''ML-DSA-87 sign'')
      | Some sig \<Rightarrow> Inr sig)"

definition verify_sig :: "'a crates_scheme \<Rightarrow> public_key \<Rightarrow> bytes \<Rightarrow> signature \<Rightarrow> u64 \<Rightarrow> unit result" where
  "verify_sig C pk msg sig index =
     (if length pk \<noteq> PUBLIC_KEY_LEN then Inl (BadKey ''public key wrong length'')
      else if length sig \<noteq> SIGNATURE_LEN then Inl (BadSignature index)
      else if \<not> mldsa_pk_parses C pk then Inl (BadKey ''ML-DSA-87 pk decode'')
      else if mldsa_verify C pk msg sig SIG_CONTEXT then Inr ()
      else Inl (BadSignature index))"

subsection \<open>The signer trait\<close>

text \<open>
  A trait object \<open>Box<dyn Signer>\<close>: its three methods. Signing is randomised, or asks a
  device, so it takes the entropy of the call.
\<close>

record signer =
  s_sign :: "nat \<Rightarrow> bytes \<Rightarrow> signature result"
  s_public_key :: public_key
  s_provenance :: string

definition keypair_signer :: "'a crates_scheme \<Rightarrow> keypair \<Rightarrow> signer" where
  "keypair_signer C kp = \<lparr>
     s_sign = KeyPair_sign C kp,
     s_public_key = kp_pk kp,
     s_provenance = ''soft:in-memory'' \<rparr>"

record soft_signer =
  soft_kp :: keypair
  soft_provenance :: string

definition SoftSigner_new :: "keypair \<Rightarrow> soft_signer" where
  "SoftSigner_new kp = \<lparr> soft_kp = kp, soft_provenance = ''soft:in-memory'' \<rparr>"

definition SoftSigner_with_provenance :: "keypair \<Rightarrow> string \<Rightarrow> soft_signer" where
  "SoftSigner_with_provenance kp p = \<lparr> soft_kp = kp, soft_provenance = p \<rparr>"

definition SoftSigner_generate :: "'a crates_scheme \<Rightarrow> nat \<Rightarrow> soft_signer result" where
  "SoftSigner_generate C e = and_then (KeyPair_generate C e) (\<lambda>kp. Inr (SoftSigner_new kp))"

definition soft_signer_obj :: "'a crates_scheme \<Rightarrow> soft_signer \<Rightarrow> signer" where
  "soft_signer_obj C s = \<lparr>
     s_sign = KeyPair_sign C (soft_kp s),
     s_public_key = kp_pk (soft_kp s),
     s_provenance = soft_provenance s \<rparr>"

text \<open>
  The contract of the trait: a signature it returns passes \<open>verify_sig\<close> against its own
  public key, whatever index the caller names.
\<close>

definition signer_good :: "'a crates_scheme \<Rightarrow> signer \<Rightarrow> bool" where
  "signer_good C s \<longleftrightarrow>
     (\<forall>e m sig i. s_sign s e m = Inr sig \<longrightarrow> verify_sig C (s_public_key s) m sig i = Inr ())"

text \<open>A key pair whose public half belongs to its secret half.\<close>

definition keypair_matches :: "'a crates_scheme \<Rightarrow> keypair \<Rightarrow> bool" where
  "keypair_matches C kp \<longleftrightarrow> kp_pk kp = mldsa_get_public_key C (kp_sk kp)"

subsection \<open>Facts\<close>

lemma PublicKey_from_bytes_Inr [res_simps]:
  "PublicKey_from_bytes b = Inr pk \<longleftrightarrow> pk = b \<and> length b = PUBLIC_KEY_LEN"
  by (auto simp: PublicKey_from_bytes_def)

lemma SecretKey_from_bytes_Inr [res_simps]:
  "SecretKey_from_bytes b = Inr sk \<longleftrightarrow> sk = b \<and> length b = SECRET_KEY_LEN"
  by (auto simp: SecretKey_from_bytes_def)

lemma Signature_from_bytes_Inr [res_simps]:
  "Signature_from_bytes b = Inr s \<longleftrightarrow> s = b \<and> length b = SIGNATURE_LEN"
  by (auto simp: Signature_from_bytes_def)

lemma verify_sig_Inr [res_simps]:
  "verify_sig C pk m sig i = Inr u \<longleftrightarrow>
     length pk = PUBLIC_KEY_LEN \<and> length sig = SIGNATURE_LEN \<and> mldsa_pk_parses C pk \<and>
     mldsa_verify C pk m sig SIG_CONTEXT"
  by (auto simp: verify_sig_def)

lemma KeyPair_sign_Inr:
  "KeyPair_sign C kp e m = Inr sig \<longleftrightarrow>
     length (kp_sk kp) = SECRET_KEY_LEN \<and> mldsa_sk_parses C (kp_sk kp) \<and>
     mldsa_try_sign C e (kp_sk kp) m SIG_CONTEXT = Some sig"
  by (auto simp: KeyPair_sign_def split: option.splits)

lemma KeyPair_generate_matches:
  "mldsa_ok C \<Longrightarrow> KeyPair_generate C e = Inr kp \<Longrightarrow>
   keypair_matches C kp \<and> length (kp_pk kp) = PUBLIC_KEY_LEN \<and> length (kp_sk kp) = SECRET_KEY_LEN"
  using mldsa_keygen_lengths [of C e]
  by (auto simp: KeyPair_generate_def keypair_matches_def key_lens split: option.splits prod.splits)

subsection \<open>Interchangeable back ends\<close>

text \<open>
  What a log needs of a back end, whatever its representation: a good back end's signatures
  verify under the key it reports. The client's fact, proved once, is that the trait object
  built from it meets the contract \<open>signer_good\<close>.
\<close>

locale signer_backend =
  fixes good :: "'a crates_scheme \<Rightarrow> 's \<Rightarrow> bool"
    and obj :: "'a crates_scheme \<Rightarrow> 's \<Rightarrow> signer"
  assumes sign_verifies:
    "good C s \<Longrightarrow> s_sign (obj C s) e m = Inr sig \<Longrightarrow> verify_sig C (s_public_key (obj C s)) m sig 0 = Inr ()"
begin

lemma obj_good: "good C s \<Longrightarrow> signer_good C (obj C s)"
  using sign_verifies by (fastforce simp: signer_good_def res_simps)

end

definition keypair_good :: "'a crates_scheme \<Rightarrow> keypair \<Rightarrow> bool" where
  "keypair_good C kp \<longleftrightarrow> mldsa_ok C \<and> keypair_matches C kp"

lemma KeyPair_sign_verifies:
  assumes "keypair_good C kp" and s: "KeyPair_sign C kp e m = Inr sig"
  shows "verify_sig C (kp_pk kp) m sig i = Inr ()"
proof -
  have ok: "mldsa_ok C" and pk: "kp_pk kp = mldsa_get_public_key C (kp_sk kp)"
    using assms(1) by (auto simp: keypair_good_def keypair_matches_def)
  have sk: "length (kp_sk kp) = SK_LEN" "mldsa_sk_parses C (kp_sk kp)"
    and sg: "mldsa_try_sign C e (kp_sk kp) m SIG_CONTEXT = Some sig"
    using s by (auto simp: KeyPair_sign_Inr key_lens)
  show ?thesis
    using mldsa_sign_verifies [OF ok sk sg] mldsa_public [OF ok sk]
    by (simp add: res_simps pk key_lens)
qed

interpretation keypair_backend: signer_backend keypair_good keypair_signer
  by unfold_locales (auto simp: keypair_signer_def KeyPair_sign_verifies)

interpretation soft_backend: signer_backend "\<lambda>C s. keypair_good C (soft_kp s)" soft_signer_obj
  by unfold_locales (auto simp: soft_signer_obj_def KeyPair_sign_verifies)

end
