(* ===== verification/Event.thy ===== *)
theory Event
  imports Signing
begin

text \<open>
  Audit events (\<open>qaudit-core/src/event.rs\<close>): the event, its fluent builder and its content
  hash. The CBOR encoding is a parameter; \<open>None\<close> is an encoding error, on which
  \<open>content_hash\<close> panics as the source does.
\<close>

record audit_event =
  schema :: u32
  ev_timestamp :: timestamp
  actor :: string
  action :: string
  resource :: string
  outcome :: string
  metadata :: "(string, string) btree"

record event_crates = crates +
  cbor_event :: "audit_event \<Rightarrow> bytes option"

record event_builder =
  b_timestamp :: "timestamp option"
  b_actor :: "string option"
  b_action :: "string option"
  b_resource :: "string option"
  b_outcome :: "string option"
  b_metadata :: "(string, string) btree"

definition builder :: event_builder where
  "builder = \<lparr> b_timestamp = None, b_actor = None, b_action = None, b_resource = None,
               b_outcome = None, b_metadata = [] \<rparr>"

definition set_actor :: "string \<Rightarrow> event_builder \<Rightarrow> event_builder" where
  "set_actor a b = b\<lparr> b_actor := Some a \<rparr>"

definition set_action :: "string \<Rightarrow> event_builder \<Rightarrow> event_builder" where
  "set_action a b = b\<lparr> b_action := Some a \<rparr>"

definition set_resource :: "string \<Rightarrow> event_builder \<Rightarrow> event_builder" where
  "set_resource r b = b\<lparr> b_resource := Some r \<rparr>"

definition set_outcome :: "string \<Rightarrow> event_builder \<Rightarrow> event_builder" where
  "set_outcome r b = b\<lparr> b_outcome := Some r \<rparr>"

definition set_timestamp :: "timestamp \<Rightarrow> event_builder \<Rightarrow> event_builder" where
  "set_timestamp t b = b\<lparr> b_timestamp := Some t \<rparr>"

definition set_meta :: "string \<Rightarrow> string \<Rightarrow> event_builder \<Rightarrow> event_builder" where
  "set_meta k v b = b\<lparr> b_metadata := bt_insert k v (b_metadata b) \<rparr>"

definition unwrap_or :: "'a \<Rightarrow> 'a option \<Rightarrow> 'a" where
  "unwrap_or d r = (case r of None \<Rightarrow> d | Some x \<Rightarrow> x)"

definition build :: "timestamp \<Rightarrow> event_builder \<Rightarrow> audit_event" where
  "build now b = \<lparr>
     schema = 1,
     ev_timestamp = unwrap_or now (b_timestamp b),
     actor = unwrap_or ''unknown'' (b_actor b),
     action = unwrap_or ''noop'' (b_action b),
     resource = unwrap_or [] (b_resource b),
     outcome = unwrap_or ''ok'' (b_outcome b),
     metadata = b_metadata b \<rparr>"

definition to_canonical_cbor :: "'a event_crates_scheme \<Rightarrow> audit_event \<Rightarrow> bytes result" where
  "to_canonical_cbor C ev = ok_or (Cbor ''serialization'') (cbor_event C ev)"

definition content_hash :: "'a event_crates_scheme \<Rightarrow> audit_event \<Rightarrow> bytes result" where
  "content_hash C ev =
     (case to_canonical_cbor C ev of
        Inl e \<Rightarrow> Inl (Panic ''AuditEvent serialization is infallible for these field types'')
      | Inr buf \<Rightarrow> Inr (blake3 C buf))"

text \<open>Serialisation of these field types into a vector does not fail.\<close>

definition cbor_event_total :: "'a event_crates_scheme \<Rightarrow> bool" where
  "cbor_event_total C \<longleftrightarrow> (\<forall>ev. cbor_event C ev \<noteq> None)"

definition event_wf :: "audit_event \<Rightarrow> bool" where
  "event_wf ev \<longleftrightarrow> bt_wf (metadata ev)"

subsection \<open>Facts\<close>

lemma content_hash_length [wf_intros]: "blake3_ok C \<Longrightarrow> content_hash C ev = Inr h \<Longrightarrow> length h = 32"
  by (auto simp: content_hash_def length_blake3 split: sum.splits)

lemma content_hash_total: "cbor_event_total C \<Longrightarrow> \<exists>h. content_hash C ev = Inr h"
  unfolding cbor_event_total_def
  by (drule spec [of _ ev]) (auto simp: content_hash_def to_canonical_cbor_def)

lemmas builder_defs = set_actor_def set_action_def set_resource_def set_outcome_def
  set_timestamp_def set_meta_def builder_def

lemma bt_wf_ext:
  assumes "bt_wf m" "bt_wf m'" "map_of m = map_of m'"
  shows "m = m'"
proof -
  have s: "sorted (map fst m)" "distinct (map fst m)" "sorted (map fst m')" "distinct (map fst m')"
    using assms(1,2) by (auto simp: bt_wf_def strict_sorted_iff)
  have "p \<in> set m \<longleftrightarrow> p \<in> set m'" for p
    using map_of_eq_Some_iff [OF s(2), of "fst p" "snd p"] map_of_eq_Some_iff [OF s(4), of "fst p" "snd p"]
      assms(3) by simp
  then have e: "set m = set m'" by auto
  then have "inj_on fst (set m \<union> set m')" using s(2) by (simp add: distinct_map)
  then show ?thesis using s e by (rule map_sorted_distinct_set_unique)
qed

definition metas :: "(string \<times> string) list \<Rightarrow> event_builder \<Rightarrow> event_builder" where
  "metas ps b = fold (\<lambda>(k, v). set_meta k v) ps b"

lemma metas_metadata:
  "b_metadata (metas ps b) = fold (\<lambda>(k, v). bt_insert k v) ps (b_metadata b)"
  by (induction ps arbitrary: b) (auto simp: metas_def set_meta_def)

lemma metas_fields: "metas ps b = b\<lparr> b_metadata := b_metadata (metas ps b) \<rparr>"
proof (induction ps arbitrary: b)
  case Nil
  then show ?case by (simp add: metas_def)
next
  case (Cons p ps)
  obtain k v where p: "p = (k, v)" by (cases p)
  have e: "metas (p # ps) b = metas ps (set_meta k v b)" by (simp add: metas_def p)
  show ?case using Cons [of "set_meta k v b"] unfolding e by (simp add: set_meta_def)
qed

lemma bt_fold_wf: "bt_wf m \<Longrightarrow> bt_wf (fold (\<lambda>(k, v). bt_insert k v) ps m)"
  by (induction ps arbitrary: m) (auto intro: bt_wf_insert)

lemma bt_fold_map_of:
  "map_of (fold (\<lambda>(k, v). bt_insert k v) ps m) = map_of m ++ map_of (rev ps)"
proof (induction ps arbitrary: m)
  case (Cons p ps)
  show ?case unfolding fold.simps o_apply Cons
    by (cases p) (simp add: map_of_bt_insert map_add_upd_left map_add_def fun_eq_iff split: option.splits)
qed simp

end
