(* ===== verification/Merkle.thy ===== *)
theory Merkle
  imports Crates
begin

text \<open>
  The incremental Merkle tree (\<open>qaudit-core/src/merkle.rs\<close>), its reference definition (the
  RFC 6962 tree hash over the whole leaf list), the proof that the frontier computes it, and
  the injectivity of the tree hash for a hash without collisions on the inputs met.

  The leaf counter is 64 bits wide and wraps, as it does in the release profile; the theorems
  are about fewer than \<open>2 ^ 64\<close> leaves.
\<close>

definition LEAF_PREFIX :: u8 where "LEAF_PREFIX = 0"
definition NODE_PREFIX :: u8 where "NODE_PREFIX = 1"

definition leaf_hash :: "'a crates_scheme \<Rightarrow> bytes \<Rightarrow> bytes" where
  "leaf_hash C content = blake3 C ([LEAF_PREFIX] @ content)"

definition node_hash :: "'a crates_scheme \<Rightarrow> bytes \<Rightarrow> bytes \<Rightarrow> bytes" where
  "node_hash C left right = blake3 C ([NODE_PREFIX] @ left @ right)"

record merkle_tree =
  count :: u64
  frontier :: "bytes option list"

definition MerkleTree_new :: merkle_tree where
  "MerkleTree_new = \<lparr> count = 0, frontier = [] \<rparr>"

definition mt_len :: "merkle_tree \<Rightarrow> u64" where
  "mt_len t = count t"

definition mt_is_empty :: "merkle_tree \<Rightarrow> bool" where
  "mt_is_empty t \<longleftrightarrow> count t = 0"

text \<open>The loop of \<open>append\<close> from level \<open>i\<close> on: it takes the peak of a full level and carries.\<close>

fun carry_up :: "'a crates_scheme \<Rightarrow> bytes \<Rightarrow> bytes option list \<Rightarrow> bytes option list" where
  "carry_up C carry [] = [Some carry]"
| "carry_up C carry (None # f) = Some carry # f"
| "carry_up C carry (Some left # f) = None # carry_up C (node_hash C left carry) f"

fun bag :: "'a crates_scheme \<Rightarrow> bytes option \<Rightarrow> bytes option list \<Rightarrow> bytes option" where
  "bag C acc [] = acc"
| "bag C acc (None # f) = bag C acc f"
| "bag C acc (Some h # f) =
     bag C (Some (case acc of None \<Rightarrow> h | Some a \<Rightarrow> node_hash C h a)) f"

definition mt_root :: "'a crates_scheme \<Rightarrow> merkle_tree \<Rightarrow> bytes" where
  "mt_root C t =
     (if count t = 0 then replicate 32 0
      else case bag C None (frontier t) of None \<Rightarrow> replicate 32 0 | Some a \<Rightarrow> a)"

definition mt_append :: "'a crates_scheme \<Rightarrow> merkle_tree \<Rightarrow> bytes \<Rightarrow> merkle_tree" where
  "mt_append C t content =
     \<lparr> count = count t + 1, frontier = carry_up C (leaf_hash C content) (frontier t) \<rparr>"

text \<open>\<open>append\<close> returns the new root and leaves the tree \<open>mt_append\<close> describes.\<close>

definition mt_append_root :: "'a crates_scheme \<Rightarrow> merkle_tree \<Rightarrow> bytes \<Rightarrow> bytes \<times> merkle_tree" where
  "mt_append_root C t content = (let t' = mt_append C t content in (mt_root C t', t'))"

subsection \<open>The reference definition\<close>

text \<open>The largest power of two below \<open>n\<close>, for \<open>n\<close> at least two.\<close>

fun pow2_below :: "nat \<Rightarrow> nat" where
  "pow2_below n = (if n \<le> 2 then 1 else 2 * pow2_below ((n + 1) div 2))"

declare pow2_below.simps [simp del]

lemma pow2_below_eq: "2 ^ k < n \<Longrightarrow> n \<le> 2 ^ Suc k \<Longrightarrow> pow2_below n = 2 ^ k"
proof (induction k arbitrary: n)
  case 0
  then show ?case by (simp add: pow2_below.simps)
next
  case (Suc k)
  have "2 ^ k < (n + 1) div 2" "(n + 1) div 2 \<le> 2 ^ Suc k"
    using Suc.prems by (auto simp: div_le_mono)
  then have "pow2_below ((n + 1) div 2) = 2 ^ k" by (rule Suc.IH)
  moreover have "2 < n"
    using Suc.prems(1) by (metis le_less_trans one_le_numeral one_le_power power_Suc mult_2 add_mono one_add_one)
  ultimately show ?case by (simp add: pow2_below.simps)
qed

lemma pow2_below_ex:
  fixes n :: nat
  assumes n: "2 \<le> n"
  shows "\<exists>k. 2 ^ k < n \<and> n \<le> 2 ^ Suc k"
proof -
  define k where "k = (LEAST k. n \<le> 2 ^ Suc k)"
  have "n < 2 ^ n" by (rule less_exp)
  then have "n \<le> 2 ^ Suc n" unfolding power_Suc by linarith
  then have up: "n \<le> 2 ^ Suc k" unfolding k_def by (rule LeastI)
  have "2 ^ k < n"
  proof (cases k)
    case 0
    then show ?thesis using n by simp
  next
    case (Suc j)
    then have "\<not> n \<le> 2 ^ Suc j" unfolding k_def by (metis lessI not_less_Least)
    then show ?thesis using Suc by simp
  qed
  then show ?thesis using up by blast
qed

lemma pow2_below_bounds: "2 \<le> n \<Longrightarrow> 0 < pow2_below n \<and> pow2_below n < n"
  using pow2_below_ex [of n] pow2_below_eq by fastforce

function mth :: "'a crates_scheme \<Rightarrow> bytes list \<Rightarrow> bytes" where
  "mth C xs =
     (if length xs = 0 then replicate 32 0
      else if length xs = 1 then leaf_hash C (hd xs)
      else node_hash C (mth C (take (pow2_below (length xs)) xs)) (mth C (drop (pow2_below (length xs)) xs)))"
  by pat_completeness auto
termination
proof (relation "measure (\<lambda>(C, xs). length xs)")
  fix C :: "'a crates_scheme" and xs :: "bytes list"
  assume "length xs \<noteq> 0" "length xs \<noteq> 1"
  then have "0 < pow2_below (length xs) \<and> pow2_below (length xs) < length xs"
    by (intro pow2_below_bounds) linarith
  then show "((C, take (pow2_below (length xs)) xs), C, xs) \<in> measure (\<lambda>(C, xs). length xs)"
    and "((C, drop (pow2_below (length xs)) xs), C, xs) \<in> measure (\<lambda>(C, xs). length xs)"
    by auto
qed simp

declare mth.simps [simp del]

lemma mth_Nil [simp]: "mth C [] = replicate 32 0"
  by (simp add: mth.simps)

lemma mth_single [simp]: "mth C [x] = leaf_hash C x"
  by (simp add: mth.simps)

lemma mth_split:
  assumes "length ys = 2 ^ k" "0 < length zs" "length zs \<le> 2 ^ k"
  shows "mth C (ys @ zs) = node_hash C (mth C ys) (mth C zs)"
proof -
  have p: "pow2_below (length (ys @ zs)) = 2 ^ k"
    by (rule pow2_below_eq) (use assms in auto)
  have "2 \<le> length (ys @ zs)"
    using assms by (metis One_nat_def Suc_leI add_mono length_append one_add_one one_le_numeral one_le_power)
  then show ?thesis using p assms(1) by (simp add: mth.simps [of C "ys @ zs"])
qed

subsection \<open>The frontier computes the tree hash\<close>

text \<open>
  \<open>covers C i f xs\<close>: the frontier \<open>f\<close>, read from level \<open>i\<close>, holds the tree hashes of
  consecutive blocks of \<open>xs\<close>, the block of level \<open>j\<close> having \<open>2 ^ j\<close> leaves and the larger
  blocks lying to the left.
\<close>

fun covers :: "'a crates_scheme \<Rightarrow> nat \<Rightarrow> bytes option list \<Rightarrow> bytes list \<Rightarrow> bool" where
  "covers C i [] xs \<longleftrightarrow> xs = []"
| "covers C i (None # f) xs \<longleftrightarrow> covers C (Suc i) f xs"
| "covers C i (Some h # f) xs \<longleftrightarrow>
     2 ^ i \<le> length xs \<and> h = mth C (drop (length xs - 2 ^ i) xs) \<and>
     covers C (Suc i) f (take (length xs - 2 ^ i) xs)"

lemma covers_Some_iff:
  "covers C i (Some h # f) xs \<longleftrightarrow>
     (\<exists>ys zs. xs = ys @ zs \<and> length zs = 2 ^ i \<and> h = mth C zs \<and> covers C (Suc i) f ys)"
proof
  assume a: "covers C i (Some h # f) xs"
  show "\<exists>ys zs. xs = ys @ zs \<and> length zs = 2 ^ i \<and> h = mth C zs \<and> covers C (Suc i) f ys"
    using a by (intro exI [of _ "take (length xs - 2 ^ i) xs"] exI [of _ "drop (length xs - 2 ^ i) xs"]) auto
qed auto

lemma covers_carry_up:
  "covers C i f ys \<Longrightarrow> length zs = 2 ^ i \<Longrightarrow> covers C i (carry_up C (mth C zs) f) (ys @ zs)"
proof (induction C "mth C zs" f arbitrary: i ys zs rule: carry_up.induct)
  case (1 C)
  then show ?case by simp
next
  case (2 C f)
  then show ?case by simp
next
  case (3 C left f)
  then obtain us vs where ys: "ys = us @ vs" and vs: "length vs = 2 ^ i" "left = mth C vs"
    and us: "covers C (Suc i) f us"
    unfolding covers_Some_iff by blast
  have m: "node_hash C left (mth C zs) = mth C (vs @ zs)"
    using mth_split [of vs i zs C] vs 3(3) by simp
  have "covers C (Suc i) (carry_up C (mth C (vs @ zs)) f) (us @ (vs @ zs))"
    using 3(1) [OF m us] vs 3(3) by simp
  then show ?case using ys m by simp
qed

lemma bag_covers:
  "covers C i f ys \<Longrightarrow> length zs \<le> 2 ^ i \<Longrightarrow>
   bag C (if zs = [] then None else Some (mth C zs)) f =
     (if ys @ zs = [] then None else Some (mth C (ys @ zs)))"
proof (induction f arbitrary: i ys zs)
  case Nil
  then show ?case by simp
next
  case (Cons p f)
  show ?case
  proof (cases p)
    case None
    have "length zs \<le> 2 ^ Suc i" using Cons.prems(2) by simp
    then show ?thesis using Cons None by simp
  next
    case (Some h)
    then obtain us vs where ys: "ys = us @ vs" and vs: "length vs = 2 ^ i" "h = mth C vs"
      and us: "covers C (Suc i) f us"
      using Cons.prems(1) unfolding Some covers_Some_iff by blast
    have ne: "vs \<noteq> []" using vs(1) by auto
    have acc: "(case (if zs = [] then None else Some (mth C zs)) of None \<Rightarrow> h | Some a \<Rightarrow> node_hash C h a)
               = mth C (vs @ zs)"
      using mth_split [OF vs(1), of zs C] vs(2) Cons.prems(2) by auto
    have "length (vs @ zs) \<le> 2 ^ Suc i" using vs(1) Cons.prems(2) by simp
    from Cons.IH [OF us this] ne show ?thesis using Some acc ys by simp
  qed
qed

text \<open>\<open>mt_repr C t xs\<close>: the tree \<open>t\<close> is the one with the leaves \<open>xs\<close>.\<close>

definition tight :: "bytes option list \<Rightarrow> bool" where
  "tight f \<longleftrightarrow> f = [] \<or> last f \<noteq> None"

definition mt_repr :: "'a crates_scheme \<Rightarrow> merkle_tree \<Rightarrow> bytes list \<Rightarrow> bool" where
  "mt_repr C t xs \<longleftrightarrow> count t = of_nat (length xs) \<and> covers C 0 (frontier t) xs \<and> tight (frontier t)"

lemma carry_up_nonempty [simp]: "carry_up C h f \<noteq> []"
  by (induction C h f rule: carry_up.induct) auto

lemma tight_carry_up: "tight f \<Longrightarrow> tight (carry_up C h f)"
  by (induction C h f rule: carry_up.induct) (auto simp: tight_def split: if_splits)

lemma mt_repr_new: "mt_repr C MerkleTree_new []"
  by (simp add: mt_repr_def MerkleTree_new_def tight_def)

lemma mt_repr_append: "mt_repr C t xs \<Longrightarrow> mt_repr C (mt_append C t x) (xs @ [x])"
  using covers_carry_up [of C 0 "frontier t" xs "[x]"]
  by (simp add: mt_repr_def mt_append_def tight_carry_up add.commute)

lemma mt_repr_root:
  assumes "mt_repr C t xs" and "length xs < 2 ^ 64"
  shows "mt_root C t = mth C xs"
proof -
  have "count t = 0 \<longleftrightarrow> xs = []"
    using assms by (simp add: mt_repr_def word_of_nat_eq_0_iff nat_dvd_not_less) (metis nat_dvd_not_less length_greater_0_conv dvd_0_right list.size(3))
  then show ?thesis
    using bag_covers [of C 0 "frontier t" xs "[]"] assms(1)
    by (auto simp: mt_root_def mt_repr_def)
qed

subsection \<open>The accumulator interface\<close>

text \<open>
  What the log relies on: a tree built by appending a sequence of fewer than \<open>cap\<close> leaves has
  the root the specification gives for that sequence.
\<close>

locale accumulator =
  fixes repr :: "'t \<Rightarrow> 'l list \<Rightarrow> bool"
    and empty :: 't
    and add :: "'t \<Rightarrow> 'l \<Rightarrow> 't"
    and rt :: "'t \<Rightarrow> 'h"
    and digest :: "'l list \<Rightarrow> 'h"
    and cap :: nat
  assumes repr_empty: "repr empty []"
    and repr_add: "repr t xs \<Longrightarrow> repr (add t x) (xs @ [x])"
    and repr_root: "repr t xs \<Longrightarrow> length xs < cap \<Longrightarrow> rt t = digest xs"
begin

lemma repr_foldl: "repr t xs \<Longrightarrow> repr (foldl add t ys) (xs @ ys)"
proof (induction ys arbitrary: t xs)
  case (Cons y ys)
  then show ?case using Cons.IH [OF repr_add [OF Cons.prems, of y]] by simp
qed simp

lemma repr_build: "repr (foldl add empty ys) ys"
  using repr_foldl [OF repr_empty, of ys] by simp

lemma build_root: "length ys < cap \<Longrightarrow> rt (foldl add empty ys) = digest ys"
  by (rule repr_root [OF repr_build])

end

interpretation mmr: accumulator "mt_repr C" MerkleTree_new "mt_append C" "mt_root C" "mth C" "2 ^ 64"
  for C
  by unfold_locales (auto intro: mt_repr_new mt_repr_append mt_repr_root)

definition mt_build :: "'a crates_scheme \<Rightarrow> bytes list \<Rightarrow> merkle_tree" where
  "mt_build C xs = foldl (mt_append C) MerkleTree_new xs"

lemma mt_build_Nil [simp]: "mt_build C [] = MerkleTree_new"
  by (simp add: mt_build_def)

lemma mt_build_snoc [simp]: "mt_build C (xs @ [x]) = mt_append C (mt_build C xs) x"
  by (simp add: mt_build_def)

lemma mt_build_root: "length xs < 2 ^ 64 \<Longrightarrow> mt_root C (mt_build C xs) = mth C xs"
  unfolding mt_build_def by (rule mmr.build_root)

lemma mt_build_repr: "mt_repr C (mt_build C xs) xs"
  unfolding mt_build_def by (rule mmr.repr_build)

subsection \<open>Size of the frontier\<close>

lemma covers_upper: "covers C i f xs \<Longrightarrow> length xs + 2 ^ i \<le> 2 ^ (i + length f)"
proof (induction f arbitrary: i xs)
  case (Cons p f)
  show ?case
  proof (cases p)
    case None
    then show ?thesis using Cons.IH [of "Suc i" xs] Cons.prems by simp
  next
    case (Some h)
    then obtain ys zs where "xs = ys @ zs" "length zs = 2 ^ i" and c: "covers C (Suc i) f ys"
      using Cons.prems unfolding Some covers_Some_iff by blast
    then show ?thesis using Cons.IH [OF c] by simp
  qed
qed simp

lemma covers_lower: "covers C i f xs \<Longrightarrow> tight f \<Longrightarrow> f \<noteq> [] \<Longrightarrow> 2 ^ (i + length f - 1) \<le> length xs"
proof (induction f arbitrary: i xs)
  case (Cons p f)
  show ?case
  proof (cases "f = []")
    case True
    then show ?thesis using Cons.prems by (cases p) (auto simp: tight_def)
  next
    case False
    then have t: "tight f" using Cons.prems(2) by (simp add: tight_def)
    obtain ys where "covers C (Suc i) f ys" "length ys \<le> length xs"
      using Cons.prems(1) by (cases p) (auto simp: intro: that)
    with Cons.IH [OF this(1) t False] show ?thesis by simp
  qed
qed simp

lemma mt_repr_frontier:
  assumes "mt_repr C t xs" "xs \<noteq> []"
  shows "2 ^ (length (frontier t) - 1) \<le> length xs \<and> length xs < 2 ^ length (frontier t)"
proof -
  have "frontier t \<noteq> []" using assms by (auto simp: mt_repr_def)
  then show ?thesis
    using covers_lower [of C 0 "frontier t" xs] covers_upper [of C 0 "frontier t" xs] assms
    by (auto simp: mt_repr_def)
qed

subsection \<open>Injectivity\<close>

text \<open>The strings hashed when the tree hash of \<open>xs\<close> is computed.\<close>

function mth_inputs :: "'a crates_scheme \<Rightarrow> bytes list \<Rightarrow> bytes set" where
  "mth_inputs C xs =
     (if length xs = 0 then {}
      else if length xs = 1 then {LEAF_PREFIX # hd xs}
      else (let l = take (pow2_below (length xs)) xs; r = drop (pow2_below (length xs)) xs in
        {NODE_PREFIX # mth C l @ mth C r} \<union> mth_inputs C l \<union> mth_inputs C r))"
  by pat_completeness auto
termination
proof (relation "measure (\<lambda>(C, xs). length xs)")
  fix C :: "'a crates_scheme" and xs l r :: "bytes list"
  assume "length xs \<noteq> 0" "length xs \<noteq> 1" and l: "l = take (pow2_below (length xs)) xs"
    and r: "r = drop (pow2_below (length xs)) xs"
  then have "0 < pow2_below (length xs) \<and> pow2_below (length xs) < length xs"
    by (intro pow2_below_bounds) linarith
  then show "((C, l), C, xs) \<in> measure (\<lambda>(C, xs). length xs)"
    and "((C, r), C, xs) \<in> measure (\<lambda>(C, xs). length xs)"
    using l r by auto
qed simp

declare mth_inputs.simps [simp del]

lemma mth_length: "blake3_ok C \<Longrightarrow> length (mth C xs) = 32"
  by (simp add: mth.simps [of C xs] leaf_hash_def node_hash_def length_blake3)

lemma mth_as_hash:
  "xs \<noteq> [] \<Longrightarrow> \<exists>i \<in> mth_inputs C xs. mth C xs = blake3 C i \<and>
     (length xs = 1 \<and> i = LEAF_PREFIX # hd xs \<or>
      2 \<le> length xs \<and> i = NODE_PREFIX # mth C (take (pow2_below (length xs)) xs) @
                                       mth C (drop (pow2_below (length xs)) xs))"
  by (cases "length xs = 1")
    (auto simp: mth.simps [of C xs] mth_inputs.simps [of C xs] leaf_hash_def node_hash_def Let_def Suc_le_eq
          neq_Nil_conv)

lemma mth_inputs_parts:
  assumes "2 \<le> length xs"
  shows "mth_inputs C (take (pow2_below (length xs)) xs) \<subseteq> mth_inputs C xs"
    and "mth_inputs C (drop (pow2_below (length xs)) xs) \<subseteq> mth_inputs C xs"
  using assms by (auto simp: mth_inputs.simps [of C xs] Let_def)

lemma mth_inj:
  assumes ok: "blake3_ok C"
  shows "xs \<noteq> [] \<Longrightarrow> ys \<noteq> [] \<Longrightarrow> inj_on (blake3 C) (mth_inputs C xs \<union> mth_inputs C ys) \<Longrightarrow>
         mth C xs = mth C ys \<Longrightarrow> xs = ys"
proof (induction xs arbitrary: ys rule: length_induct)
  case (1 xs)
  define l r where "l = take (pow2_below (length xs)) xs" and "r = drop (pow2_below (length xs)) xs"
  define l' r' where "l' = take (pow2_below (length ys)) ys" and "r' = drop (pow2_below (length ys)) ys"
  have xs: "xs = l @ r" and ys: "ys = l' @ r'" by (simp_all add: l_def r_def l'_def r'_def)
  obtain i where i: "i \<in> mth_inputs C xs" "mth C xs = blake3 C i"
      "length xs = 1 \<and> i = LEAF_PREFIX # hd xs \<or> 2 \<le> length xs \<and> i = NODE_PREFIX # mth C l @ mth C r"
    using mth_as_hash [OF 1(2), of C] unfolding l_def r_def by blast
  obtain j where j: "j \<in> mth_inputs C ys" "mth C ys = blake3 C j"
      "length ys = 1 \<and> j = LEAF_PREFIX # hd ys \<or> 2 \<le> length ys \<and> j = NODE_PREFIX # mth C l' @ mth C r'"
    using mth_as_hash [OF 1(3), of C] unfolding l'_def r'_def by blast
  have ij: "i = j" using 1(4,5) i(1,2) j(1,2) by (auto dest: inj_onD)
  consider "length xs = 1" "length ys = 1" "hd xs = hd ys"
    | "2 \<le> length xs" "2 \<le> length ys" "mth C l @ mth C r = mth C l' @ mth C r'"
    using i(3) j(3) ij by (auto simp: LEAF_PREFIX_def NODE_PREFIX_def)
  then show ?case
  proof cases
    case 1
    then show ?thesis by (auto simp: length_Suc_conv)
  next
    case 2
    have eq: "mth C l = mth C l'" "mth C r = mth C r'" using 2(3) by (simp_all add: mth_length [OF ok])
    have b: "0 < pow2_below (length xs) \<and> pow2_below (length xs) < length xs"
        "0 < pow2_below (length ys) \<and> pow2_below (length ys) < length ys"
      using 2(1,2) by (simp_all add: pow2_below_bounds)
    then have ne: "l \<noteq> []" "r \<noteq> []" "l' \<noteq> []" "r' \<noteq> []" "length l < length xs" "length r < length xs"
      by (auto simp: l_def r_def l'_def r'_def)
    have "inj_on (blake3 C) (mth_inputs C l \<union> mth_inputs C l')"
        "inj_on (blake3 C) (mth_inputs C r \<union> mth_inputs C r')"
      using mth_inputs_parts [OF 2(1), of C] mth_inputs_parts [OF 2(2), of C]
      by (auto intro!: inj_on_subset [OF 1(4)] simp: l_def r_def l'_def r'_def)
    then have "l = l'" "r = r'" using 1(1) ne eq by blast+
    then show ?thesis by (simp add: xs ys)
  qed
qed

end
