(* ===== verification/Auditlog.thy ===== *)
theory Auditlog
  imports Event Merkle
begin

text \<open>
  The signed audit log (\<open>qaudit-core/src/log.rs\<close>): header, entries, appending, verification,
  the on-disk format and atomic saving. Rotation is in its own theory.

  The CBOR encoder and decoder of \<open>ciborium\<close> with the derived serialisers are parameters; a
  decoder returns the value and the bytes after it. The serde helpers of the source, which
  check the lengths of byte strings, are applied to what the decoder returns. The clock and
  the random source are arguments.
\<close>

definition WIRE_VERSION :: u32 where "WIRE_VERSION = 1"
definition SUITE_ID :: string where "SUITE_ID = ''cspq-2026''"
definition MAGIC :: bytes where "MAGIC = ascii ''QAUDIT01''"

type_synonym log_id = bytes
type_synonym hash = bytes

record log_header =
  wire_version :: u32
  suite :: string
  created_at :: timestamp
  lh_log_id :: log_id
  pubkey :: public_key
  label :: string
  prev_log_id :: "log_id option"
  prev_log_final_root :: "hash option"

record log_entry =
  le_index :: u64
  appended_at :: timestamp
  event :: audit_event
  prev_root :: hash
  new_root :: hash
  le_signature :: signature

record log_crates = event_crates +
  cbor_payload :: "log_id \<Rightarrow> u64 \<Rightarrow> hash \<Rightarrow> hash \<Rightarrow> hash \<Rightarrow> bytes option"
  cbor_header :: "log_header \<Rightarrow> bytes option"
  cbor_entry :: "log_entry \<Rightarrow> bytes option"
  cbor_read_header :: "bytes \<Rightarrow> (log_header \<times> bytes) option"
  cbor_read_entry :: "bytes \<Rightarrow> (log_entry \<times> bytes) option"

record audit_log =
  header :: log_header
  entries :: "log_entry list"
  tree :: merkle_tree
  al_signer :: "signer option"

subsection \<open>Creation and access\<close>

definition validate_header :: "log_header \<Rightarrow> unit result" where
  "validate_header h =
     (if wire_version h \<noteq> WIRE_VERSION then Inl (VersionMismatch (wire_version h) WIRE_VERSION)
      else if suite h \<noteq> SUITE_ID then Inl (BadHeader ''unsupported suite'')
      else and_then (PublicKey_from_bytes (pubkey h)) (\<lambda>_. Inr ()))"

definition payload_bytes :: "'a log_crates_scheme \<Rightarrow> log_id \<Rightarrow> u64 \<Rightarrow> hash \<Rightarrow> hash \<Rightarrow> hash \<Rightarrow> bytes result" where
  "payload_bytes C lid i prev eh new =
     ok_or (Panic ''payload serialization is infallible'') (cbor_payload C lid i prev eh new)"

definition create_with_signer :: "signer \<Rightarrow> string \<Rightarrow> timestamp \<Rightarrow> log_id \<Rightarrow> audit_log result" where
  "create_with_signer s lbl now rnd = Inr \<lparr>
     header = \<lparr> wire_version = WIRE_VERSION, suite = SUITE_ID, created_at = now, lh_log_id = rnd,
                pubkey = s_public_key s, label = lbl, prev_log_id = None, prev_log_final_root = None \<rparr>,
     entries = [],
     tree = MerkleTree_new,
     al_signer = Some s \<rparr>"

definition create_with_label :: "'a crates_scheme \<Rightarrow> keypair \<Rightarrow> string \<Rightarrow> timestamp \<Rightarrow> log_id \<Rightarrow> audit_log result" where
  "create_with_label C kp lbl now rnd = create_with_signer (keypair_signer C kp) lbl now rnd"

definition create_log :: "'a crates_scheme \<Rightarrow> keypair \<Rightarrow> timestamp \<Rightarrow> log_id \<Rightarrow> audit_log result" where
  "create_log C kp now rnd = create_with_label C kp [] now rnd"

definition al_len :: "audit_log \<Rightarrow> u64" where
  "al_len l = of_nat (length (entries l))"

definition al_is_empty :: "audit_log \<Rightarrow> bool" where
  "al_is_empty l \<longleftrightarrow> entries l = []"

definition current_root :: "'a crates_scheme \<Rightarrow> audit_log \<Rightarrow> hash" where
  "current_root C l = mt_root C (tree l)"

definition signer_provenance :: "audit_log \<Rightarrow> string" where
  "signer_provenance l = (case al_signer l of Some s \<Rightarrow> s_provenance s | None \<Rightarrow> ''<none>'')"

definition override_pubkey :: "audit_log \<Rightarrow> public_key \<Rightarrow> audit_log" where
  "override_pubkey l pk = l\<lparr> header := (header l)\<lparr> pubkey := pk \<rparr> \<rparr>"

subsection \<open>Appending and verifying\<close>

text \<open>\<open>append\<close> borrows the log mutably: the log after the call is part of the value.\<close>

definition al_append :: "'a log_crates_scheme \<Rightarrow> nat \<Rightarrow> timestamp \<Rightarrow> audit_log \<Rightarrow> audit_event \<Rightarrow> log_entry result \<times> audit_log" where
  "al_append C e now l ev =
     (case al_signer l of
        None \<Rightarrow> (Inl (Internal ''log is read-only; no signer bound''), l)
      | Some s \<Rightarrow>
          (let prev = mt_root C (tree l) in
           case content_hash C ev of
             Inl err \<Rightarrow> (Inl err, l)
           | Inr event_hash \<Rightarrow>
               (let (new, next_tree) = mt_append_root C (tree l) event_hash;
                    index = of_nat (length (entries l))
                in case payload_bytes C (lh_log_id (header l)) index prev event_hash new of
                     Inl err \<Rightarrow> (Inl err, l)
                   | Inr payload \<Rightarrow>
                       (case s_sign s e payload of
                          Inl err \<Rightarrow> (Inl err, l)
                        | Inr sig \<Rightarrow>
                            (let entry = \<lparr> le_index = index, appended_at = now, event = ev,
                                           prev_root = prev, new_root = new, le_signature = sig \<rparr>
                             in (Inr entry, l\<lparr> tree := next_tree, entries := entries l @ [entry] \<rparr>))))))"

fun verify_entries :: "'a log_crates_scheme \<Rightarrow> log_header \<Rightarrow> merkle_tree \<Rightarrow> hash \<Rightarrow> nat \<Rightarrow> log_entry list \<Rightarrow> unit result" where
  "verify_entries C h t expected_prev i [] = Inr ()"
| "verify_entries C h t expected_prev i (e # es) =
     (if le_index e \<noteq> of_nat i then Inl (InvalidEntry (of_nat i) ''declared index but position'')
      else if prev_root e \<noteq> expected_prev
        then Inl (ChainBroken (le_index e) (hex_encode C expected_prev) (hex_encode C (prev_root e)))
      else and_then (content_hash C (event e)) (\<lambda>event_hash.
        let (new, t') = mt_append_root C t event_hash in
        if new \<noteq> new_root e
        then Inl (ChainBroken (le_index e) (hex_encode C new) (hex_encode C (new_root e)))
        else and_then (payload_bytes C (lh_log_id h) (le_index e) (prev_root e) event_hash (new_root e)) (\<lambda>payload.
             and_then (verify_sig C (pubkey h) payload (le_signature e) (le_index e)) (\<lambda>_.
             verify_entries C h t' new (Suc i) es))))"

definition verify_with_pubkey :: "'a log_crates_scheme \<Rightarrow> log_header \<Rightarrow> log_entry list \<Rightarrow> unit result" where
  "verify_with_pubkey C h es =
     and_then (validate_header h) (\<lambda>_. verify_entries C h MerkleTree_new (replicate 32 0) 0 es)"

definition al_verify :: "'a log_crates_scheme \<Rightarrow> audit_log \<Rightarrow> unit result" where
  "al_verify C l = verify_with_pubkey C (header l) (entries l)"

definition bind_signer :: "'a log_crates_scheme \<Rightarrow> audit_log \<Rightarrow> signer \<Rightarrow> unit result \<times> audit_log" where
  "bind_signer C l s =
     (if s_public_key s \<noteq> pubkey (header l)
      then (Inl (BadKey ''signer public key does not match log header pubkey''), l)
      else case al_verify C l of
             Inl err \<Rightarrow> (Inl err, l)
           | Inr _ \<Rightarrow> (Inr (), l\<lparr> al_signer := Some s \<rparr>))"

definition bind_keypair :: "'a log_crates_scheme \<Rightarrow> audit_log \<Rightarrow> keypair \<Rightarrow> unit result \<times> audit_log" where
  "bind_keypair C l kp = bind_signer C l (keypair_signer C kp)"

subsection \<open>The file format\<close>

fun cbor_entries :: "'a log_crates_scheme \<Rightarrow> log_entry list \<Rightarrow> bytes result" where
  "cbor_entries C [] = Inr []"
| "cbor_entries C (e # es) =
     and_then (ok_or (Cbor ''serialization'') (cbor_entry C e)) (\<lambda>b.
     and_then (cbor_entries C es) (\<lambda>bs. Inr (b @ bs)))"

text \<open>The bytes \<open>save_to\<close> writes to a writer that accepts everything.\<close>

definition save_to :: "'a log_crates_scheme \<Rightarrow> audit_log \<Rightarrow> bytes result" where
  "save_to C l =
     and_then (ok_or (Cbor ''serialization'') (cbor_header C (header l))) (\<lambda>hb.
     and_then (cbor_entries C (entries l)) (\<lambda>eb. Inr (MAGIC @ hb @ eb)))"

definition de_log_id :: "bytes \<Rightarrow> log_id result" where
  "de_log_id v = (if length v \<noteq> 16 then Inl (Cbor ''expected 16 bytes'') else Inr v)"

definition de_opt :: "(bytes \<Rightarrow> bytes result) \<Rightarrow> bytes option \<Rightarrow> bytes option result" where
  "de_opt f v = (case v of None \<Rightarrow> Inr None | Some b \<Rightarrow> and_then (f b) (\<lambda>x. Inr (Some x)))"

definition de_bytes_32 :: "bytes \<Rightarrow> hash result" where
  "de_bytes_32 v = (if length v \<noteq> 32 then Inl (Cbor ''prev_log_final_root: expected 32 bytes'') else Inr v)"

definition de_header :: "'a log_crates_scheme \<Rightarrow> bytes \<Rightarrow> (log_header \<times> bytes) result" where
  "de_header C b =
     and_then (ok_or (Cbor ''deserialization'') (cbor_read_header C b)) (\<lambda>(h, rest).
     and_then (de_log_id (lh_log_id h)) (\<lambda>_.
     and_then (de_opt de_log_id (prev_log_id h)) (\<lambda>_.
     and_then (de_opt de_bytes_32 (prev_log_final_root h)) (\<lambda>_. Inr (h, rest)))))"

text \<open>
  The entry loop. A decoder that consumed nothing would make the source loop forever; that
  case is the \<open>Panic\<close> below, excluded by \<open>cbor_log_ok\<close>.
\<close>

function read_entries :: "'a log_crates_scheme \<Rightarrow> bytes \<Rightarrow> log_entry list result" where
  "read_entries C b =
     (if b = [] then Inr []
      else case cbor_read_entry C b of
             None \<Rightarrow> Inl (Cbor ''deserialization'')
           | Some (e, rest) \<Rightarrow>
               if length rest < length b
               then and_then (read_entries C rest) (\<lambda>es. Inr (e # es))
               else Inl (Panic ''decoder does not advance''))"
  by pat_completeness auto
termination
  by (relation "measure (\<lambda>(C, b). length b)") auto

declare read_entries.simps [simp del]

fun build_tree :: "'a event_crates_scheme \<Rightarrow> merkle_tree \<Rightarrow> log_entry list \<Rightarrow> merkle_tree result" where
  "build_tree C t [] = Inr t"
| "build_tree C t (e # es) = and_then (content_hash C (event e)) (\<lambda>h. build_tree C (mt_append C t h) es)"

definition read_from :: "'a log_crates_scheme \<Rightarrow> bytes \<Rightarrow> audit_log result" where
  "read_from C input =
     (if length input < length MAGIC then Inl (Io ''UnexpectedEof'')
      else if take (length MAGIC) input \<noteq> MAGIC then Inl (BadHeader ''bad magic'')
      else
        and_then (de_header C (drop (length MAGIC) input)) (\<lambda>(h, rest).
        and_then (validate_header h) (\<lambda>_.
        and_then (read_entries C rest) (\<lambda>es.
        and_then (build_tree C MerkleTree_new es) (\<lambda>t.
        Inr \<lparr> header = h, entries = es, tree = t, al_signer = None \<rparr>)))))"

subsection \<open>Saving to a file\<close>

text \<open>
  A file system maps paths to nodes; a path that is absent reports \<open>NotFound\<close>. Each system
  call of \<open>save\<close> may fail: the record \<open>save_io\<close> says which do. The temporary file is not
  visible under any path of the model until \<open>persist\<close> renames it over the destination, and it
  disappears when an error drops it.
\<close>

record file_node =
  is_file :: bool
  contents :: bytes
  permissions :: nat

type_synonym filesystem = "string \<Rightarrow> file_node option"

record save_io =
  stat_ok :: bool
  tmp_ok :: bool
  write_ok :: bool
  chmod_ok :: bool
  sync_ok :: bool
  persist_ok :: bool
  dirsync_ok :: bool

definition private_mode :: nat where "private_mode = 384"

definition save :: "'a log_crates_scheme \<Rightarrow> save_io \<Rightarrow> filesystem \<Rightarrow> string \<Rightarrow> audit_log \<Rightarrow> unit result \<times> filesystem" where
  "save C io fs path l =
     (case (if \<not> stat_ok io then Inl (Io ''stat'')
            else case fs path of
                   Some n \<Rightarrow> if is_file n then Inr (Some (permissions n))
                             else Inl (Io ''audit log destination must be a regular file'')
                 | None \<Rightarrow> Inr None) of
        Inl err \<Rightarrow> (Inl err, fs)
      | Inr perms \<Rightarrow>
          (case and_then (ensure (tmp_ok io) (Io ''tempfile'')) (\<lambda>_.
                and_then (save_to C l) (\<lambda>bytes.
                and_then (ensure (write_ok io) (Io ''write'')) (\<lambda>_.
                and_then (ensure (perms = None \<or> chmod_ok io) (Io ''set_permissions'')) (\<lambda>_.
                and_then (ensure (sync_ok io) (Io ''sync_all'')) (\<lambda>_.
                and_then (ensure (persist_ok io) (Io ''persist'')) (\<lambda>_. Inr bytes)))))) of
             Inl err \<Rightarrow> (Inl err, fs)
           | Inr bytes \<Rightarrow>
               (ensure (dirsync_ok io) (Io ''sync parent''),
                fs(path \<mapsto> \<lparr> is_file = True, contents = bytes,
                              permissions = (case perms of Some p \<Rightarrow> p | None \<Rightarrow> private_mode) \<rparr>))))"

definition open_log :: "'a log_crates_scheme \<Rightarrow> filesystem \<Rightarrow> string \<Rightarrow> audit_log result" where
  "open_log C fs path =
     (case fs path of
        None \<Rightarrow> Inl (Io ''NotFound'')
      | Some n \<Rightarrow> if is_file n then read_from C (contents n) else Inl (Io ''not a regular file''))"

subsection \<open>What verification means\<close>

text \<open>
  The specification of a verified log, over the list \<open>hs\<close> of the content hashes of its events:
  every entry carries its position, the tree hash of the events before it and the tree hash
  of the events up to it, and a signature over exactly these values and the log id.
\<close>

definition event_hashes :: "'a event_crates_scheme \<Rightarrow> log_entry list \<Rightarrow> hash list result" where
  "event_hashes C es = try_map (\<lambda>e. content_hash C (event e)) es"

definition entry_spec :: "'a log_crates_scheme \<Rightarrow> log_header \<Rightarrow> hash list \<Rightarrow> nat \<Rightarrow> log_entry \<Rightarrow> bool" where
  "entry_spec C h hs i e \<longleftrightarrow>
     le_index e = of_nat i \<and>
     prev_root e = mth C (take i hs) \<and>
     new_root e = mth C (take (Suc i) hs) \<and>
     (\<exists>p. payload_bytes C (lh_log_id h) (of_nat i) (mth C (take i hs)) (hs ! i) (mth C (take (Suc i) hs)) = Inr p \<and>
          verify_sig C (pubkey h) p (le_signature e) (of_nat i) = Inr ())"

definition entries_spec :: "'a log_crates_scheme \<Rightarrow> log_header \<Rightarrow> log_entry list \<Rightarrow> bool" where
  "entries_spec C h es \<longleftrightarrow>
     (\<exists>hs. event_hashes C es = Inr hs \<and> (\<forall>i < length es. entry_spec C h hs i (es ! i)))"

definition header_ok :: "log_header \<Rightarrow> bool" where
  "header_ok h \<longleftrightarrow> wire_version h = WIRE_VERSION \<and> suite h = SUITE_ID \<and> length (pubkey h) = PUBLIC_KEY_LEN"

definition hashes_of :: "'a log_crates_scheme \<Rightarrow> audit_log \<Rightarrow> hash list" where
  "hashes_of C l = (case event_hashes C (entries l) of Inl e \<Rightarrow> [] | Inr hs \<Rightarrow> hs)"

lemma validate_header_iff [res_simps]: "validate_header h = Inr u \<longleftrightarrow> header_ok h"
  by (auto simp: validate_header_def header_ok_def res_simps)

lemma event_hashes_Nil [simp]: "event_hashes C [] = Inr []"
  by (simp add: event_hashes_def)

lemma event_hashes_Cons:
  "event_hashes C (e # es) = Inr hs \<longleftrightarrow>
     (\<exists>x xs. hs = x # xs \<and> content_hash C (event e) = Inr x \<and> event_hashes C es = Inr xs)"
  by (auto simp: event_hashes_def res_simps)

lemma event_hashes_length: "event_hashes C es = Inr hs \<Longrightarrow> length hs = length es"
  unfolding event_hashes_def by (rule try_map_Inr_length)

lemma event_hashes_snoc:
  "event_hashes C es = Inr hs \<Longrightarrow> content_hash C (event e) = Inr x \<Longrightarrow> event_hashes C (es @ [e]) = Inr (hs @ [x])"
  by (induction es arbitrary: hs) (auto simp: event_hashes_Cons)

lemma event_hashes_take: "event_hashes C es = Inr hs \<Longrightarrow> event_hashes C (take n es) = Inr (take n hs)"
proof (induction es arbitrary: hs n)
  case (Cons e es)
  then show ?case by (cases n) (auto simp: event_hashes_Cons)
qed simp

lemma event_hashes_wf: "blake3_ok C \<Longrightarrow> event_hashes C es = Inr hs \<Longrightarrow> \<forall>x \<in> set hs. length x = 32"
  by (induction es arbitrary: hs) (auto simp: event_hashes_Cons content_hash_length)

lemma build_tree_iff:
  "build_tree C (mt_build C gs) es = Inr t \<longleftrightarrow> (\<exists>hs. event_hashes C es = Inr hs \<and> t = mt_build C (gs @ hs))"
proof (induction es arbitrary: gs)
  case (Cons e es)
  have "build_tree C (mt_append C (mt_build C gs) x) es = Inr t \<longleftrightarrow>
        (\<exists>hs. event_hashes C es = Inr hs \<and> t = mt_build C (gs @ x # hs))" for x
    using Cons [of "gs @ [x]"] by simp
  then show ?case by (auto simp: res_simps event_hashes_Cons)
qed auto

lemma verify_entries_step:
  assumes "t = mt_build C gs" "prev = mth C gs" "i = length gs" "Suc (length gs) < 2 ^ 64"
  shows "verify_entries C h t prev i (e # es) = Inr () \<longleftrightarrow>
     (\<exists>x. content_hash C (event e) = Inr x \<and> entry_spec C h (gs @ [x]) i e \<and>
          verify_entries C h (mt_build C (gs @ [x])) (mth C (gs @ [x])) (Suc i) es = Inr ())"
proof -
  have r: "mt_root C (mt_append C (mt_build C gs) x) = mth C (gs @ [x])" for x
    using mt_build_root [of "gs @ [x]" C] assms by simp
  show ?thesis
    using assms(1-3)
    by (auto simp: entry_spec_def mt_append_root_def Let_def r res_simps split: if_splits)
qed

lemma entry_spec_append: "i < length hs \<Longrightarrow> entry_spec C h (hs @ ys) i e \<longleftrightarrow> entry_spec C h hs i e"
  by (simp add: entry_spec_def nth_append)

lemma verify_entries_iff:
  assumes "length gs + length es < 2 ^ 64"
  shows "verify_entries C h (mt_build C gs) (mth C gs) (length gs) es = Inr () \<longleftrightarrow>
     (\<exists>hs. event_hashes C es = Inr hs \<and>
           (\<forall>j < length es. entry_spec C h (gs @ hs) (length gs + j) (es ! j)))"
  using assms
proof (induction es arbitrary: gs)
  case Nil
  then show ?case by simp
next
  case (Cons e es)
  have lt: "Suc (length gs) < 2 ^ 64" using Cons.prems by simp
  have IH: "verify_entries C h (mt_build C (gs @ [x])) (mth C (gs @ [x])) (Suc (length gs)) es = Inr () \<longleftrightarrow>
        (\<exists>hs. event_hashes C es = Inr hs \<and>
              (\<forall>j < length es. entry_spec C h (gs @ x # hs) (Suc (length gs) + j) (es ! j)))" for x
    using Cons.IH [of "gs @ [x]"] Cons.prems by simp
  have all: "(\<forall>j < length (e # es). entry_spec C h (gs @ hs) (length gs + j) ((e # es) ! j)) \<longleftrightarrow>
        entry_spec C h (gs @ hs) (length gs) e \<and>
        (\<forall>j < length es. entry_spec C h (gs @ hs) (Suc (length gs) + j) (es ! j))" for hs
    by (auto simp: less_Suc_eq_0_disj)
  have sp: "entry_spec C h (gs @ x # hs) (length gs) e \<longleftrightarrow> entry_spec C h (gs @ [x]) (length gs) e" for x hs
    using entry_spec_append [of "length gs" "gs @ [x]" C h hs e] by simp
  show ?case
    unfolding verify_entries_step [OF refl refl refl lt] IH all event_hashes_Cons
    using sp by blast
qed

lemma verify_iff:
  assumes "length es < 2 ^ 64"
  shows "verify_with_pubkey C h es = Inr () \<longleftrightarrow> header_ok h \<and> entries_spec C h es"
  using verify_entries_iff [of "[]" es C h] assms
  by (auto simp: verify_with_pubkey_def res_simps entries_spec_def)

subsection \<open>The log invariant\<close>

text \<open>
  The in-memory tree is the tree of the entries' events. \<open>log_ok\<close> adds that the log verifies
  and that a bound signer is the one of the header.
\<close>

definition log_inv :: "'a log_crates_scheme \<Rightarrow> audit_log \<Rightarrow> bool" where
  "log_inv C l \<longleftrightarrow> (case event_hashes C (entries l) of Inl e \<Rightarrow> False | Inr hs \<Rightarrow> tree l = mt_build C hs)"

definition signer_ok :: "'a crates_scheme \<Rightarrow> signer \<Rightarrow> bool" where
  "signer_ok C s \<longleftrightarrow> signer_good C s \<and> length (s_public_key s) = PUBLIC_KEY_LEN"

definition signer_bound :: "audit_log \<Rightarrow> bool" where
  "signer_bound l \<longleftrightarrow> (case al_signer l of None \<Rightarrow> True | Some s \<Rightarrow> s_public_key s = pubkey (header l))"

definition log_ok :: "'a log_crates_scheme \<Rightarrow> audit_log \<Rightarrow> bool" where
  "log_ok C l \<longleftrightarrow> log_inv C l \<and> al_verify C l = Inr () \<and> signer_bound l"

lemma log_inv_iff: "log_inv C l \<longleftrightarrow> (\<exists>hs. event_hashes C (entries l) = Inr hs \<and> tree l = mt_build C hs)"
  by (simp add: log_inv_def split: sum.splits)

lemma create_log_ok:
  "signer_ok C s \<Longrightarrow> create_with_signer s lbl now rnd = Inr l \<Longrightarrow> log_ok C l"
  by (auto simp: create_with_signer_def log_ok_def log_inv_iff signer_ok_def signer_bound_def
        al_verify_def verify_with_pubkey_def res_simps header_ok_def)

lemma al_append_Inr:
  "al_append C e now l ev = (Inr entry, l') \<longleftrightarrow>
     (\<exists>s x p sig. al_signer l = Some s \<and> content_hash C ev = Inr x \<and>
        payload_bytes C (lh_log_id (header l)) (of_nat (length (entries l))) (mt_root C (tree l)) x
          (mt_root C (mt_append C (tree l) x)) = Inr p \<and>
        s_sign s e p = Inr sig \<and>
        entry = \<lparr> le_index = of_nat (length (entries l)), appended_at = now, event = ev,
                  prev_root = mt_root C (tree l), new_root = mt_root C (mt_append C (tree l) x),
                  le_signature = sig \<rparr> \<and>
        l' = l\<lparr> tree := mt_append C (tree l) x, entries := entries l @ [entry] \<rparr>)"
  by (auto simp: al_append_def Let_def mt_append_root_def split: option.splits sum.splits)

lemma al_append_Inl: "al_append C e now l ev = (Inl err, l') \<Longrightarrow> l' = l"
  by (auto simp: al_append_def Let_def mt_append_root_def split: option.splits sum.splits)

lemma append_total_signer:
  assumes "al_signer l = Some s" and "cbor_event_total C"
    and "\<And>lid i p eh n. cbor_payload C lid i p eh n \<noteq> None"
    and "\<And>m. is_ok (s_sign s e m)"
  shows "\<exists>x l'. al_append C e now l ev = (Inr x, l')"
proof -
  obtain h where h: "content_hash C ev = Inr h" using content_hash_total [OF assms(2)] by blast
  obtain p where p: "payload_bytes C (lh_log_id (header l)) (of_nat (length (entries l))) (mt_root C (tree l)) h
          (mt_root C (mt_append C (tree l) h)) = Inr p"
    using assms(3) [of "lh_log_id (header l)" "of_nat (length (entries l))" "mt_root C (tree l)" h
        "mt_root C (mt_append C (tree l) h)"] by (auto simp: payload_bytes_def)
  obtain sig where "s_sign s e p = Inr sig" using assms(4) [of p] by (auto simp: res_simps)
  then show ?thesis unfolding al_append_Inr using assms(1) h p by blast
qed

lemma entries_spec_snoc:
  assumes "event_hashes C es = Inr hs" "\<forall>i < length es. entry_spec C h hs i (es ! i)"
    and "content_hash C (event e) = Inr x" "entry_spec C h (hs @ [x]) (length es) e"
  shows "entries_spec C h (es @ [e])"
proof -
  have len: "length hs = length es" using assms(1) by (rule event_hashes_length)
  have "entry_spec C h (hs @ [x]) i ((es @ [e]) ! i)" if "i < length (es @ [e])" for i
    using that assms(2,4) len entry_spec_append [of i hs C h "[x]"] by (auto simp: nth_append less_Suc_eq)
  then show ?thesis
    using event_hashes_snoc [OF assms(1,3)] unfolding entries_spec_def by blast
qed

lemma al_append_ok:
  assumes ok: "log_ok C l" and sg: "\<And>s. al_signer l = Some s \<Longrightarrow> signer_good C s"
    and ap: "al_append C e now l ev = (Inr entry, l')" and len: "Suc (length (entries l)) < 2 ^ 64"
  shows "log_ok C l'"
proof -
  obtain s x p sig where s: "al_signer l = Some s" and x: "content_hash C ev = Inr x"
    and p: "payload_bytes C (lh_log_id (header l)) (of_nat (length (entries l))) (mt_root C (tree l)) x
          (mt_root C (mt_append C (tree l) x)) = Inr p"
    and sig: "s_sign s e p = Inr sig"
    and entry: "entry = \<lparr> le_index = of_nat (length (entries l)), appended_at = now, event = ev,
                  prev_root = mt_root C (tree l), new_root = mt_root C (mt_append C (tree l) x),
                  le_signature = sig \<rparr>"
    and l': "l' = l\<lparr> tree := mt_append C (tree l) x, entries := entries l @ [entry] \<rparr>"
    using ap unfolding al_append_Inr by blast
  obtain hs where hs: "event_hashes C (entries l) = Inr hs" "tree l = mt_build C hs"
    using ok by (auto simp: log_ok_def log_inv_iff)
  have n: "length hs = length (entries l)" using hs(1) by (rule event_hashes_length)
  have hd: "header_ok (header l)" and spec: "\<forall>i < length (entries l). entry_spec C (header l) hs i (entries l ! i)"
    using ok hs(1) verify_iff [of "entries l" C "header l"] len by (auto simp: log_ok_def al_verify_def entries_spec_def)
  have roots: "mt_root C (tree l) = mth C hs" "mt_root C (mt_append C (tree l) x) = mth C (hs @ [x])"
    using mt_build_root [of hs C] mt_build_root [of "hs @ [x]" C] hs(2) n len by simp_all
  have pk: "s_public_key s = pubkey (header l)" using ok s by (simp add: log_ok_def signer_bound_def)
  have "verify_sig C (pubkey (header l)) p sig (of_nat (length (entries l))) = Inr ()"
    using sg [OF s] sig pk by (auto simp: signer_good_def)
  then have e: "entry_spec C (header l) (hs @ [x]) (length (entries l)) entry"
    using p roots n entry by (simp add: entry_spec_def nth_append)
  have "entries_spec C (header l) (entries l @ [entry])"
    using entries_spec_snoc [OF hs(1) spec _ e] x entry by simp
  then have "al_verify C l' = Inr ()"
    using verify_iff [of "entries l @ [entry]" C "header l"] len l' hd by (simp add: al_verify_def)
  moreover have "log_inv C l'"
    using event_hashes_snoc [OF hs(1), of entry x] x entry l' hs(2) by (simp add: log_inv_iff)
  ultimately show ?thesis using ok s l' by (simp add: log_ok_def signer_bound_def)
qed

lemma verify_take: "length es < 2 ^ 64 \<Longrightarrow> verify_with_pubkey C h es = Inr () \<Longrightarrow> verify_with_pubkey C h (take n es) = Inr ()"
proof -
  assume len: "length es < 2 ^ 64" and v: "verify_with_pubkey C h es = Inr ()"
  then obtain hs where h: "header_ok h" and hs: "event_hashes C es = Inr hs"
    and sp: "\<forall>i < length es. entry_spec C h hs i (es ! i)"
    by (auto simp: verify_iff entries_spec_def)
  have "entry_spec C h (take n hs) i (take n es ! i)" if "i < length (take n es)" for i
    using that sp event_hashes_length [OF hs] entry_spec_append [of i "take n hs" C h "drop n hs"] by auto
  then have "entries_spec C h (take n es)"
    using event_hashes_take [OF hs] unfolding entries_spec_def by blast
  then show ?thesis using verify_iff [of "take n es" C h] len h by simp
qed

subsection \<open>The final root\<close>

lemma verified_last_root:
  assumes "al_verify C l = Inr ()" "entries l \<noteq> []" "length (entries l) < 2 ^ 64"
  shows "event_hashes C (entries l) = Inr (hashes_of C l)" "hashes_of C l \<noteq> []"
    "new_root (last (entries l)) = mth C (hashes_of C l)"
proof -
  obtain hs where hs: "event_hashes C (entries l) = Inr hs"
    and sp: "\<forall>i < length (entries l). entry_spec C (header l) hs i (entries l ! i)"
    using assms(1) verify_iff [OF assms(3), of C "header l"] by (auto simp: al_verify_def entries_spec_def)
  have len: "length hs = length (entries l)" using hs by (rule event_hashes_length)
  have e: "hashes_of C l = hs" using hs by (simp add: hashes_of_def)
  show "event_hashes C (entries l) = Inr (hashes_of C l)" "hashes_of C l \<noteq> []"
    using hs e len assms(2) by auto
  have "entry_spec C (header l) hs (length (entries l) - 1) (last (entries l))"
    using sp assms(2) by (simp add: last_conv_nth)
  then show "new_root (last (entries l)) = mth C (hashes_of C l)"
    using e len assms(2) by (simp add: entry_spec_def Suc_diff_1)
qed

lemma event_hashes_inj:
  "event_hashes C es = Inr hs \<Longrightarrow> event_hashes C fs = Inr hs \<Longrightarrow>
   inj_on (content_hash C) (event ` set es \<union> event ` set fs) \<Longrightarrow> map event es = map event fs"
proof (induction es arbitrary: fs hs)
  case Nil
  then show ?case using event_hashes_length by force
next
  case (Cons e es)
  then obtain x xs where hs: "hs = x # xs" "content_hash C (event e) = Inr x" "event_hashes C es = Inr xs"
    by (auto simp: event_hashes_Cons)
  then obtain f fs' where fs: "fs = f # fs'" "content_hash C (event f) = Inr x" "event_hashes C fs' = Inr xs"
    using Cons.prems(2) by (cases fs) (auto simp: event_hashes_Cons)
  have "event e = event f"
    using inj_onD [OF Cons.prems(3), of "event e" "event f"] hs(2) fs(1,2) by simp
  moreover have "map event es = map event fs'"
    using Cons.IH [OF hs(3) fs(3)] Cons.prems(3) fs(1) by (auto intro: inj_on_subset)
  ultimately show ?case using fs(1) by simp
qed

subsection \<open>Round trips\<close>

text \<open>
  What is relied on of the CBOR codec, for values the source's types admit: the decoder reads
  an encoding back and stops at its end, and the encoding of an entry is not empty.
\<close>

definition header_wf :: "log_header \<Rightarrow> bool" where
  "header_wf h \<longleftrightarrow> length (lh_log_id h) = 16 \<and>
     (case prev_log_id h of None \<Rightarrow> True | Some i \<Rightarrow> length i = 16) \<and>
     (case prev_log_final_root h of None \<Rightarrow> True | Some r \<Rightarrow> length r = 32)"

definition entry_wf :: "log_entry \<Rightarrow> bool" where
  "entry_wf e \<longleftrightarrow> length (prev_root e) = 32 \<and> length (new_root e) = 32 \<and> event_wf (event e)"

definition log_wf :: "audit_log \<Rightarrow> bool" where
  "log_wf l \<longleftrightarrow> header_wf (header l) \<and> list_all entry_wf (entries l)"

definition cbor_log_ok :: "'a log_crates_scheme \<Rightarrow> bool" where
  "cbor_log_ok C \<longleftrightarrow>
     (\<forall>h b r. header_wf h \<and> cbor_header C h = Some b \<longrightarrow> cbor_read_header C (b @ r) = Some (h, r)) \<and>
     (\<forall>e b r. entry_wf e \<and> cbor_entry C e = Some b \<longrightarrow> b \<noteq> [] \<and> cbor_read_entry C (b @ r) = Some (e, r))"

interpretation entry_codec: stream_codec
  "\<lambda>e. cbor_log_ok C \<and> entry_wf e \<and> cbor_entry C e \<noteq> None" "\<lambda>e. the (cbor_entry C e)" "cbor_read_entry C"
  for C
  by unfold_locales (auto simp: cbor_log_ok_def)

lemma cbor_entries_concat:
  "cbor_entries C es = Inr b \<Longrightarrow>
   b = concat (map (\<lambda>e. the (cbor_entry C e)) es) \<and> (\<forall>e \<in> set es. cbor_entry C e \<noteq> None)"
  by (induction es arbitrary: b) (auto simp: res_simps)

lemma read_entries_cbor:
  assumes ok: "cbor_log_ok C"
  shows "cbor_entries C es = Inr b \<Longrightarrow> list_all entry_wf es \<Longrightarrow> read_entries C b = Inr es"
proof (induction es arbitrary: b)
  case Nil
  then show ?case by (simp add: read_entries.simps)
next
  case (Cons e es)
  then obtain x y where x: "cbor_entry C e = Some x" and y: "cbor_entries C es = Inr y" and b: "b = x @ y"
    by (auto simp: res_simps)
  have wf: "entry_wf e" using Cons.prems by simp
  have "x \<noteq> []" using ok wf x by (auto simp: cbor_log_ok_def)
  moreover have "cbor_read_entry C (x @ y) = Some (e, y)"
    using entry_codec.dec_enc [of C e y] ok wf x by simp
  moreover have "read_entries C y = Inr es" using Cons y by simp
  ultimately show ?case using b by (simp add: read_entries.simps [of C "x @ y"])
qed

lemma cbor_read_header:
  "cbor_log_ok C \<Longrightarrow> header_wf h \<Longrightarrow> cbor_header C h = Some b \<Longrightarrow> cbor_read_header C (b @ r) = Some (h, r)"
  by (simp add: cbor_log_ok_def)

lemma de_header_cbor:
  "cbor_log_ok C \<Longrightarrow> header_wf h \<Longrightarrow> cbor_header C h = Some b \<Longrightarrow> de_header C (b @ r) = Inr (h, r)"
  using cbor_read_header [of C h b r]
  by (auto simp: de_header_def header_wf_def de_log_id_def de_opt_def de_bytes_32_def split: option.splits)

lemma read_from_save_to:
  assumes "cbor_log_ok C" "log_wf l" "log_inv C l" "header_ok (header l)" "save_to C l = Inr b"
  shows "read_from C b = Inr (l\<lparr> al_signer := None \<rparr>)"
proof -
  obtain hb eb where hb: "cbor_header C (header l) = Some hb" and eb: "cbor_entries C (entries l) = Inr eb"
    and b: "b = MAGIC @ hb @ eb"
    using assms(5) by (auto simp: save_to_def res_simps)
  have "read_entries C eb = Inr (entries l)"
    using read_entries_cbor [OF assms(1) eb] assms(2) by (simp add: log_wf_def)
  moreover have "build_tree C MerkleTree_new (entries l) = Inr (tree l)"
    using build_tree_iff [of C "[]" "entries l" "tree l"] assms(3) by (auto simp: log_inv_iff)
  moreover have "de_header C (hb @ eb) = Inr (header l, eb)"
    using de_header_cbor [OF assms(1) _ hb] assms(2) by (simp add: log_wf_def)
  moreover have "validate_header (header l) = Inr ()" using assms(4) by (simp add: res_simps)
  ultimately show ?thesis by (simp add: read_from_def b)
qed

lemma read_from_inv: "read_from C b = Inr l \<Longrightarrow> log_inv C l \<and> header_ok (header l) \<and> al_signer l = None"
  using build_tree_iff [of C "[]"]
  by (auto simp: read_from_def log_inv_iff res_simps split: if_splits prod.splits)

lemma save_frame: "save C io fs path l = (r, fs') \<Longrightarrow> q \<noteq> path \<Longrightarrow> fs' q = fs q"
  by (auto simp: save_def split: sum.splits option.splits if_splits)

lemma save_result:
  "save C io fs path l = (r, fs') \<Longrightarrow>
   fs' = fs \<and> r \<noteq> Inr () \<or> (\<exists>b n. save_to C l = Inr b \<and> fs' path = Some n \<and> is_file n \<and> contents n = b)"
  by (auto simp: save_def res_simps split: sum.splits option.splits if_splits)

end
