(* ===== verification/Hsm.thy ===== *)
theory Hsm
  imports Signing
begin

text \<open>
  The PKCS#11 signing back end (\<open>qaudit-hsm/src/pkcs11.rs\<close>): opening a session, looking up
  the two key objects, and signing with a local check of what the token returned. The
  \<open>cryptoki\<close> library and the vendor's driver are the fields of \<open>driver\<close>; nothing is assumed of
  them.
\<close>

datatype attribute = Value bytes | OtherAttr

record driver =
  d_load :: "string \<Rightarrow> bool"
  d_initialize :: bool
  d_slots :: "nat list option"
  d_open_session :: "nat \<Rightarrow> bool"
  d_login :: "string \<Rightarrow> bool"
  d_find_objects :: "bool \<Rightarrow> string \<Rightarrow> nat list option"
  d_get_value :: "nat \<Rightarrow> attribute list option"
  d_vendor_mech_ok :: "u64 \<Rightarrow> bool"
  d_lock_ok :: "nat \<Rightarrow> bool"
  d_sign :: "nat \<Rightarrow> u64 \<Rightarrow> nat \<Rightarrow> bytes \<Rightarrow> bytes option"
  d_ckm_vendor_defined :: u64

record pkcs11_config =
  module_path :: string
  module_file_name :: "string option"
  slot_index :: usize
  user_pin :: "string option"
  key_label :: string
  pubkey_label :: string
  mechanism_id :: u64
  provenance :: "string option"

text \<open>\<open>module_file_name\<close> is \<open>Path::file_name\<close> of the module path.\<close>

definition Pkcs11Config_new :: "driver \<Rightarrow> string \<Rightarrow> string option \<Rightarrow> usize \<Rightarrow> string \<Rightarrow> pkcs11_config" where
  "Pkcs11Config_new D path fname slot label = \<lparr>
     module_path = path, module_file_name = fname, slot_index = slot, user_pin = None,
     key_label = label, pubkey_label = label,
     mechanism_id = d_ckm_vendor_defined D + 1, provenance = None \<rparr>"

definition with_pin :: "pkcs11_config \<Rightarrow> string \<Rightarrow> pkcs11_config" where
  "with_pin cfg pin = cfg\<lparr> user_pin := Some pin \<rparr>"

definition with_mechanism_id :: "pkcs11_config \<Rightarrow> u64 \<Rightarrow> pkcs11_config" where
  "with_mechanism_id cfg m = cfg\<lparr> mechanism_id := m \<rparr>"

definition with_pubkey_label :: "pkcs11_config \<Rightarrow> string \<Rightarrow> pkcs11_config" where
  "with_pubkey_label cfg l = cfg\<lparr> pubkey_label := l \<rparr>"

record pkcs11_signer =
  privkey_handle :: nat
  p_mechanism_id :: u64
  p_public_key :: public_key
  p_provenance :: string

datatype telemetry = on_session_open | on_session_open_failed | on_sign_ok | on_sign_failed

definition find_key_by_label :: "driver \<Rightarrow> string \<Rightarrow> bool \<Rightarrow> nat result" where
  "find_key_by_label D label private =
     (case d_find_objects D private label of
        None \<Rightarrow> Inl (Internal ''PKCS#11 FindObjects'')
      | Some [h] \<Rightarrow> Inr h
      | Some _ \<Rightarrow> Inl (Internal ''PKCS#11: expected exactly one key object with label''))"

fun first_value :: "attribute list \<Rightarrow> bytes option" where
  "first_value [] = None"
| "first_value (Value b # as) = Some b"
| "first_value (OtherAttr # as) = first_value as"

definition read_public_key :: "driver \<Rightarrow> nat \<Rightarrow> public_key result" where
  "read_public_key D h =
     (case d_get_value D h of
        None \<Rightarrow> Inl (Internal ''PKCS#11 GetAttributeValue'')
      | Some as \<Rightarrow>
          (case first_value as of
             Some b \<Rightarrow> PublicKey_from_bytes b
           | None \<Rightarrow> Inl (Internal ''PKCS#11: public key object has no CKA_VALUE attribute'')))"

definition open_inner :: "driver \<Rightarrow> pkcs11_config \<Rightarrow> pkcs11_signer result" where
  "open_inner D cfg =
     and_then (ensure (d_load D (module_path cfg)) (Internal ''PKCS#11 load'')) (\<lambda>_.
     and_then (ensure (d_initialize D) (Internal ''PKCS#11 C_Initialize'')) (\<lambda>_.
     and_then (ok_or (Internal ''PKCS#11 GetSlotList'') (d_slots D)) (\<lambda>slots.
     and_then (if slot_index cfg < length slots then Inr (slots ! slot_index cfg)
               else Inl (Internal ''PKCS#11 slot index out of range'')) (\<lambda>slot.
     and_then (ensure (d_open_session D slot) (Internal ''PKCS#11 OpenSession'')) (\<lambda>_.
     and_then (case user_pin cfg of
                 None \<Rightarrow> Inr ()
               | Some pin \<Rightarrow> ensure (d_login D pin) (Internal ''PKCS#11 Login'')) (\<lambda>_.
     and_then (find_key_by_label D (key_label cfg) True) (\<lambda>priv.
     and_then (find_key_by_label D (pubkey_label cfg) False) (\<lambda>pub.
     and_then (read_public_key D pub) (\<lambda>pk.
     Inr \<lparr> privkey_handle = priv, p_mechanism_id = mechanism_id cfg, p_public_key = pk,
           p_provenance = (case provenance cfg of
              Some p \<Rightarrow> p
            | None \<Rightarrow> ''pkcs11:'' @ (case module_file_name cfg of Some f \<Rightarrow> f | None \<Rightarrow> ''module'') @
                      '':slot'' @ dec_nat (slot_index cfg) @ '':'' @ key_label cfg) \<rparr>)))))))))"

definition open_with_telemetry :: "driver \<Rightarrow> pkcs11_config \<Rightarrow> pkcs11_signer result \<times> telemetry" where
  "open_with_telemetry D cfg =
     (case open_inner D cfg of
        Inr s \<Rightarrow> (Inr s, on_session_open)
      | Inl e \<Rightarrow> (Inl e, on_session_open_failed))"

definition sign_inner :: "'a crates_scheme \<Rightarrow> driver \<Rightarrow> pkcs11_signer \<Rightarrow> nat \<Rightarrow> bytes \<Rightarrow> signature result" where
  "sign_inner C D s e msg =
     and_then (ensure (d_vendor_mech_ok D (p_mechanism_id s)) (Internal ''PKCS#11 mechanism type'')) (\<lambda>_.
     and_then (ensure (d_lock_ok D e) (Internal ''PKCS#11 session mutex poisoned'')) (\<lambda>_.
     and_then (ok_or (Internal ''PKCS#11 C_Sign'')
                 (d_sign D e (p_mechanism_id s) (privkey_handle s) msg)) (\<lambda>b.
     and_then (Signature_from_bytes b) (\<lambda>sig.
     and_then (verify_sig C (p_public_key s) msg sig 0) (\<lambda>_. Inr sig)))))"

definition Pkcs11_sign :: "'a crates_scheme \<Rightarrow> driver \<Rightarrow> pkcs11_signer \<Rightarrow> nat \<Rightarrow> bytes \<Rightarrow> signature result \<times> telemetry" where
  "Pkcs11_sign C D s e msg =
     (case sign_inner C D s e msg of
        Inr sig \<Rightarrow> (Inr sig, on_sign_ok)
      | Inl err \<Rightarrow> (Inl err, on_sign_failed))"

definition pkcs11_signer_obj :: "driver \<Rightarrow> 'a crates_scheme \<Rightarrow> pkcs11_signer \<Rightarrow> signer" where
  "pkcs11_signer_obj D C s = \<lparr>
     s_sign = (\<lambda>e m. fst (Pkcs11_sign C D s e m)),
     s_public_key = p_public_key s,
     s_provenance = p_provenance s \<rparr>"

definition open_new :: "driver \<Rightarrow> 'a crates_scheme \<Rightarrow> pkcs11_config \<Rightarrow> signer result \<times> telemetry" where
  "open_new D C cfg =
     (let (r, t) = open_with_telemetry D cfg in (and_then r (\<lambda>s. Inr (pkcs11_signer_obj D C s)), t))"

lemma fst_Pkcs11_sign [simp]: "fst (Pkcs11_sign C D s e m) = sign_inner C D s e m"
  by (simp add: Pkcs11_sign_def split: sum.splits)

interpretation pkcs11_backend: signer_backend "\<lambda>C s. True" "pkcs11_signer_obj D" for D
  by unfold_locales (auto simp: pkcs11_signer_obj_def sign_inner_def res_simps)

lemma open_new_good: "fst (open_new D C cfg) = Inr s \<Longrightarrow> signer_good C s"
  by (auto simp: open_new_def res_simps split: prod.splits intro: pkcs11_backend.obj_good)

lemma read_public_key_length: "read_public_key D h = Inr pk \<Longrightarrow> length pk = PUBLIC_KEY_LEN"
  by (auto simp: read_public_key_def res_simps split: option.splits)

lemma open_inner_key_length:
  "open_inner D cfg = Inr s \<Longrightarrow> length (p_public_key s) = PUBLIC_KEY_LEN"
  by (auto simp: open_inner_def res_simps dest: read_public_key_length)

end
