(* ===== verification/Instances.thy ===== *)
theory Instances
  imports Auditlog Hsm
begin

text \<open>
  Concrete parameters and a concrete log for the witnesses: the CBOR encodings concatenate
  the encoded fields, and the file encoding is a table of one header and one entry.
\<close>

definition toy_cbor_event :: "audit_event \<Rightarrow> bytes" where
  "toy_cbor_event ev = ascii (actor ev @ action ev @ resource ev @ outcome ev)"

definition demo_keypair :: keypair where
  "demo_keypair = \<lparr> kp_pk = replicate PK_LEN 5, kp_sk = replicate SK_LEN 5 \<rparr>"

definition demo_header :: log_header where
  "demo_header = \<lparr> wire_version = 1, suite = ''cspq-2026'', created_at = 0, lh_log_id = replicate 16 1,
     pubkey = replicate PK_LEN 5, label = ''demo'', prev_log_id = None, prev_log_final_root = None \<rparr>"

definition demo_event :: audit_event where
  "demo_event = build 7 (set_actor ''svc'' (set_action ''login'' builder))"

definition demo_hash :: bytes where
  "demo_hash = toy_hash (toy_cbor_event demo_event)"

definition demo_root :: bytes where
  "demo_root = toy_hash (0 # demo_hash)"

definition toy_payload :: "log_id \<Rightarrow> u64 \<Rightarrow> hash \<Rightarrow> hash \<Rightarrow> hash \<Rightarrow> bytes" where
  "toy_payload lid i p e n = lid @ be_bytes 8 (unat i) @ p @ e @ n"

definition demo_entry :: log_entry where
  "demo_entry = \<lparr> le_index = 0, appended_at = 9, event = demo_event,
     prev_root = replicate 32 0, new_root = demo_root,
     le_signature = replicate SIG_LEN
       (5 + sum_list (toy_payload (replicate 16 1) 0 (replicate 32 0) demo_hash demo_root)) \<rparr>"

definition toy_read_header :: "bytes \<Rightarrow> (log_header \<times> bytes) option" where
  "toy_read_header b = (case b of [] \<Rightarrow> None | x # r \<Rightarrow> if x = 1 then Some (demo_header, r) else None)"

definition toy_read_entry :: "bytes \<Rightarrow> (log_entry \<times> bytes) option" where
  "toy_read_entry b = (case b of [] \<Rightarrow> None | x # r \<Rightarrow> if x = 2 then Some (demo_entry, r) else None)"

definition toy_log :: log_crates where
  "toy_log = \<lparr>
     blake3 = toy_hash, hex_encode = toy_hex, hex_decode = toy_unhex,
     mldsa_keygen = mldsa_keygen toy_crates, mldsa_sk_parses = mldsa_sk_parses toy_crates,
     mldsa_pk_parses = mldsa_pk_parses toy_crates,
     mldsa_get_public_key = mldsa_get_public_key toy_crates,
     mldsa_try_sign = mldsa_try_sign toy_crates, mldsa_verify = mldsa_verify toy_crates,
     cbor_event = (\<lambda>ev. Some (toy_cbor_event ev)),
     cbor_payload = (\<lambda>lid i p e n. Some (toy_payload lid i p e n)),
     cbor_header = (\<lambda>h. if h = demo_header then Some [1] else None),
     cbor_entry = (\<lambda>e. if e = demo_entry then Some [2] else None),
     cbor_read_header = toy_read_header,
     cbor_read_entry = toy_read_entry \<rparr>"

definition demo_signer :: signer where
  "demo_signer = keypair_signer toy_log demo_keypair"

definition demo_log0 :: audit_log where
  "demo_log0 = \<lparr> header = demo_header, entries = [], tree = MerkleTree_new, al_signer = Some demo_signer \<rparr>"

definition demo_log :: audit_log where
  "demo_log = demo_log0\<lparr> entries := [demo_entry], tree := mt_append toy_log MerkleTree_new demo_hash \<rparr>"

definition demo_driver :: driver where
  "demo_driver = \<lparr> d_load = (\<lambda>p. True), d_initialize = True, d_slots = Some [0], d_open_session = (\<lambda>s. True),
     d_login = (\<lambda>p. True), d_find_objects = (\<lambda>priv l. Some [if priv then 1 else 2]),
     d_get_value = (\<lambda>h. Some [OtherAttr, Value (replicate PK_LEN 5)]), d_vendor_mech_ok = (\<lambda>m. True),
     d_lock_ok = (\<lambda>e. True), d_sign = (\<lambda>e m h msg. Some (replicate SIG_LEN (5 + sum_list msg))),
     d_ckm_vendor_defined = 2147483648 \<rparr>"

definition demo_pkcs11 :: pkcs11_config where
  "demo_pkcs11 = Pkcs11Config_new demo_driver ''/lib/hsm.so'' (Some ''hsm.so'') 0 ''audit''"

definition demo_io :: save_io where
  "demo_io = \<lparr> stat_ok = True, tmp_ok = True, write_ok = True, chmod_ok = True, sync_ok = True,
               persist_ok = True, dirsync_ok = True \<rparr>"

lemma toy_log_truncate: "crates.truncate toy_log = toy_crates"
  by (simp add: toy_log_def crates.defs toy_crates_def)

lemmas toy_log_oks [simp] = toy_oks [OF toy_log_truncate]

lemmas toy_log_fields = toy_fields [OF toy_log_truncate]

lemma toy_cbor_log_ok [simp]: "cbor_log_ok toy_log"
  by (auto simp: cbor_log_ok_def toy_log_def toy_read_header_def toy_read_entry_def split: if_splits)

lemma toy_cbor_event_total [simp]: "cbor_event_total toy_log"
  by (simp add: cbor_event_total_def toy_log_def)

lemma demo_keypair_good [simp]: "keypair_good toy_log demo_keypair"
  by (simp add: keypair_good_def keypair_matches_def toy_log_fields)
     (simp add: demo_keypair_def toy_crates_def)

lemma demo_signer_ok [simp]: "signer_ok toy_log demo_signer" "signer_good toy_log demo_signer"
  using keypair_backend.obj_good [OF demo_keypair_good]
  by (simp_all add: signer_ok_def demo_signer_def)
     (simp add: keypair_signer_def demo_keypair_def key_lens)

lemma demo_log0_created: "create_with_signer demo_signer ''demo'' 0 (replicate 16 1) = Inr demo_log0"
  by (simp add: create_with_signer_def demo_log0_def demo_header_def demo_signer_def keypair_signer_def
      demo_keypair_def WIRE_VERSION_def SUITE_ID_def)

lemma demo_log0_ok [simp]: "log_ok toy_log demo_log0"
  by (rule create_log_ok [OF demo_signer_ok(1) demo_log0_created])

lemma demo_content_hash: "content_hash toy_log demo_event = Inr demo_hash"
  by (simp add: content_hash_def to_canonical_cbor_def toy_log_def demo_hash_def)

lemma demo_sign:
  "s_sign demo_signer e m = Inr (replicate SIG_LEN (5 + sum_list m))"
  by (simp add: demo_signer_def keypair_signer_def KeyPair_sign_def demo_keypair_def key_lens toy_log_def toy_crates_def)

lemma demo_append: "al_append toy_log e 9 demo_log0 demo_event = (Inr demo_entry, demo_log)"
  unfolding al_append_Inr
  by (simp add: demo_log0_def demo_log_def demo_sign demo_content_hash payload_bytes_def demo_header_def
      mt_root_def mt_append_def MerkleTree_new_def leaf_hash_def LEAF_PREFIX_def demo_entry_def)
     (simp add: toy_log_def demo_root_def)

lemma demo_log_ok [simp]: "log_ok toy_log demo_log"
  by (rule al_append_ok [OF demo_log0_ok _ demo_append]) (simp_all add: demo_log0_def)

lemma demo_log_wf [simp]: "log_wf demo_log"
  by (simp add: log_wf_def demo_log_def demo_log0_def header_wf_def demo_header_def entry_wf_def demo_entry_def
      event_wf_def demo_event_def build_def builder_defs demo_root_def)

lemma demo_open_new: "\<exists>s. fst (open_new demo_driver toy_log demo_pkcs11) = Inr s"
  by (simp add: open_new_def open_with_telemetry_def open_inner_def demo_pkcs11_def Pkcs11Config_new_def
      demo_driver_def find_key_by_label_def read_public_key_def PublicKey_from_bytes_def key_lens)

lemma demo_generate: "\<exists>ss. SoftSigner_generate toy_log 5 = Inr ss"
  by (simp add: SoftSigner_generate_def KeyPair_generate_def toy_log_def toy_crates_def)

end
