(* ===== verification/Rotation.thy ===== *)
theory Rotation
  imports Auditlog
begin

text \<open>
  Rotation chains (\<open>qaudit-core/src/log.rs\<close>, \<open>rotate_to\<close> and \<open>verify_chain\<close>): sealing a log
  with a closing event, opening its successor, and verifying a sequence of linked logs.
\<close>

definition ROTATION_CLOSE_ACTION :: string where "ROTATION_CLOSE_ACTION = ''audit.rotation_close''"
definition ROTATION_OPEN_ACTION :: string where "ROTATION_OPEN_ACTION = ''audit.rotation_open''"

definition new_id :: "'a crates_scheme \<Rightarrow> string \<Rightarrow> log_id \<Rightarrow> log_id result" where
  "new_id C hex rnd =
     (if hex = [] then Inr rnd
      else case hex_decode C hex of
             None \<Rightarrow> Inl (Internal ''invalid new log id hex'')
           | Some b \<Rightarrow> if length b \<noteq> 16 then Inl (Internal ''new log id hex must decode to 16 bytes'')
                       else Inr b)"

definition close_event :: "'a crates_scheme \<Rightarrow> timestamp \<Rightarrow> log_id \<Rightarrow> log_id \<Rightarrow> string \<Rightarrow> audit_event" where
  "close_event C now old_id nid new_label =
     build now
      (set_meta ''new_log_label'' new_label
      (set_meta ''new_log_id'' (hex_encode C nid)
      (set_outcome ''ok''
      (set_resource (''log:'' @ hex_encode C old_id)
      (set_actor ''system:qaudit''
      (set_action ROTATION_CLOSE_ACTION builder))))))"

definition open_event :: "'a crates_scheme \<Rightarrow> timestamp \<Rightarrow> log_id \<Rightarrow> log_id \<Rightarrow> hash \<Rightarrow> string \<Rightarrow> audit_event" where
  "open_event C now nid prev_id prev_final_root prev_label =
     build now
      (set_meta ''prev_log_label'' prev_label
      (set_meta ''prev_log_final_root'' (hex_encode C prev_final_root)
      (set_meta ''prev_log_id'' (hex_encode C prev_id)
      (set_outcome ''ok''
      (set_resource (''log:'' @ hex_encode C nid)
      (set_actor ''system:qaudit''
      (set_action ROTATION_OPEN_ACTION builder)))))))"

definition rotated_header :: "'a crates_scheme \<Rightarrow> timestamp \<Rightarrow> audit_log \<Rightarrow> signer \<Rightarrow> string \<Rightarrow> log_id \<Rightarrow> log_header" where
  "rotated_header C now l s new_label nid = \<lparr>
     wire_version = WIRE_VERSION, suite = SUITE_ID, created_at = now, lh_log_id = nid,
     pubkey = s_public_key s, label = new_label,
     prev_log_id = Some (lh_log_id (header l)), prev_log_final_root = Some (mt_root C (tree l)) \<rparr>"

text \<open>\<open>e1\<close>, \<open>e2\<close> are the entropy of the two signatures and \<open>rnd\<close> the random log id.\<close>

definition rotate_to :: "'a log_crates_scheme \<Rightarrow> nat \<Rightarrow> nat \<Rightarrow> timestamp \<Rightarrow> log_id \<Rightarrow> audit_log \<Rightarrow> signer \<Rightarrow> string \<Rightarrow> string \<Rightarrow> (audit_log \<times> audit_log) result" where
  "rotate_to C e1 e2 now rnd l new_signer new_label hex =
     (if al_signer l = None then Inl (Internal ''rotate_to: source log is read-only (no signer)'')
      else and_then (new_id C hex rnd) (\<lambda>nid.
        case al_append C e1 now l (close_event C now (lh_log_id (header l)) nid new_label) of
          (Inl err, l1) \<Rightarrow> Inl err
        | (Inr _, l1) \<Rightarrow>
            (let new_log = \<lparr> header = rotated_header C now l1 new_signer new_label nid, entries = [],
                             tree = MerkleTree_new, al_signer = Some new_signer \<rparr>
             in case al_append C e2 now new_log
                       (open_event C now nid (lh_log_id (header l1)) (mt_root C (tree l1)) (label (header l1))) of
                  (Inl err, l2) \<Rightarrow> Inl err
                | (Inr _, l2) \<Rightarrow> Inr (l1\<lparr> al_signer := None \<rparr>, l2))))"

text \<open>The body of the loop over adjacent pairs.\<close>

definition verify_link :: "'a log_crates_scheme \<Rightarrow> audit_log \<Rightarrow> audit_log \<Rightarrow> unit result" where
  "verify_link C prev next =
     and_then (map_err (\<lambda>_. Internal ''verify_chain: internal verification failed'') (al_verify C next)) (\<lambda>_.
     and_then (if entries prev = [] then Inl (Internal ''verify_chain: log is empty - cannot have rotated'')
               else Inr (event (last (entries prev)))) (\<lambda>last_ev.
     and_then (ensure (action last_ev = ROTATION_CLOSE_ACTION)
                 (Internal ''verify_chain: final event is not rotation_close'')) (\<lambda>_.
     and_then (ok_or (Internal ''verify_chain: rotation_close lacks new_log_id metadata'')
                 (map_of (metadata last_ev) ''new_log_id'')) (\<lambda>claimed.
     and_then (ensure (claimed = hex_encode C (lh_log_id (header next)))
                 (Internal ''verify_chain: rotation_close points to another log'')) (\<lambda>_.
     and_then (case prev_log_id (header next) of
                 Some i \<Rightarrow> ensure (i = lh_log_id (header prev)) (Internal ''verify_chain: wrong header.prev_log_id'')
               | None \<Rightarrow> Inl (Internal ''verify_chain: no prev_log_id'')) (\<lambda>_.
     and_then (case prev_log_final_root (header next) of
                 Some r \<Rightarrow> ensure (r = mt_root C (tree prev)) (Internal ''verify_chain: wrong prev_log_final_root'')
               | None \<Rightarrow> Inl (Internal ''verify_chain: no prev_log_final_root'')) (\<lambda>_.
     and_then (if entries next = [] then Inl (Internal ''verify_chain: no entries - rotation_open required'')
               else Inr (event (hd (entries next)))) (\<lambda>first_ev.
     and_then (ensure (action first_ev = ROTATION_OPEN_ACTION)
                 (Internal ''verify_chain: first event is not rotation_open'')) (\<lambda>_.
     and_then (ok_or (Internal ''verify_chain: rotation_open lacks prev_log_id metadata'')
                 (map_of (metadata first_ev) ''prev_log_id'')) (\<lambda>meta_prev.
     ensure (meta_prev = hex_encode C (lh_log_id (header prev)))
        (Internal ''verify_chain: rotation_open metadata prev_log_id'')))))))))))"

fun verify_windows :: "'a log_crates_scheme \<Rightarrow> audit_log list \<Rightarrow> unit result" where
  "verify_windows C (p # n # ls) = and_then (verify_link C p n) (\<lambda>_. verify_windows C (n # ls))"
| "verify_windows C ls = Inr ()"

definition verify_chain :: "'a log_crates_scheme \<Rightarrow> audit_log list \<Rightarrow> unit result" where
  "verify_chain C logs =
     (case logs of
        [] \<Rightarrow> Inl (Internal ''verify_chain: empty chain'')
      | first # rest \<Rightarrow>
          and_then (map_err (\<lambda>_. Internal ''verify_chain[0]: internal verification failed'') (al_verify C first)) (\<lambda>_.
          and_then (ensure (prev_log_id (header first) = None \<and> prev_log_final_root (header first) = None)
                      (Internal ''verify_chain[0]: caller passed logs out of order'')) (\<lambda>_.
          verify_windows C logs)))"

subsection \<open>Facts\<close>

definition link_spec :: "'a log_crates_scheme \<Rightarrow> audit_log \<Rightarrow> audit_log \<Rightarrow> bool" where
  "link_spec C p n \<longleftrightarrow>
     al_verify C n = Inr () \<and>
     entries p \<noteq> [] \<and> action (event (last (entries p))) = ROTATION_CLOSE_ACTION \<and>
     map_of (metadata (event (last (entries p)))) ''new_log_id'' = Some (hex_encode C (lh_log_id (header n))) \<and>
     prev_log_id (header n) = Some (lh_log_id (header p)) \<and>
     prev_log_final_root (header n) = Some (mt_root C (tree p)) \<and>
     entries n \<noteq> [] \<and> action (event (hd (entries n))) = ROTATION_OPEN_ACTION \<and>
     map_of (metadata (event (hd (entries n)))) ''prev_log_id'' = Some (hex_encode C (lh_log_id (header p)))"

lemma verify_link_iff: "verify_link C p n = Inr () \<longleftrightarrow> link_spec C p n"
  by (auto simp: verify_link_def link_spec_def res_simps split: option.splits)

lemma verify_windows_iff:
  "verify_windows C ls = Inr () \<longleftrightarrow> (\<forall>i. Suc i < length ls \<longrightarrow> link_spec C (ls ! i) (ls ! Suc i))"
proof (induction C ls rule: verify_windows.induct)
  case (1 C p n ls)
  have "(\<forall>i. Suc i < length (p # n # ls) \<longrightarrow> link_spec C ((p # n # ls) ! i) ((p # n # ls) ! Suc i)) \<longleftrightarrow>
        link_spec C p n \<and> (\<forall>i. Suc i < length (n # ls) \<longrightarrow> link_spec C ((n # ls) ! i) ((n # ls) ! Suc i))"
    by (auto simp: less_Suc_eq_0_disj all_conj_distrib)
  then show ?case using 1 by (simp add: res_simps verify_link_iff)
qed auto

lemma verify_windows_snoc:
  "ls \<noteq> [] \<Longrightarrow> verify_windows C (ls @ [n]) = Inr () \<longleftrightarrow> verify_windows C ls = Inr () \<and> link_spec C (last ls) n"
  by (induction C ls rule: verify_windows.induct) (auto simp: res_simps verify_link_iff)

lemma verify_chain_iff:
  "verify_chain C ls = Inr () \<longleftrightarrow>
     ls \<noteq> [] \<and> al_verify C (hd ls) = Inr () \<and>
     prev_log_id (header (hd ls)) = None \<and> prev_log_final_root (header (hd ls)) = None \<and>
     verify_windows C ls = Inr ()"
  by (cases ls) (auto simp: verify_chain_def res_simps)

lemma rotation_events:
  "action (close_event C now i n lbl) = ROTATION_CLOSE_ACTION"
  "map_of (metadata (close_event C now i n lbl)) ''new_log_id'' = Some (hex_encode C n)"
  "action (open_event C now n p r plbl) = ROTATION_OPEN_ACTION"
  "map_of (metadata (open_event C now n p r plbl)) ''prev_log_id'' = Some (hex_encode C p)"
  by (simp_all add: close_event_def open_event_def build_def builder_defs unwrap_or_def map_of_bt_insert del: bt_insert.simps)

lemma rotate_to_Inr:
  assumes "rotate_to C e1 e2 now rnd l s lbl hex = Inr (old, new)"
  obtains nid l1 x1 x2 where "new_id C hex rnd = Inr nid"
    "al_append C e1 now l (close_event C now (lh_log_id (header l)) nid lbl) = (Inr x1, l1)"
    "al_append C e2 now \<lparr> header = rotated_header C now l1 s lbl nid, entries = [],
          tree = MerkleTree_new, al_signer = Some s \<rparr>
       (open_event C now nid (lh_log_id (header l1)) (mt_root C (tree l1)) (label (header l1))) = (Inr x2, new)"
    "old = l1\<lparr> al_signer := None \<rparr>"
proof -
  obtain nid where n: "new_id C hex rnd = Inr nid"
    using assms by (auto simp: rotate_to_def res_simps split: if_splits)
  obtain r1 l1 where a1: "al_append C e1 now l (close_event C now (lh_log_id (header l)) nid lbl) = (r1, l1)"
    by (meson surj_pair)
  obtain x1 where r1: "r1 = Inr x1"
    using assms n a1 by (cases r1) (auto simp: rotate_to_def split: if_splits)
  obtain r2 l2 where a2: "al_append C e2 now \<lparr> header = rotated_header C now l1 s lbl nid, entries = [],
          tree = MerkleTree_new, al_signer = Some s \<rparr>
       (open_event C now nid (lh_log_id (header l1)) (mt_root C (tree l1)) (label (header l1))) = (r2, l2)"
    by (meson surj_pair)
  obtain x2 where "r2 = Inr x2" "l2 = new" "old = l1\<lparr> al_signer := None \<rparr>"
    using assms n a1 r1 a2 by (cases r2) (auto simp: rotate_to_def split: if_splits)
  then show ?thesis using that n a1 r1 a2 by blast
qed

lemma al_append_shape:
  assumes "al_append C e now l ev = (Inr x, l')"
  shows "header l' = header l" "entries l' = entries l @ [x]" "event x = ev" "al_signer l' = al_signer l"
    "prev_root x = mt_root C (tree l)" "new_root x = mt_root C (tree l')" "appended_at x = now"
  using assms unfolding al_append_Inr by auto

lemma log_ok_sealed: "log_ok C l \<Longrightarrow> log_ok C (l\<lparr> al_signer := None \<rparr>)"
  by (simp add: log_ok_def log_inv_iff al_verify_def signer_bound_def)

lemma fresh_log_ok: "signer_ok C s \<Longrightarrow> log_ok C \<lparr> header = rotated_header C now l s lbl nid, entries = [],
          tree = MerkleTree_new, al_signer = Some s \<rparr>"
  by (simp add: log_ok_def log_inv_iff signer_ok_def signer_bound_def rotated_header_def al_verify_def
      verify_with_pubkey_def res_simps header_ok_def)

lemma rotate_to_ok:
  assumes ok: "log_ok C l" and sl: "\<And>s. al_signer l = Some s \<Longrightarrow> signer_good C s" and ns: "signer_ok C s"
    and len: "Suc (length (entries l)) < 2 ^ 64"
    and rot: "rotate_to C e1 e2 now rnd l s lbl hex = Inr (old, new)"
  shows "log_ok C old" "log_ok C new" "link_spec C old new" "header old = header l"
    "\<exists>x. entries old = entries l @ [x]" "al_signer old = None" "al_signer new = Some s"
    "length (entries new) = 1"
proof -
  obtain nid l1 x1 x2 where nid: "new_id C hex rnd = Inr nid"
    and a1: "al_append C e1 now l (close_event C now (lh_log_id (header l)) nid lbl) = (Inr x1, l1)"
    and a2: "al_append C e2 now \<lparr> header = rotated_header C now l1 s lbl nid, entries = [],
          tree = MerkleTree_new, al_signer = Some s \<rparr>
       (open_event C now nid (lh_log_id (header l1)) (mt_root C (tree l1)) (label (header l1))) = (Inr x2, new)"
    and old: "old = l1\<lparr> al_signer := None \<rparr>"
    by (rule rotate_to_Inr [OF rot])
  note s1 = al_append_shape [OF a1] and s2 = al_append_shape [OF a2]
  show "log_ok C old" using al_append_ok [OF ok sl a1 len] old by (simp add: log_ok_sealed)
  show "log_ok C new"
    using al_append_ok [OF fresh_log_ok [OF ns] _ a2] ns by (simp add: signer_ok_def)
  then have "al_verify C new = Inr ()" by (simp add: log_ok_def)
  then show "link_spec C old new"
    using s1 s2 old by (simp add: link_spec_def rotation_events rotated_header_def)
  show "header old = header l" "\<exists>x. entries old = entries l @ [x]" "al_signer old = None"
    "al_signer new = Some s" "length (entries new) = 1"
    using s1 s2 old by simp_all
qed

lemma link_spec_extend:
  assumes "link_spec C p n" "header n' = header n" "entries n' = entries n @ es" "al_verify C n' = Inr ()"
  shows "link_spec C p n'"
  using assms by (simp add: link_spec_def)

text \<open>Rotating the last log of a verified chain gives a verified chain.\<close>

lemma chain_rotate:
  assumes ch: "verify_chain C (ls @ [l]) = Inr ()" and ok: "log_ok C l"
    and sl: "\<And>s. al_signer l = Some s \<Longrightarrow> signer_good C s" and ns: "signer_ok C s"
    and len: "Suc (length (entries l)) < 2 ^ 64"
    and rot: "rotate_to C e1 e2 now rnd l s lbl hex = Inr (old, new)"
  shows "verify_chain C (ls @ [old, new]) = Inr ()"
proof -
  note r = rotate_to_ok [OF ok sl ns len rot]
  have vo: "al_verify C old = Inr ()" using r(1) by (simp add: log_ok_def)
  have old: "verify_chain C (ls @ [old]) = Inr ()"
  proof (cases "ls = []")
    case True
    then show ?thesis using ch vo r(4) by (simp add: verify_chain_iff)
  next
    case False
    then have "link_spec C (last ls) l" using ch by (simp add: verify_chain_iff verify_windows_snoc)
    then have "link_spec C (last ls) old" using link_spec_extend r(4,5) vo by metis
    then show ?thesis using ch False by (simp add: verify_chain_iff verify_windows_snoc)
  qed
  then show ?thesis
    using r(3) verify_windows_snoc [of "ls @ [old]" C new] by (auto simp: verify_chain_iff hd_append split: if_splits)
qed

lemma verify_windows_append:
  "verify_windows C (ls @ p # n # ms) = Inr () \<Longrightarrow> link_spec C p n"
proof (induction ls)
  case Nil
  then show ?case by (simp add: res_simps verify_link_iff)
next
  case (Cons l ls)
  then show ?case by (cases ls) (auto simp: res_simps)
qed

lemma verify_chain_link: "verify_chain C (ls @ [p, n] @ ms) = Inr () \<Longrightarrow> link_spec C p n"
  using verify_windows_append [of C ls p n ms] by (simp add: verify_chain_iff)

end
