(* ===== verification/Audit_Theorems.thy ===== *)
theory Audit_Theorems
  imports Instances Rotation Hsm "HOL-Library.Multiset"
begin

text \<open>
  The properties of the audit core, each stated over the definitions of the component
  theories, with an instance of every property that has hypotheses.
\<close>

subsection \<open>The Merkle tree\<close>

text \<open>
  C2. Appending leaves one by one to the incremental tree gives the RFC 6962 tree hash of the
  whole leaf list as the root, for every list of fewer than \<open>2 ^ 64\<close> leaves.
\<close>

theorem merkle_root_is_tree_hash:
  assumes "length xs < 2 ^ 64"
  shows "mt_root C (foldl (mt_append C) MerkleTree_new xs) = mth C xs"
  using assms by (rule mmr.build_root)

theorem merkle_root_is_tree_hash_witness:
  "mt_root toy_crates (foldl (mt_append toy_crates) MerkleTree_new [[1], [2], [3]]) = mth toy_crates [[1], [2], [3]]"
  by (rule merkle_root_is_tree_hash) simp

text \<open>
  The frontier is logarithmic: after \<open>n > 0\<close> leaves it has exactly as many slots as \<open>n\<close>
  has binary digits.
\<close>

lemma merkle_frontier_log:
  assumes "xs \<noteq> []"
  shows "2 ^ (length (frontier (mt_build C xs)) - 1) \<le> length xs \<and>
         length xs < 2 ^ length (frontier (mt_build C xs))"
  using mt_repr_frontier [OF mt_build_repr assms] .

text \<open>
  The root binds the leaves, their number and their order: when BLAKE3 has no collision
  among the strings hashed for the two trees, equal roots come from equal leaf lists. The leaf
  and node prefixes keep a leaf from being read as a node.
\<close>

lemma merkle_root_binds_leaves:
  assumes "blake3_ok C" and "xs \<noteq> []" and "ys \<noteq> []"
    and "length xs < 2 ^ 64" and "length ys < 2 ^ 64"
    and "inj_on (blake3 C) (mth_inputs C xs \<union> mth_inputs C ys)"
    and "mt_root C (mt_build C xs) = mt_root C (mt_build C ys)"
  shows "xs = ys"
  using assms mth_inj [of C xs ys] by (simp add: mt_build_root)

subsection \<open>Keys and signers\<close>

text \<open>
  \<open>decode_pubkey_any\<close> accepts exactly the raw 2592-byte key and the 2600-byte file that
  starts with the magic, and returns the key bytes; everything else is a \<open>BadKey\<close> error.
\<close>

lemma decode_pubkey_any_exact:
  "(decode_pubkey_any b = Inr pk \<longleftrightarrow>
      length pk = PUBLIC_KEY_LEN \<and> (b = pk \<or> b = QGATEWAY_AUDIT_PK_MAGIC @ pk)) \<and>
   (isl (decode_pubkey_any b) \<longleftrightarrow> (\<exists>m. decode_pubkey_any b = Inl (BadKey m)))"
proof -
  have l: "length QGATEWAY_AUDIT_PK_MAGIC = 8" by (simp add: QGATEWAY_AUDIT_PK_MAGIC_def)
  have s: "b = QGATEWAY_AUDIT_PK_MAGIC @ pk" if "take 8 b = QGATEWAY_AUDIT_PK_MAGIC" "drop 8 b = pk"
    using that by (metis append_take_drop_id)
  have "decode_pubkey_any b = Inr pk \<longleftrightarrow>
      length pk = PUBLIC_KEY_LEN \<and> (b = pk \<or> b = QGATEWAY_AUDIT_PK_MAGIC @ pk)"
    using l s by (auto simp: decode_pubkey_any_def PublicKey_from_bytes_def split: if_splits)
  moreover have "isl (decode_pubkey_any b) \<longleftrightarrow> (\<exists>m. decode_pubkey_any b = Inl (BadKey m))"
    by (auto simp: decode_pubkey_any_def PublicKey_from_bytes_def)
  ultimately show ?thesis by blast
qed

text \<open>
  Whatever a PKCS#11 driver returns, a signature that the HSM signer hands out verifies
  under the public key it reports; and the software signer does so when key generation and
  signing behave as FIPS 204 says.
\<close>

lemma signers_meet_contract:
  "(fst (open_new D C cfg) = Inr s \<longrightarrow> signer_good C s) \<and>
   (mldsa_ok C \<and> SoftSigner_generate C e = Inr ss \<longrightarrow> signer_ok C (soft_signer_obj C ss))"
proof -
  have "signer_ok C (soft_signer_obj C ss)" if ok: "mldsa_ok C" and g: "SoftSigner_generate C e = Inr ss"
  proof -
    obtain kp where kp: "KeyPair_generate C e = Inr kp" "ss = SoftSigner_new kp"
      using g by (auto simp: SoftSigner_generate_def res_simps)
    then have "keypair_good C (soft_kp ss)" "length (kp_pk (soft_kp ss)) = PUBLIC_KEY_LEN"
      using KeyPair_generate_matches [OF ok kp(1)] ok by (simp_all add: keypair_good_def SoftSigner_new_def)
    then show ?thesis
      using soft_backend.obj_good by (simp add: signer_ok_def soft_signer_obj_def)
  qed
  then show ?thesis using open_new_good by blast
qed

subsection \<open>Events\<close>

text \<open>
  The order in which metadata pairs with different keys are added does not matter: the
  built event, and so its content hash, is the same, and its metadata is in key order.
\<close>

lemma event_metadata_order_irrelevant:
  assumes "mset ps = mset qs" and "distinct (map fst ps)" and "bt_wf (b_metadata b)"
  shows "build now (metas ps b) = build now (metas qs b) \<and> event_wf (build now (metas ps b))"
proof -
  have wf: "bt_wf (b_metadata (metas ps b))" "bt_wf (b_metadata (metas qs b))"
    using assms(3) by (simp_all add: metas_metadata bt_fold_wf)
  have dq: "distinct (map fst qs)" using assms(1,2) by (metis mset_eq_imp_distinct_iff mset_map)
  have "map_of (rev ps) = map_of (rev qs)"
  proof (rule map_of_inject_set [THEN iffD2])
    show "distinct (map fst (rev ps))" "distinct (map fst (rev qs))"
      using assms(2) dq unfolding rev_map [symmetric] by simp_all
    show "set (rev ps) = set (rev qs)" using mset_eq_setD [OF assms(1)] by simp
  qed
  then have "b_metadata (metas ps b) = b_metadata (metas qs b)"
    by (intro bt_wf_ext [OF wf]) (simp add: metas_metadata bt_fold_map_of)
  then have "metas ps b = metas qs b" using metas_fields [of ps b] metas_fields [of qs b] by simp
  then show ?thesis using wf by (simp add: event_wf_def build_def)
qed

subsection \<open>The log\<close>

text \<open>
  C8. What \<open>verify\<close> accepts: the header has the supported version, suite and key length, and
  entry \<open>i\<close> declares index \<open>i\<close>, the tree hash of the events before it, the tree hash of the
  events up to it, and a signature under the header's key over the log id, the index, both
  roots and its event's hash. The streaming loop accepts exactly these logs.
\<close>

theorem verify_accepts_exactly_spec:
  assumes "length (entries l) < 2 ^ 64"
  shows "al_verify C l = Inr () \<longleftrightarrow> header_ok (header l) \<and> entries_spec C (header l) (entries l)"
  using verify_iff [OF assms] by (simp add: al_verify_def)

theorem verify_accepts_exactly_spec_witness:
  "header_ok (header demo_log) \<and> entries_spec toy_log (header demo_log) (entries demo_log)"
  using verify_accepts_exactly_spec [of demo_log toy_log] demo_log_ok
  by (simp add: log_ok_def demo_log_def demo_log0_def)

text \<open>
  C5. Appending to a log that verifies, with a signer that meets its contract: on success the
  log has one more entry at the end, carrying the event, and still verifies with its tree in
  step; on any error (no signer, signing failure) the log is unchanged.
\<close>

theorem append_keeps_log_verified:
  assumes "log_ok C l" and "\<And>s. al_signer l = Some s \<Longrightarrow> signer_good C s"
    and "Suc (length (entries l)) < 2 ^ 64"
  shows "case al_append C e now l ev of
           (Inr x, l') \<Rightarrow> log_ok C l' \<and> entries l' = entries l @ [x] \<and> event x = ev \<and> header l' = header l
         | (Inl err, l') \<Rightarrow> l' = l"
proof -
  obtain r l' where a: "al_append C e now l ev = (r, l')" by (meson surj_pair)
  show ?thesis
  proof (cases r)
    case (Inl err)
    then show ?thesis using a al_append_Inl [of C e now l ev err l'] by simp
  next
    case (Inr x)
    then have a': "al_append C e now l ev = (Inr x, l')" using a by simp
    show ?thesis
      unfolding a' using al_append_ok [OF assms(1,2) a' assms(3)] al_append_shape [OF a'] by simp
  qed
qed

theorem append_keeps_log_verified_witness:
  "log_ok toy_log demo_log \<and> entries demo_log = entries demo_log0 @ [demo_entry]"
  using append_keeps_log_verified [where C = toy_log and l = demo_log0 and e = 0 and now = 9 and ev = demo_event]
  by (simp add: demo_append) (simp add: demo_log0_def)

text \<open>
  Appending returns an entry whenever a signer is bound, the CBOR encoders return and the
  signer returns a signature: nothing else makes it fail.
\<close>

lemma append_succeeds:
  assumes "al_signer l = Some s" and "cbor_event_total C"
    and "\<And>lid i p eh n. cbor_payload C lid i p eh n \<noteq> None"
    and "\<And>m. is_ok (s_sign s e m)"
  shows "\<exists>x l'. al_append C e now l ev = (Inr x, l')"
  using assms by (rule append_total_signer)

text \<open>
  C25. The final root of a verified log determines its events: two logs that verify and end
  with the same root hold the same events in the same order, when BLAKE3 has no collision
  among the strings hashed for them.
\<close>

theorem final_root_determines_events:
  assumes "blake3_ok C"
    and "al_verify C l = Inr ()" and "entries l \<noteq> []" and "length (entries l) < 2 ^ 64"
    and "al_verify C k = Inr ()" and "entries k \<noteq> []" and "length (entries k) < 2 ^ 64"
    and "inj_on (blake3 C) (mth_inputs C (hashes_of C l) \<union> mth_inputs C (hashes_of C k))"
    and "inj_on (content_hash C) (event ` set (entries l) \<union> event ` set (entries k))"
    and "new_root (last (entries l)) = new_root (last (entries k))"
  shows "map event (entries l) = map event (entries k)"
proof -
  note a = verified_last_root [OF assms(2-4)] and b = verified_last_root [OF assms(5-7)]
  have "hashes_of C l = hashes_of C k"
    using mth_inj [OF assms(1) a(2) b(2) assms(8)] a(3) b(3) assms(10) by simp
  then show ?thesis using event_hashes_inj [of C "entries l" _ "entries k"] a(1) b(1) assms(9) by simp
qed

theorem final_root_determines_events_witness:
  "map event (entries demo_log) = map event (entries (demo_log\<lparr> al_signer := None \<rparr>))"
proof (rule final_root_determines_events [of toy_log])
  have h: "hashes_of toy_log demo_log = [demo_hash]" for s
    by (simp add: hashes_of_def event_hashes_def demo_log_def demo_entry_def demo_content_hash)
  have h': "hashes_of toy_log (demo_log\<lparr> al_signer := None \<rparr>) = [demo_hash]"
    using h by (simp add: hashes_of_def)
  show "inj_on (blake3 toy_log) (mth_inputs toy_log (hashes_of toy_log demo_log) \<union>
      mth_inputs toy_log (hashes_of toy_log (demo_log\<lparr> al_signer := None \<rparr>)))"
    unfolding h h' by (simp add: mth_inputs.simps)
  show "al_verify toy_log demo_log = Inr ()" "al_verify toy_log (demo_log\<lparr> al_signer := None \<rparr>) = Inr ()"
    using demo_log_ok by (simp_all add: log_ok_def al_verify_def)
qed (simp_all add: demo_log_def)

text \<open>
  Truncating a log is not detected by \<open>verify\<close> alone: every prefix of a verified log
  verifies.
\<close>

lemma prefix_of_verified_log_verifies:
  assumes "length (entries l) < 2 ^ 64" and "al_verify C l = Inr ()"
  shows "al_verify C (l\<lparr> entries := take n (entries l) \<rparr>) = Inr ()"
  using verify_take [OF assms(1)] assms(2) by (simp add: al_verify_def)

text \<open>
  A signer is attached only to a log whose history verifies and whose header names its
  key; otherwise the log is unchanged and stays read-only, so that \<open>append\<close> is refused.
\<close>

lemma bind_signer_only_to_verified_log:
  "case bind_signer C l s of
     (Inr _, l') \<Rightarrow> al_verify C l = Inr () \<and> s_public_key s = pubkey (header l) \<and>
                    l' = l\<lparr> al_signer := Some s \<rparr> \<and> al_verify C l' = Inr ()
   | (Inl err, l') \<Rightarrow> l' = l \<and> \<not> (al_verify C l = Inr () \<and> s_public_key s = pubkey (header l))"
  by (auto simp: bind_signer_def al_verify_def split: sum.splits)

text \<open>
  C14. Saving a log and reading the bytes back gives the same header, entries and tree, with
  no signer attached.
\<close>

theorem save_then_read_round_trip:
  assumes "cbor_log_ok C" and "log_wf l" and "log_ok C l" and "save_to C l = Inr b"
  shows "read_from C b = Inr (l\<lparr> al_signer := None \<rparr>)"
proof -
  have "header_ok (header l)" using assms(3) by (auto simp: log_ok_def al_verify_def verify_with_pubkey_def res_simps)
  then show ?thesis using read_from_save_to [OF assms(1,2)] assms(3,4) by (simp add: log_ok_def)
qed

theorem save_then_read_round_trip_witness:
  "save_to toy_log demo_log = Inr (MAGIC @ [1, 2]) \<and>
   read_from toy_log (MAGIC @ [1, 2]) = Inr (demo_log\<lparr> al_signer := None \<rparr>)"
proof -
  have s: "save_to toy_log demo_log = Inr (MAGIC @ [1, 2])"
    by (simp add: save_to_def demo_log_def demo_log0_def toy_log_def)
  show ?thesis using s save_then_read_round_trip [OF toy_cbor_log_ok demo_log_wf demo_log_ok s] by simp
qed

text \<open>
  C40. Saving is atomic: afterwards the destination holds either what it held or the complete
  new file, with the old permissions kept; no other path changes; a destination that is not a
  regular file is refused; and success means the new file is there.
\<close>

theorem save_is_atomic:
  assumes "save C io fs path l = (r, fs')"
  shows "(\<forall>q. q \<noteq> path \<longrightarrow> fs' q = fs q) \<and>
         (fs' = fs \<or> (\<exists>b n. save_to C l = Inr b \<and> fs' path = Some n \<and> is_file n \<and> contents n = b \<and>
                        permissions n = (case fs path of Some m \<Rightarrow> permissions m | None \<Rightarrow> private_mode))) \<and>
         (r = Inr () \<longrightarrow> (\<exists>b n. save_to C l = Inr b \<and> fs' path = Some n \<and> contents n = b)) \<and>
         (\<forall>n. fs path = Some n \<and> \<not> is_file n \<longrightarrow> fs' = fs \<and> r \<noteq> Inr ())"
  using assms by (auto simp: save_def res_simps split: sum.splits option.splits if_splits)

theorem save_is_atomic_witness:
  "\<exists>fs'. save toy_log demo_io (\<lambda>q. None) ''a.qa'' demo_log = (Inr (), fs') \<and>
         (\<exists>b n. save_to toy_log demo_log = Inr b \<and> fs' ''a.qa'' = Some n \<and> contents n = b)"
proof -
  have s: "save_to toy_log demo_log = Inr (MAGIC @ [1, 2])"
    by (simp add: save_to_def demo_log_def demo_log0_def toy_log_def)
  obtain fs' where f: "save toy_log demo_io (\<lambda>q. None) ''a.qa'' demo_log = (Inr (), fs')"
    by (simp add: save_def s demo_io_def)
  show ?thesis using f save_is_atomic [OF f] by blast
qed

subsection \<open>Rotation chains\<close>

text \<open>
  C7. Rotating the last log of a verified chain, with signers that meet their contract, gives
  a chain that verifies again: the sealed log keeps its header and entries, ends with the
  closing event and can no longer be appended to; the new log is signed by the new signer.
\<close>

theorem rotation_extends_verified_chain:
  assumes "verify_chain C (ls @ [l]) = Inr ()" and "log_ok C l"
    and "\<And>s'. al_signer l = Some s' \<Longrightarrow> signer_good C s'" and "signer_ok C s"
    and "Suc (length (entries l)) < 2 ^ 64"
    and "rotate_to C e1 e2 now rnd l s lbl hex = Inr (old, new)"
  shows "verify_chain C (ls @ [old, new]) = Inr () \<and> log_ok C old \<and> log_ok C new \<and>
         header old = header l \<and> (\<exists>x. entries old = entries l @ [x]) \<and> al_signer new = Some s \<and>
         (\<forall>e t ev. al_append C e t old ev = (Inl (Internal ''log is read-only; no signer bound''), old))"
  using chain_rotate [OF assms] rotate_to_ok [OF assms(2-6)] by (simp add: al_append_def)

lemma demo_rotates:
  assumes s: "al_signer l = Some demo_signer"
  shows "\<exists>old new. rotate_to toy_log e1 e2 20 rnd l demo_signer ''next'' [] = Inr (old, new)"
proof -
  have ap: "\<exists>x l'. al_append toy_log e t l ev = (Inr x, l') " if "al_signer l = Some demo_signer" for e t l ev
    by (rule append_total_signer [OF that]) (simp_all add: demo_sign toy_log_def cbor_event_total_def)
  obtain x l1 where a1: "al_append toy_log e1 20 l
      (close_event toy_log 20 (lh_log_id (header l)) rnd ''next'') = (Inr x, l1)"
    using ap [OF s] by blast
  obtain y l2 where a2: "al_append toy_log e2 20
      \<lparr> header = rotated_header toy_log 20 l1 demo_signer ''next'' rnd, entries = [],
        tree = MerkleTree_new, al_signer = Some demo_signer \<rparr>
      (open_event toy_log 20 rnd (lh_log_id (header l1)) (mt_root toy_log (tree l1)) (label (header l1)))
      = (Inr y, l2)"
    using ap by fastforce
  show ?thesis by (simp add: rotate_to_def s new_id_def a1 a2)
qed

lemma demo_log_signer [simp]: "al_signer demo_log = Some demo_signer" "length (entries demo_log) = 1"
  "al_signer demo_log0 = Some demo_signer" "entries demo_log0 = []"
  by (simp_all add: demo_log_def demo_log0_def)

lemma demo_chain: "verify_chain toy_log [demo_log] = Inr ()" "verify_chain toy_log [demo_log0] = Inr ()"
  using demo_log_ok demo_log0_ok by (simp_all add: verify_chain_iff log_ok_def)
    (simp_all add: demo_log_def demo_log0_def demo_header_def)

theorem rotation_extends_verified_chain_witness:
  "\<exists>old new. rotate_to toy_log 0 0 20 (replicate 16 2) demo_log demo_signer ''next'' [] = Inr (old, new) \<and>
     verify_chain toy_log [old, new] = Inr ()"
proof -
  obtain old new where r: "rotate_to toy_log 0 0 20 (replicate 16 2) demo_log demo_signer ''next'' [] = Inr (old, new)"
    using demo_rotates [OF demo_log_signer(1)] by blast
  show ?thesis
    using r rotation_extends_verified_chain [where ls = "[]", OF _ demo_log_ok _ demo_signer_ok(1) _ r] demo_chain
    by simp
qed

text \<open>
  What a verified chain is: a nonempty sequence whose first log has no predecessor,
  every log of which verifies, and in which each log but the last ends with a closing event
  naming the id of the next, whose header names the id and the final root of the one before
  and which starts with an opening event naming that id.
\<close>

lemma verify_chain_accepts_exactly:
  "verify_chain C ls = Inr () \<longleftrightarrow>
     ls \<noteq> [] \<and> al_verify C (hd ls) = Inr () \<and>
     prev_log_id (header (hd ls)) = None \<and> prev_log_final_root (header (hd ls)) = None \<and>
     (\<forall>i. Suc i < length ls \<longrightarrow> link_spec C (ls ! i) (ls ! Suc i))"
  by (simp add: verify_chain_iff verify_windows_iff)

text \<open>
  In a verified chain the header of a log fixes every event of the log before it: no two
  different predecessors, a truncated one included, can stand before the same log, when BLAKE3
  has no collision among the strings hashed for them.
\<close>

lemma chain_fixes_predecessor:
  assumes "blake3_ok C" and "log_inv C p" and "log_inv C q"
    and "length (entries p) < 2 ^ 64" and "length (entries q) < 2 ^ 64"
    and "verify_chain C (ls @ [p, n] @ ms) = Inr ()" and "verify_chain C (ls' @ [q, n] @ ms') = Inr ()"
    and "inj_on (blake3 C) (mth_inputs C (hashes_of C p) \<union> mth_inputs C (hashes_of C q))"
    and "inj_on (content_hash C) (event ` set (entries p) \<union> event ` set (entries q))"
  shows "map event (entries p) = map event (entries q)"
proof -
  have l: "link_spec C p n" "link_spec C q n"
    using verify_chain_link [OF assms(6)] verify_chain_link [OF assms(7)] .
  have hp: "event_hashes C (entries p) = Inr (hashes_of C p)" "tree p = mt_build C (hashes_of C p)"
    and hq: "event_hashes C (entries q) = Inr (hashes_of C q)" "tree q = mt_build C (hashes_of C q)"
    using assms(2,3) by (auto simp: log_inv_iff hashes_of_def)
  have lens: "length (hashes_of C p) = length (entries p)" "length (hashes_of C q) = length (entries q)"
    using event_hashes_length hp(1) hq(1) by blast+
  then have ne: "hashes_of C p \<noteq> []" "hashes_of C q \<noteq> []" using l by (auto simp: link_spec_def)
  have "mth C (hashes_of C p) = mth C (hashes_of C q)"
    using l hp(2) hq(2) lens assms(4,5) mt_build_root [of "hashes_of C p" C] mt_build_root [of "hashes_of C q" C]
    by (simp add: link_spec_def)
  then have "hashes_of C p = hashes_of C q" using mth_inj [OF assms(1) ne assms(8)] by simp
  then show ?thesis using event_hashes_inj [of C "entries p" _ "entries q"] hp(1) hq(1) assms(9) by simp
qed

end
