(* ===== verification/Framing.thy ===== *)
theory Framing
  imports Prelude
begin

text \<open>
  The errors of the CSPQ transport and its length-prefixed frames
  (\<open>qtransport-cspq/src/error.rs\<close>, \<open>framing.rs\<close>).

  A reader is the list of the bytes that will arrive before the end of the stream; a writer
  that accepts everything is the list of the bytes written. \<open>TPanic\<close> is not an error of the
  source but the abort of an \<open>expect\<close>.
\<close>

type_synonym u16 = "16 word"

datatype terror =
    TIo string
  | Protocol string
  | Crypto string
  | UntrustedPeer string
  | NonceOverflow
  | UnsupportedSuite u16
  | FrameTooLarge usize usize
  | Identity string
  | MlDsa string
  | TPanic string

type_synonym 'a tresult = "terror + 'a"

definition MAX_FRAME :: usize where "MAX_FRAME = 64 * 1024"

definition frame_of :: "bytes \<Rightarrow> bytes" where
  "frame_of buf = be_bytes 4 (length buf) @ buf"

definition write_frame :: "bytes \<Rightarrow> bytes tresult" where
  "write_frame buf =
     (if length buf > MAX_FRAME then Inl (FrameTooLarge (length buf) MAX_FRAME)
      else Inr (frame_of buf))"

definition read_exact :: "usize \<Rightarrow> bytes \<Rightarrow> (bytes \<times> bytes) tresult" where
  "read_exact n r = (if n \<le> length r then Inr (take n r, drop n r) else Inl (TIo ''UnexpectedEof''))"

definition read_frame :: "bytes \<Rightarrow> usize \<Rightarrow> (bytes \<times> bytes) tresult" where
  "read_frame r mx =
     and_then (read_exact 4 r) (\<lambda>(len_buf, r1).
     let len = from_be_bytes len_buf in
     if len > min mx MAX_FRAME then Inl (FrameTooLarge len mx)
     else read_exact len r1)"

subsection \<open>Facts\<close>

lemma length_frame_of [simp]: "length (frame_of b) = 4 + length b"
  by (simp add: frame_of_def)

lemma read_frame_frame_of:
  assumes "length b \<le> min mx MAX_FRAME"
  shows "read_frame (frame_of b @ r) mx = Inr (b, r)"
proof -
  have "length b < 256 ^ 4" using assms by (simp add: MAX_FRAME_def)
  then have "from_be_bytes (be_bytes 4 (length b)) = length b"
    by (simp add: from_be_bytes_be_bytes)
  then show ?thesis using assms by (auto simp: read_frame_def frame_of_def read_exact_def Let_def)
qed

lemma read_frame_bound: "read_frame r mx = Inr (b, r') \<Longrightarrow> length b \<le> min mx MAX_FRAME"
  by (auto simp: read_frame_def read_exact_def res_simps Let_def split: if_splits)

lemma read_frame_split: "read_frame r mx = Inr (b, r') \<Longrightarrow> r = frame_of b @ r'"
proof -
  assume a: "read_frame r mx = Inr (b, r')"
  define len where "len = from_be_bytes (take 4 r)"
  have l4: "4 \<le> length r" and len: "len \<le> length (drop 4 r)" and b: "b = take len (drop 4 r)"
    and r': "r' = drop len (drop 4 r)"
    using a by (auto simp: read_frame_def read_exact_def res_simps Let_def len_def split: if_splits)
  have "length b = len" using len b by simp
  moreover have "be_bytes 4 len = take 4 r"
    using be_bytes_from_be_bytes [of "take 4 r"] l4 by (simp add: len_def min_absorb2)
  moreover have "r = take 4 r @ take len (drop 4 r) @ drop len (drop 4 r)"
    by (simp only: append_take_drop_id)
  ultimately show ?thesis using b r' by (simp add: frame_of_def)
qed

interpretation frame_codec: stream_codec
  "\<lambda>b. length b \<le> min mx MAX_FRAME" frame_of "\<lambda>r. opt_of (read_frame r mx)" for mx
  by unfold_locales (simp add: read_frame_frame_of)

end
