(* ===== verification/Record_Layer.thy ===== *)
theory Record_Layer
  imports Framing Signing
begin

text \<open>
  The CSPQ record layer with blocking reads and writes (\<open>qtransport-cspq/src/transport.rs\<close>):
  directional keys, the nonce counter, sealing and opening, and the stream's record
  operations. The poll machines are in their own theory.

  ChaCha20-Poly1305 is a parameter: \<open>aead_encrypt\<close> and \<open>aead_decrypt\<close> of a key, a nonce and a
  message, \<open>None\<close> being an error.
\<close>

record aead_crates = crates +
  aead_encrypt :: "bytes \<Rightarrow> bytes \<Rightarrow> bytes \<Rightarrow> bytes option"
  aead_decrypt :: "bytes \<Rightarrow> bytes \<Rightarrow> bytes \<Rightarrow> bytes option"

text \<open>Decryption inverts encryption, and the ciphertext is 16 bytes longer.\<close>

definition aead_ok :: "'a aead_crates_scheme \<Rightarrow> bool" where
  "aead_ok C \<longleftrightarrow>
     (\<forall>k n p c. aead_encrypt C k n p = Some c \<longrightarrow> aead_decrypt C k n c = Some p \<and> length c = length p + 16)"

text \<open>A ciphertext made under one nonce does not open under another.\<close>

definition aead_nonce_bound :: "'a aead_crates_scheme \<Rightarrow> bool" where
  "aead_nonce_bound C \<longleftrightarrow>
     (\<forall>k n n' p c. aead_encrypt C k n p = Some c \<and> n' \<noteq> n \<longrightarrow> aead_decrypt C k n' c = None)"

text \<open>Encryption of a record does not fail: the message is far below the cipher's limit.\<close>

definition aead_total :: "'a aead_crates_scheme \<Rightarrow> bool" where
  "aead_total C \<longleftrightarrow> (\<forall>k n p. length n = 12 \<and> length p \<le> 16384 \<longrightarrow> aead_encrypt C k n p \<noteq> None)"

definition MAX_PLAINTEXT :: usize where "MAX_PLAINTEXT = 16 * 1024"
definition NONCE_LEN :: usize where "NONCE_LEN = 12"
definition TAG_LEN :: usize where "TAG_LEN = 16"
definition DIR_C2S :: bytes where "DIR_C2S = [0, 0, 0, 0]"
definition DIR_S2C :: bytes where "DIR_S2C = [0, 0, 0, 1]"

lemmas record_consts = MAX_PLAINTEXT_def NONCE_LEN_def TAG_LEN_def DIR_C2S_def DIR_S2C_def MAX_FRAME_def

record directional_keys =
  key_c2s :: bytes
  key_s2c :: bytes

record direction_state =
  ds_key :: bytes
  counter :: u64
  prefix :: bytes

definition DirectionState_new :: "bytes \<Rightarrow> bytes \<Rightarrow> direction_state" where
  "DirectionState_new key pre = \<lparr> ds_key = key, counter = 0, prefix = pre \<rparr>"

definition checked_add_u64 :: "u64 \<Rightarrow> u64 \<Rightarrow> u64 option" where
  "checked_add_u64 a b = (if unat a + unat b < 2 ^ 64 then Some (a + b) else None)"

definition next_nonce :: "direction_state \<Rightarrow> bytes tresult \<times> direction_state" where
  "next_nonce d =
     (if counter d = u64_max then (Inl NonceOverflow, d)
      else let n = prefix d @ be_bytes 8 (unat (counter d)) in
        case checked_add_u64 (counter d) 1 of
          None \<Rightarrow> (Inl NonceOverflow, d)
        | Some c \<Rightarrow> (Inr n, d\<lparr> counter := c \<rparr>))"

definition seal :: "'a aead_crates_scheme \<Rightarrow> direction_state \<Rightarrow> bytes \<Rightarrow> bytes tresult \<times> direction_state" where
  "seal C d plaintext =
     (case next_nonce d of
        (Inl e, d') \<Rightarrow> (Inl e, d')
      | (Inr n, d') \<Rightarrow> (ok_or (Crypto ''AEAD seal failed'') (aead_encrypt C (ds_key d) n plaintext), d'))"

definition open_ct :: "'a aead_crates_scheme \<Rightarrow> direction_state \<Rightarrow> bytes \<Rightarrow> bytes tresult \<times> direction_state" where
  "open_ct C d ciphertext =
     (case next_nonce d of
        (Inl e, d') \<Rightarrow> (Inl e, d')
      | (Inr n, d') \<Rightarrow> (ok_or (Crypto ''AEAD open failed (bad tag or replay)'') (aead_decrypt C (ds_key d) n ciphertext), d'))"

text \<open>
  The stream: the bytes still to arrive, the bytes written, the two direction states and the
  authenticated peer. \<open>split\<close> hands the reading half and the writing half to two tasks.
\<close>

record cspq_reader =
  r_inner :: bytes
  r_recv :: direction_state
  r_peer_id :: public_key

record cspq_writer =
  w_inner :: bytes
  w_send :: direction_state
  w_peer_id :: public_key

record cspq_stream =
  in_bytes :: bytes
  out_bytes :: bytes
  send :: direction_state
  recv :: direction_state
  peer_id :: public_key

definition new_client :: "bytes \<Rightarrow> bytes \<Rightarrow> directional_keys \<Rightarrow> public_key \<Rightarrow> cspq_stream" where
  "new_client i out keys peer = \<lparr> in_bytes = i, out_bytes = out,
     send = DirectionState_new (key_c2s keys) DIR_C2S,
     recv = DirectionState_new (key_s2c keys) DIR_S2C, peer_id = peer \<rparr>"

definition new_server :: "bytes \<Rightarrow> bytes \<Rightarrow> directional_keys \<Rightarrow> public_key \<Rightarrow> cspq_stream" where
  "new_server i out keys peer = \<lparr> in_bytes = i, out_bytes = out,
     send = DirectionState_new (key_s2c keys) DIR_S2C,
     recv = DirectionState_new (key_c2s keys) DIR_C2S, peer_id = peer \<rparr>"

definition split_stream :: "cspq_stream \<Rightarrow> cspq_reader \<times> cspq_writer" where
  "split_stream s =
     (\<lparr> r_inner = in_bytes s, r_recv = recv s, r_peer_id = peer_id s \<rparr>,
      \<lparr> w_inner = out_bytes s, w_send = send s, w_peer_id = peer_id s \<rparr>)"

definition sent_frames :: "cspq_stream \<Rightarrow> u64" where
  "sent_frames s = counter (send s)"

definition received_frames :: "cspq_stream \<Rightarrow> u64" where
  "received_frames s = counter (recv s)"

definition w_seal_and_write :: "'a aead_crates_scheme \<Rightarrow> cspq_writer \<Rightarrow> bytes \<Rightarrow> unit tresult \<times> cspq_writer" where
  "w_seal_and_write C w plaintext =
     (case seal C (w_send w) plaintext of
        (Inl e, d) \<Rightarrow> (Inl e, w\<lparr> w_send := d \<rparr>)
      | (Inr ct, d) \<Rightarrow>
          (case write_frame ct of
             Inl e \<Rightarrow> (Inl e, w\<lparr> w_send := d \<rparr>)
           | Inr b \<Rightarrow> (Inr (), w\<lparr> w_send := d, w_inner := w_inner w @ b \<rparr>)))"

definition w_send_record :: "'a aead_crates_scheme \<Rightarrow> cspq_writer \<Rightarrow> bytes \<Rightarrow> unit tresult \<times> cspq_writer" where
  "w_send_record C w plaintext =
     (if length plaintext > MAX_PLAINTEXT then (Inl (FrameTooLarge (length plaintext) MAX_PLAINTEXT), w)
      else w_seal_and_write C w plaintext)"

definition w_send_eof :: "'a aead_crates_scheme \<Rightarrow> cspq_writer \<Rightarrow> unit tresult \<times> cspq_writer" where
  "w_send_eof C w = w_seal_and_write C w []"

definition r_recv_record :: "'a aead_crates_scheme \<Rightarrow> cspq_reader \<Rightarrow> bytes tresult \<times> cspq_reader" where
  "r_recv_record C r =
     (case read_frame (r_inner r) (MAX_PLAINTEXT + TAG_LEN + 64) of
        Inl e \<Rightarrow> (Inl e, r)
      | Inr (ct, rest) \<Rightarrow>
          (case open_ct C (r_recv r) ct of
             (Inl e, d) \<Rightarrow> (Inl e, r\<lparr> r_inner := rest, r_recv := d \<rparr>)
           | (Inr pt, d) \<Rightarrow>
               (if length pt > MAX_PLAINTEXT then Inl (FrameTooLarge (length pt) MAX_PLAINTEXT) else Inr pt,
                r\<lparr> r_inner := rest, r_recv := d \<rparr>)))"

text \<open>The same operations on the unsplit stream.\<close>

definition send_record :: "'a aead_crates_scheme \<Rightarrow> cspq_stream \<Rightarrow> bytes \<Rightarrow> unit tresult \<times> cspq_stream" where
  "send_record C s p =
     (let (r, w) = w_send_record C (snd (split_stream s)) p
      in (r, s\<lparr> out_bytes := w_inner w, send := w_send w \<rparr>))"

definition send_eof :: "'a aead_crates_scheme \<Rightarrow> cspq_stream \<Rightarrow> unit tresult \<times> cspq_stream" where
  "send_eof C s =
     (let (r, w) = w_send_eof C (snd (split_stream s))
      in (r, s\<lparr> out_bytes := w_inner w, send := w_send w \<rparr>))"

definition recv_record :: "'a aead_crates_scheme \<Rightarrow> cspq_stream \<Rightarrow> bytes tresult \<times> cspq_stream" where
  "recv_record C s =
     (let (r, d) = r_recv_record C (fst (split_stream s))
      in (r, s\<lparr> in_bytes := r_inner d, recv := r_recv d \<rparr>))"

subsection \<open>Nonces\<close>

text \<open>The nonces of the next \<open>k\<close> records; the list is shorter when the counter runs out.\<close>

fun nonces :: "nat \<Rightarrow> direction_state \<Rightarrow> bytes list" where
  "nonces 0 d = []"
| "nonces (Suc k) d =
     (case next_nonce d of (Inl e, d') \<Rightarrow> [] | (Inr n, d') \<Rightarrow> n # nonces k d')"

lemma counter_step: "counter d \<noteq> u64_max \<Longrightarrow> unat (counter d + 1) = Suc (unat (counter d))"
proof -
  assume "counter d \<noteq> u64_max"
  then have "unat (counter d) \<noteq> 2 ^ 64 - 1"
    by (metis unat_u64_max word_eq_iff_unsigned)
  moreover have "unat (counter d) < 2 ^ 64" using unsigned_less [of "counter d"] by simp
  ultimately show ?thesis by (simp add: unat_word_ariths)
qed

lemma next_nonce_ok:
  assumes "counter d \<noteq> u64_max"
  shows "next_nonce d = (Inr (prefix d @ be_bytes 8 (unat (counter d))), d\<lparr> counter := counter d + 1 \<rparr>)"
proof -
  have "unat (counter d + 1) < 2 ^ 64" using unsigned_less [of "counter d + 1"] by simp
  then have "unat (counter d) + 1 < 2 ^ 64" using counter_step [OF assms] by simp
  then show ?thesis using assms by (simp add: next_nonce_def checked_add_u64_def Let_def)
qed

lemma next_nonce_overflow: "counter d = u64_max \<Longrightarrow> next_nonce d = (Inl NonceOverflow, d)"
  by (simp add: next_nonce_def)

lemma nonces_spec:
  "nonces k d = map (\<lambda>i. prefix d @ be_bytes 8 i) [unat (counter d) ..< min (unat (counter d) + k) (2 ^ 64 - 1)]"
proof (induction k arbitrary: d)
  case 0
  then show ?case by simp
next
  case (Suc k)
  show ?case
  proof (cases "counter d = u64_max")
    case True
    then show ?thesis by (simp add: next_nonce_overflow unat_u64_max)
  next
    case False
    have "unat (counter d + 1) < 2 ^ 64" using unsigned_less [of "counter d + 1"] by simp
    then have lt: "unat (counter d) < 2 ^ 64 - 1" using counter_step [OF False] by simp
    have "[unat (counter d) ..< min (unat (counter d) + Suc k) (2 ^ 64 - 1)] =
          unat (counter d) # [Suc (unat (counter d)) ..< min (Suc (unat (counter d)) + k) (2 ^ 64 - 1)]"
      using lt by (subst upt_conv_Cons) simp_all
    then show ?thesis
      using Suc [of "d\<lparr> counter := counter d + 1 \<rparr>"] by (simp add: next_nonce_ok [OF False] counter_step [OF False])
  qed
qed

subsection \<open>Sealing and opening\<close>

lemma seal_Inr:
  "seal C d p = (Inr c, d') \<longleftrightarrow>
     counter d \<noteq> u64_max \<and> aead_encrypt C (ds_key d) (prefix d @ be_bytes 8 (unat (counter d))) p = Some c \<and>
     d' = d\<lparr> counter := counter d + 1 \<rparr>"
  by (cases "counter d = u64_max")
    (auto simp: seal_def next_nonce_ok next_nonce_overflow res_simps)

lemma open_ct_Inr:
  "open_ct C d c = (Inr p, d') \<longleftrightarrow>
     counter d \<noteq> u64_max \<and> aead_decrypt C (ds_key d) (prefix d @ be_bytes 8 (unat (counter d))) c = Some p \<and>
     d' = d\<lparr> counter := counter d + 1 \<rparr>"
  by (cases "counter d = u64_max")
    (auto simp: open_ct_def next_nonce_ok next_nonce_overflow res_simps)

lemma open_seal: "aead_ok C \<Longrightarrow> seal C d p = (Inr c, d') \<Longrightarrow> open_ct C d c = (Inr p, d')"
  by (auto simp: seal_Inr open_ct_Inr aead_ok_def)

lemma seal_length: "aead_ok C \<Longrightarrow> seal C d p = (Inr c, d') \<Longrightarrow> length c = length p + 16"
  by (auto simp: seal_Inr aead_ok_def)

lemma seal_total: "aead_total C \<Longrightarrow> counter d \<noteq> u64_max \<Longrightarrow> length (prefix d) = 4 \<Longrightarrow> length p \<le> MAX_PLAINTEXT \<Longrightarrow> \<exists>c d'. seal C d p = (Inr c, d')"
  by (auto simp: seal_Inr aead_total_def record_consts)

lemma w_send_record_Inr:
  assumes "aead_ok C"
  shows "w_send_record C w p = (Inr (), w') \<longleftrightarrow>
     length p \<le> MAX_PLAINTEXT \<and> (\<exists>c d. seal C (w_send w) p = (Inr c, d) \<and>
        w' = w\<lparr> w_send := d, w_inner := w_inner w @ frame_of c \<rparr>)"
proof -
  obtain r d where s: "seal C (w_send w) p = (r, d)" by (meson surj_pair)
  show ?thesis
    using seal_length [OF assms, of "w_send w" p _ d] s
    by (cases r) (auto simp: w_send_record_def w_seal_and_write_def write_frame_def record_consts)
qed

lemma recv_sent:
  assumes "aead_ok C" "seal C d p = (Inr c, d')" "length p \<le> MAX_PLAINTEXT"
    and "r_recv r = d" "r_inner r = frame_of c @ rest"
  shows "r_recv_record C r = (Inr p, r\<lparr> r_inner := rest, r_recv := d' \<rparr>)"
proof -
  have "length c \<le> min (MAX_PLAINTEXT + TAG_LEN + 64) MAX_FRAME"
    using seal_length [OF assms(1,2)] assms(3) by (simp add: record_consts)
  then show ?thesis
    using read_frame_frame_of [of c "MAX_PLAINTEXT + TAG_LEN + 64" rest] open_seal [OF assms(1,2)] assms(3-5)
    by (simp add: r_recv_record_def)
qed

subsection \<open>Sequences of records\<close>

fun send_all :: "'a aead_crates_scheme \<Rightarrow> cspq_writer \<Rightarrow> bytes list \<Rightarrow> unit tresult \<times> cspq_writer" where
  "send_all C w [] = (Inr (), w)"
| "send_all C w (p # ps) =
     (case w_send_record C w p of (Inl e, w') \<Rightarrow> (Inl e, w') | (Inr _, w') \<Rightarrow> send_all C w' ps)"

fun recv_n :: "'a aead_crates_scheme \<Rightarrow> cspq_reader \<Rightarrow> nat \<Rightarrow> bytes list tresult \<times> cspq_reader" where
  "recv_n C r 0 = (Inr [], r)"
| "recv_n C r (Suc n) =
     (case r_recv_record C r of
        (Inl e, r') \<Rightarrow> (Inl e, r')
      | (Inr p, r') \<Rightarrow> (case recv_n C r' n of (q, r'') \<Rightarrow> (and_then q (\<lambda>ps. Inr (p # ps)), r'')))"

lemma send_all_recv_n:
  assumes ok: "aead_ok C"
  shows "send_all C w ps = (Inr (), w') \<Longrightarrow>
    \<exists>sent. w_inner w' = w_inner w @ sent \<and>
      (\<forall>r rest. r_recv r = w_send w \<and> r_inner r = sent @ rest \<longrightarrow>
         recv_n C r (length ps) = (Inr ps, r\<lparr> r_inner := rest, r_recv := w_send w' \<rparr>))"
proof (induction ps arbitrary: w)
  case Nil
  then show ?case by auto
next
  case (Cons p ps)
  obtain w1 where s1: "w_send_record C w p = (Inr (), w1)" and s2: "send_all C w1 ps = (Inr (), w')"
    using Cons.prems by (auto split: prod.splits sum.splits)
  obtain c d where len: "length p \<le> MAX_PLAINTEXT" and c: "seal C (w_send w) p = (Inr c, d)"
    and w1: "w1 = w\<lparr> w_send := d, w_inner := w_inner w @ frame_of c \<rparr>"
    using s1 unfolding w_send_record_Inr [OF ok] by blast
  obtain sent where sent: "w_inner w' = w_inner w1 @ sent"
    and IH: "\<And>r rest. r_recv r = w_send w1 \<and> r_inner r = sent @ rest \<Longrightarrow>
         recv_n C r (length ps) = (Inr ps, r\<lparr> r_inner := rest, r_recv := w_send w' \<rparr>)"
    using Cons.IH [OF s2] by blast
  have "recv_n C r (length (p # ps)) = (Inr (p # ps), r\<lparr> r_inner := rest, r_recv := w_send w' \<rparr>)"
    if "r_recv r = w_send w \<and> r_inner r = (frame_of c @ sent) @ rest" for r rest
    using recv_sent [OF ok c len, of r "sent @ rest"] that w1
      IH [of "r\<lparr> r_inner := sent @ rest, r_recv := d \<rparr>" rest] by simp
  then show ?case using sent w1 by (intro exI [of _ "frame_of c @ sent"]) simp
qed

lemma send_all_total:
  assumes ok: "aead_ok C" "aead_total C"
  shows "unat (counter (w_send w)) + length ps < 2 ^ 64 \<Longrightarrow> length (prefix (w_send w)) = 4 \<Longrightarrow> list_all (\<lambda>p. length p \<le> MAX_PLAINTEXT) ps \<Longrightarrow>
         \<exists>w'. send_all C w ps = (Inr (), w')"
proof (induction ps arbitrary: w)
  case (Cons p ps)
  have nm: "counter (w_send w) \<noteq> u64_max" using Cons.prems(1) unat_u64_max by auto
  then obtain c d where s: "seal C (w_send w) p = (Inr c, d)"
    using seal_total [OF ok(2) _ Cons.prems(2)] Cons.prems(3) by fastforce
  have d: "unat (counter d) = Suc (unat (counter (w_send w)))" "prefix d = prefix (w_send w)"
    using s counter_step [OF nm] by (simp_all add: seal_Inr)
  let ?w = "w\<lparr> w_send := d, w_inner := w_inner w @ frame_of c \<rparr>"
  have "w_send_record C w p = (Inr (), ?w)"
    unfolding w_send_record_Inr [OF ok(1)] using s Cons.prems(3) by simp
  then show ?case using Cons.IH [of ?w] Cons.prems d by simp
qed simp

lemma replay_rejected:
  assumes "aead_nonce_bound C" "seal C d p = (Inr c, d')" "ds_key e = ds_key d" "prefix e = prefix d"
    and "counter e \<noteq> counter d"
  shows "isl (fst (open_ct C e c))"
proof -
  have "be_bytes 8 (unat (counter e)) \<noteq> be_bytes 8 (unat (counter d))"
  proof
    assume eq: "be_bytes 8 (unat (counter e)) = be_bytes 8 (unat (counter d))"
    have "unat (counter e) < 256 ^ 8" "unat (counter d) < 256 ^ 8"
      using unsigned_less [of "counter e"] unsigned_less [of "counter d"] by simp_all
    then have "unat (counter e) = unat (counter d)" using be_bytes_inj eq by blast
    then show False using assms(5) by (metis word_eq_iff_unsigned)
  qed
  then have "aead_decrypt C (ds_key e) (prefix e @ be_bytes 8 (unat (counter e))) c = None"
    using assms unfolding seal_Inr aead_nonce_bound_def by (metis append_same_eq same_append_eq)
  then show ?thesis
    by (cases "counter e = u64_max") (simp_all add: open_ct_def next_nonce_ok next_nonce_overflow)
qed

end
