(* ===== verification/Handshake.thy ===== *)
theory Handshake
  imports Record_Layer
begin

text \<open>
  The CSPQ-Transport-v1 handshake (\<open>qtransport-cspq/src/handshake.rs\<close>): identities, the peer
  allow-list, the key schedule and the two sides of the three-message exchange.

  ML-KEM-1024 and HKDF are parameters. Each side is a function of the bytes it receives; it
  returns its result and the bytes it has sent when it stops.
\<close>

record hs_crates = aead_crates +
  kem_keygen :: "nat \<Rightarrow> (bytes \<times> bytes) option"
  kem_ek_parses :: "bytes \<Rightarrow> bool"
  kem_encaps :: "nat \<Rightarrow> bytes \<Rightarrow> (bytes \<times> bytes) option"
  kem_ct_parses :: "bytes \<Rightarrow> bool"
  kem_decaps :: "bytes \<Rightarrow> bytes \<Rightarrow> bytes option"
  hkdf_expand :: "bytes \<Rightarrow> bytes \<Rightarrow> bytes \<Rightarrow> bytes option"

abbreviation EK_LEN :: nat where "EK_LEN \<equiv> 1568"
abbreviation CT_LEN :: nat where "CT_LEN \<equiv> 1568"

text \<open>
  FIPS 203: generated keys and ciphertexts have the fixed lengths and parse, and
  decapsulation with the matching key gives the encapsulated secret. HKDF with SHA3-256
  yields the 64 bytes asked for.
\<close>

definition kem_ok :: "'a hs_crates_scheme \<Rightarrow> bool" where
  "kem_ok C \<longleftrightarrow>
     (\<forall>e ek dk. kem_keygen C e = Some (ek, dk) \<longrightarrow>
        length ek = EK_LEN \<and> kem_ek_parses C ek \<and>
        (\<forall>e' ss ct. kem_encaps C e' ek = Some (ss, ct) \<longrightarrow>
           length ct = CT_LEN \<and> kem_ct_parses C ct \<and> kem_decaps C dk ct = Some ss))"

definition hkdf_ok :: "'a hs_crates_scheme \<Rightarrow> bool" where
  "hkdf_ok C \<longleftrightarrow> (\<forall>salt ikm info. \<exists>okm. hkdf_expand C salt ikm info = Some okm \<and> length okm = 64)"

definition T_SUITE_ID :: u16 where "T_SUITE_ID = 1"
definition IDENTITY_FILE_MAGIC :: bytes where "IDENTITY_FILE_MAGIC = ascii ''CSPQID01''"
definition MSG_CLIENT_HELLO :: u8 where "MSG_CLIENT_HELLO = 1"
definition MSG_SERVER_HELLO :: u8 where "MSG_SERVER_HELLO = 2"
definition MSG_CLIENT_FINISH :: u8 where "MSG_CLIENT_FINISH = 3"

lemmas msg_types = MSG_CLIENT_HELLO_def MSG_SERVER_HELLO_def MSG_CLIENT_FINISH_def

subsection \<open>Identities and policies\<close>

text \<open>\<open>From<qaudit_core::Error>\<close>: the message of the audit error becomes an \<open>MlDsa\<close> error.\<close>

definition from_audit :: "'a result \<Rightarrow> 'a tresult" where
  "from_audit r = map_err (\<lambda>e. MlDsa ''ml-dsa'') r"

definition IdentityKey_generate :: "'a crates_scheme \<Rightarrow> nat \<Rightarrow> keypair tresult" where
  "IdentityKey_generate C e = from_audit (KeyPair_generate C e)"

definition save_public :: "keypair \<Rightarrow> bytes" where
  "save_public kp = IDENTITY_FILE_MAGIC @ kp_pk kp"

definition load_public :: "bytes \<Rightarrow> public_key tresult" where
  "load_public blob =
     (if length blob \<noteq> 8 + PUBLIC_KEY_LEN then Inl (Identity ''file has invalid length'')
      else if take 8 blob \<noteq> IDENTITY_FILE_MAGIC then Inl (Identity ''bad magic'')
      else from_audit (PublicKey_from_bytes (take PUBLIC_KEY_LEN (drop 8 blob))))"

definition id_sign :: "'a crates_scheme \<Rightarrow> keypair \<Rightarrow> nat \<Rightarrow> bytes \<Rightarrow> signature tresult" where
  "id_sign C kp e msg = from_audit (KeyPair_sign C kp e msg)"

type_synonym peer_policy = "bytes set"

definition from_keys :: "public_key list \<Rightarrow> peer_policy" where
  "from_keys keys = set keys"

definition single :: "public_key \<Rightarrow> peer_policy" where
  "single pk = from_keys [pk]"

text \<open>\<open>from_dir\<close>: a directory is the list of its file names with their contents.\<close>

definition from_dir :: "(string \<times> bytes) list \<Rightarrow> peer_policy tresult" where
  "from_dir files =
     and_then (try_map (\<lambda>(name, blob). load_public blob)
        (filter (\<lambda>(name, blob). ends_with ''.cspqid.pub'' name) files))
       (\<lambda>keys. Inr (from_keys keys))"

definition accepts :: "peer_policy \<Rightarrow> public_key \<Rightarrow> bool" where
  "accepts pol pk \<longleftrightarrow> pk \<in> pol"

definition policy_is_empty :: "peer_policy \<Rightarrow> bool" where
  "policy_is_empty pol \<longleftrightarrow> pol = {}"

subsection \<open>Key schedule\<close>

definition transcript :: "'a crates_scheme \<Rightarrow> u16 \<Rightarrow> bytes \<Rightarrow> bytes \<Rightarrow> bytes \<Rightarrow> bytes \<Rightarrow> bytes" where
  "transcript C suite client_kem_pk server_kem_ct server_id_pk client_id_pk =
     blake3 C (be_bytes 2 (unat suite) @ client_kem_pk @ server_kem_ct @ server_id_pk @ client_id_pk)"

definition server_transcript :: "'a crates_scheme \<Rightarrow> u16 \<Rightarrow> bytes \<Rightarrow> bytes \<Rightarrow> bytes \<Rightarrow> bytes" where
  "server_transcript C suite client_kem_pk ct server_id_pk =
     blake3 C (be_bytes 2 (unat suite) @ client_kem_pk @ ct @ server_id_pk)"

definition derive_keys :: "'a hs_crates_scheme \<Rightarrow> bytes \<Rightarrow> bytes \<Rightarrow> directional_keys tresult" where
  "derive_keys C shared tr =
     (case hkdf_expand C (ascii ''cspq-transport-v1'') shared tr of
        None \<Rightarrow> Inl (TPanic ''HKDF expand 64 bytes never fails for SHA3-256'')
      | Some keys \<Rightarrow> Inr \<lparr> key_c2s = take 32 keys, key_s2c = drop 32 keys \<rparr>)"

subsection \<open>The server side\<close>

text \<open>What the server knows after \<open>CLIENT_HELLO\<close>: the frame it sends and the exchange so far.\<close>

record server_exchange =
  x_suite :: u16
  x_kem_pk :: bytes
  x_ct :: bytes
  x_shared :: bytes
  x_frame :: bytes
  x_rest :: bytes

definition accept_hello :: "'a hs_crates_scheme \<Rightarrow> nat \<Rightarrow> keypair \<Rightarrow> bytes \<Rightarrow> server_exchange tresult" where
  "accept_hello C e ident input =
     and_then (read_frame input 4096) (\<lambda>(ch, rest).
     and_then (ensure (length ch = 1 + 2 + EK_LEN) (Protocol ''CLIENT_HELLO size'')) (\<lambda>_.
     and_then (ensure (hd ch = MSG_CLIENT_HELLO) (Protocol ''bad msg_type'')) (\<lambda>_.
     let suite = of_nat (from_be_bytes (take 2 (drop 1 ch))); kem_pk = drop 3 ch in
     and_then (ensure (suite = T_SUITE_ID) (UnsupportedSuite suite)) (\<lambda>_.
     and_then (ensure (kem_ek_parses C kem_pk) (Crypto ''ML-KEM-1024 EK parse'')) (\<lambda>_.
     and_then (ok_or (Crypto ''ML-KEM-1024 encaps'') (kem_encaps C e kem_pk)) (\<lambda>(shared, ct).
     and_then (id_sign C ident e (server_transcript C suite kem_pk ct (kp_pk ident))) (\<lambda>sig.
     and_then (write_frame ([MSG_SERVER_HELLO] @ ct @ kp_pk ident @ sig)) (\<lambda>frame.
     Inr \<lparr> x_suite = suite, x_kem_pk = kem_pk, x_ct = ct, x_shared = shared, x_frame = frame, x_rest = rest \<rparr>))))))))"

definition accept_finish :: "'a hs_crates_scheme \<Rightarrow> keypair \<Rightarrow> peer_policy \<Rightarrow> server_exchange \<Rightarrow> cspq_stream tresult" where
  "accept_finish C ident policy x =
     and_then (read_frame (x_rest x) (16 * 1024)) (\<lambda>(cf, rest).
     and_then (ensure (length cf = 1 + PUBLIC_KEY_LEN + SIGNATURE_LEN) (Protocol ''CLIENT_FINISH size'')) (\<lambda>_.
     and_then (ensure (hd cf = MSG_CLIENT_FINISH) (Protocol ''bad msg_type in CLIENT_FINISH'')) (\<lambda>_.
     and_then (from_audit (PublicKey_from_bytes (take PUBLIC_KEY_LEN (drop 1 cf)))) (\<lambda>client_id_pk.
     and_then (from_audit (Signature_from_bytes (drop (1 + PUBLIC_KEY_LEN) cf))) (\<lambda>client_sig.
     and_then (ensure (accepts policy client_id_pk) (UntrustedPeer (hex_encode C (take 16 client_id_pk)))) (\<lambda>_.
     let tr = transcript C (x_suite x) (x_kem_pk x) (x_ct x) (kp_pk ident) client_id_pk in
     and_then (map_err (\<lambda>_. Crypto ''client signature verify failed'') (verify_sig C client_id_pk tr client_sig 0)) (\<lambda>_.
     and_then (derive_keys C (x_shared x) tr) (\<lambda>keys.
     Inr (new_server rest (x_frame x) keys client_id_pk)))))))))"

definition accept :: "'a hs_crates_scheme \<Rightarrow> nat \<Rightarrow> keypair \<Rightarrow> peer_policy \<Rightarrow> bytes \<Rightarrow> cspq_stream tresult \<times> bytes" where
  "accept C e ident policy input =
     (if policy_is_empty policy
      then (Inl (Protocol ''server peer policy is empty; refusing to accept any client''), [])
      else case accept_hello C e ident input of
             Inl err \<Rightarrow> (Inl err, [])
           | Inr x \<Rightarrow> (accept_finish C ident policy x, x_frame x))"

subsection \<open>The client side\<close>

definition connect_hello :: "'a hs_crates_scheme \<Rightarrow> nat \<Rightarrow> (bytes \<times> bytes \<times> bytes) tresult" where
  "connect_hello C e =
     and_then (ok_or (Crypto ''ML-KEM-1024 keygen'') (kem_keygen C e)) (\<lambda>(kem_pk, kem_sk).
     and_then (write_frame ([MSG_CLIENT_HELLO] @ be_bytes 2 (unat T_SUITE_ID) @ kem_pk)) (\<lambda>frame.
     Inr (frame, kem_pk, kem_sk)))"

text \<open>From \<open>SERVER_HELLO\<close> on: the frame of \<open>CLIENT_FINISH\<close> and the finished stream.\<close>

definition connect_finish :: "'a hs_crates_scheme \<Rightarrow> nat \<Rightarrow> keypair \<Rightarrow> peer_policy \<Rightarrow> bytes \<Rightarrow> bytes \<Rightarrow> bytes \<Rightarrow> (bytes \<times> directional_keys tresult \<times> public_key \<times> bytes) tresult" where
  "connect_finish C e ident policy kem_pk kem_sk input =
     and_then (read_frame input (16 * 1024)) (\<lambda>(sh, rest).
     and_then (ensure (length sh = 1 + CT_LEN + PUBLIC_KEY_LEN + SIGNATURE_LEN) (Protocol ''SERVER_HELLO size'')) (\<lambda>_.
     and_then (ensure (hd sh = MSG_SERVER_HELLO) (Protocol ''bad msg_type in SERVER_HELLO'')) (\<lambda>_.
     let ct = take CT_LEN (drop 1 sh) in
     and_then (from_audit (PublicKey_from_bytes (take PUBLIC_KEY_LEN (drop (1 + CT_LEN) sh)))) (\<lambda>server_id_pk.
     and_then (from_audit (Signature_from_bytes (drop (1 + CT_LEN + PUBLIC_KEY_LEN) sh))) (\<lambda>server_sig.
     and_then (ensure (accepts policy server_id_pk) (UntrustedPeer (hex_encode C (take 16 server_id_pk)))) (\<lambda>_.
     and_then (map_err (\<lambda>_. Crypto ''server signature verify failed'')
        (verify_sig C server_id_pk (server_transcript C T_SUITE_ID kem_pk ct server_id_pk) server_sig 0)) (\<lambda>_.
     and_then (ensure (kem_ct_parses C ct) (Crypto ''ML-KEM-1024 CT parse'')) (\<lambda>_.
     and_then (ok_or (Crypto ''ML-KEM-1024 decaps'') (kem_decaps C kem_sk ct)) (\<lambda>shared.
     let tr = transcript C T_SUITE_ID kem_pk ct server_id_pk (kp_pk ident) in
     and_then (id_sign C ident e tr) (\<lambda>client_sig.
     and_then (write_frame ([MSG_CLIENT_FINISH] @ kp_pk ident @ client_sig)) (\<lambda>frame.
     Inr (frame, derive_keys C shared tr, server_id_pk, rest))))))))))))"

definition connect :: "'a hs_crates_scheme \<Rightarrow> nat \<Rightarrow> keypair \<Rightarrow> peer_policy \<Rightarrow> bytes \<Rightarrow> cspq_stream tresult \<times> bytes" where
  "connect C e ident policy input =
     (if policy_is_empty policy
      then (Inl (Protocol ''client server_policy is empty; refusing to dial any server''), [])
      else case connect_hello C e of
             Inl err \<Rightarrow> (Inl err, [])
           | Inr (ch, kem_pk, kem_sk) \<Rightarrow>
               (case connect_finish C e ident policy kem_pk kem_sk input of
                  Inl err \<Rightarrow> (Inl err, ch)
                | Inr (cf, keys, server_id_pk, rest) \<Rightarrow>
                    (and_then keys (\<lambda>ks. Inr (new_client rest (ch @ cf) ks server_id_pk)), ch @ cf)))"

subsection \<open>An honest exchange\<close>

text \<open>An identity that signs everything and whose signatures verify under its public key.\<close>

definition identity_works :: "'a crates_scheme \<Rightarrow> keypair \<Rightarrow> bool" where
  "identity_works C kp \<longleftrightarrow> keypair_good C kp \<and> length (kp_pk kp) = PUBLIC_KEY_LEN \<and>
     (\<forall>e m. is_ok (KeyPair_sign C kp e m))"

lemma identity_sign:
  assumes "identity_works C kp"
  obtains sig where "id_sign C kp e m = Inr sig" "length sig = SIGNATURE_LEN" "verify_sig C (kp_pk kp) m sig i = Inr ()"
proof -
  obtain sig where s: "KeyPair_sign C kp e m = Inr sig" using assms by (auto simp: identity_works_def res_simps)
  moreover have "verify_sig C (kp_pk kp) m sig i = Inr ()"
    using assms by (intro KeyPair_sign_verifies [OF _ s]) (simp add: identity_works_def)
  moreover from this have "length sig = SIGNATURE_LEN" by (simp add: res_simps)
  ultimately show ?thesis using that by (simp add: id_sign_def from_audit_def)
qed

lemma from_audit_Inr [res_simps]: "from_audit r = Inr x \<longleftrightarrow> r = Inr x"
  by (simp add: from_audit_def res_simps)

lemma from_audit_simp [simp]: "from_audit (Inr x) = Inr x"
  by (simp add: from_audit_def)

definition client_hello_of :: "bytes \<Rightarrow> bytes" where
  "client_hello_of ek = frame_of ([MSG_CLIENT_HELLO] @ be_bytes 2 (unat T_SUITE_ID) @ ek)"

definition server_hello_of :: "bytes \<Rightarrow> bytes \<Rightarrow> bytes \<Rightarrow> bytes" where
  "server_hello_of ct pk sig = frame_of ([MSG_SERVER_HELLO] @ ct @ pk @ sig)"

definition client_finish_of :: "bytes \<Rightarrow> bytes \<Rightarrow> bytes" where
  "client_finish_of pk sig = frame_of ([MSG_CLIENT_FINISH] @ pk @ sig)"

lemma derive_keys_ok:
  "hkdf_ok C \<Longrightarrow> \<exists>okm. derive_keys C ss tr = Inr \<lparr> key_c2s = take 32 okm, key_s2c = drop 32 okm \<rparr>"
  unfolding hkdf_ok_def
  by (drule spec [of _ "ascii ''cspq-transport-v1''"], drule spec [of _ ss], drule spec [of _ tr])
     (auto simp: derive_keys_def)

lemma connect_hello_ok:
  assumes "kem_keygen C e = Some (ek, dk)" "length ek = EK_LEN"
  shows "connect_hello C e = Inr (client_hello_of ek, ek, dk)"
  using assms by (simp add: connect_hello_def write_frame_def client_hello_of_def MAX_FRAME_def)

lemma accept_hello_ok:
  assumes "length ek = EK_LEN" "kem_ek_parses C ek" "kem_encaps C e ek = Some (ss, ct)" "length ct = CT_LEN"
    and "length (kp_pk ident) = PUBLIC_KEY_LEN"
    and "id_sign C ident e (server_transcript C T_SUITE_ID ek ct (kp_pk ident)) = Inr sig" "length sig = SIGNATURE_LEN"
  shows "accept_hello C e ident (client_hello_of ek @ rest) =
     Inr \<lparr> x_suite = T_SUITE_ID, x_kem_pk = ek, x_ct = ct, x_shared = ss,
           x_frame = server_hello_of ct (kp_pk ident) sig, x_rest = rest \<rparr>"
proof -
  let ?ch = "[MSG_CLIENT_HELLO] @ be_bytes 2 (unat T_SUITE_ID) @ ek"
  have r: "read_frame (client_hello_of ek @ rest) 4096 = Inr (?ch, rest)"
    unfolding client_hello_of_def by (rule read_frame_frame_of) (use assms(1) in \<open>simp add: MAX_FRAME_def\<close>)
  have su: "of_nat (from_be_bytes (be_bytes 2 (unat T_SUITE_ID))) = T_SUITE_ID"
    by (simp add: from_be_bytes_be_bytes T_SUITE_ID_def)
  have w: "write_frame ([MSG_SERVER_HELLO] @ ct @ kp_pk ident @ sig) = Inr (server_hello_of ct (kp_pk ident) sig)"
    using assms(4,5,7) by (simp add: write_frame_def server_hello_of_def MAX_FRAME_def key_lens)
  show ?thesis
    unfolding accept_hello_def r using assms su w by (simp add: numeral_3_eq_3)
qed

lemma connect_finish_ok:
  assumes "length ct = CT_LEN" "length spk = PUBLIC_KEY_LEN" "length ssig = SIGNATURE_LEN" "accepts policy spk"
    and "verify_sig C spk (server_transcript C T_SUITE_ID ek ct spk) ssig 0 = Inr ()"
    and "kem_ct_parses C ct" "kem_decaps C dk ct = Some ss" "length (kp_pk ident) = PUBLIC_KEY_LEN"
    and "id_sign C ident e (transcript C T_SUITE_ID ek ct spk (kp_pk ident)) = Inr sig" "length sig = SIGNATURE_LEN"
  shows "connect_finish C e ident policy ek dk (server_hello_of ct spk ssig @ rest) =
     Inr (client_finish_of (kp_pk ident) sig, derive_keys C ss (transcript C T_SUITE_ID ek ct spk (kp_pk ident)), spk, rest)"
proof -
  let ?sh = "[MSG_SERVER_HELLO] @ ct @ spk @ ssig"
  have r: "read_frame (server_hello_of ct spk ssig @ rest) (16 * 1024) = Inr (?sh, rest)"
    unfolding server_hello_of_def by (rule read_frame_frame_of) (use assms(1-3) in \<open>simp add: MAX_FRAME_def key_lens\<close>)
  have w: "write_frame ([MSG_CLIENT_FINISH] @ kp_pk ident @ sig) = Inr (client_finish_of (kp_pk ident) sig)"
    using assms(8,10) by (simp add: write_frame_def client_finish_of_def MAX_FRAME_def key_lens)
  have d: "drop (1 + CT_LEN + PUBLIC_KEY_LEN) ?sh = ssig" using assms(1,2) by (simp add: numeral_eq_Suc)
  show ?thesis
    unfolding connect_finish_def r
    using assms w d by (simp add: PublicKey_from_bytes_def Signature_from_bytes_def)
qed

lemma accept_finish_ok:
  assumes "length cpk = PUBLIC_KEY_LEN" "length csig = SIGNATURE_LEN" "accepts policy cpk"
    and "verify_sig C cpk (transcript C (x_suite x) (x_kem_pk x) (x_ct x) (kp_pk ident) cpk) csig 0 = Inr ()"
    and "x_rest x = client_finish_of cpk csig @ rest"
  shows "accept_finish C ident policy x =
     and_then (derive_keys C (x_shared x) (transcript C (x_suite x) (x_kem_pk x) (x_ct x) (kp_pk ident) cpk))
       (\<lambda>keys. Inr (new_server rest (x_frame x) keys cpk))"
proof -
  let ?cf = "[MSG_CLIENT_FINISH] @ cpk @ csig"
  have r: "read_frame (x_rest x) (16 * 1024) = Inr (?cf, rest)"
    unfolding assms(5) client_finish_of_def
    by (rule read_frame_frame_of) (use assms(1,2) in \<open>simp add: MAX_FRAME_def key_lens\<close>)
  show ?thesis
    unfolding accept_finish_def r
    using assms(1-4) by (simp add: PublicKey_from_bytes_def Signature_from_bytes_def)
qed

lemma honest_handshake:
  assumes kem: "kem_ok C" "hkdf_ok C" and c: "identity_works C cid" and s: "identity_works C sid"
    and kg: "kem_keygen C ce = Some (ek, dk)" and en: "kem_encaps C se ek = Some (ss, ct)"
    and pc: "accepts cpol (kp_pk sid)" and ps: "accepts spol (kp_pk cid)"
  shows "\<exists>out_c out_s cs st. connect C ce cid cpol out_s = (Inr cs, out_c) \<and> accept C se sid spol out_c = (Inr st, out_s) \<and>
     send cs = recv st \<and> recv cs = send st \<and> peer_id cs = kp_pk sid \<and> peer_id st = kp_pk cid \<and>
     in_bytes cs = [] \<and> in_bytes st = []"
proof -
  have ek: "length ek = EK_LEN" "kem_ek_parses C ek" and ct: "length ct = CT_LEN" "kem_ct_parses C ct" "kem_decaps C dk ct = Some ss"
    using kem(1) kg en unfolding kem_ok_def by blast+
  obtain ssig where ssig: "id_sign C sid se (server_transcript C T_SUITE_ID ek ct (kp_pk sid)) = Inr ssig"
      "length ssig = SIGNATURE_LEN" "verify_sig C (kp_pk sid) (server_transcript C T_SUITE_ID ek ct (kp_pk sid)) ssig 0 = Inr ()"
    using identity_sign [OF s] by blast
  define tr where "tr = transcript C T_SUITE_ID ek ct (kp_pk sid) (kp_pk cid)"
  obtain csig where csig: "id_sign C cid ce tr = Inr csig" "length csig = SIGNATURE_LEN" "verify_sig C (kp_pk cid) tr csig 0 = Inr ()"
    using identity_sign [OF c] by blast
  obtain okm where okm: "derive_keys C ss tr = Inr \<lparr> key_c2s = take 32 okm, key_s2c = drop 32 okm \<rparr>"
    using kem(2) derive_keys_ok by blast
  define sh cf where "sh = server_hello_of ct (kp_pk sid) ssig" and "cf = client_finish_of (kp_pk cid) csig"
  have lens: "length (kp_pk sid) = PUBLIC_KEY_LEN" "length (kp_pk cid) = PUBLIC_KEY_LEN"
    using c s by (simp_all add: identity_works_def)
  have pol: "\<not> policy_is_empty cpol" "\<not> policy_is_empty spol" using pc ps by (auto simp: accepts_def policy_is_empty_def)
  have ca: "connect_finish C ce cid cpol ek dk sh = Inr (cf, derive_keys C ss tr, kp_pk sid, [])"
    using connect_finish_ok [OF ct(1) lens(1) ssig(2) pc ssig(3) ct(2,3) lens(2), of ce csig "[]"] csig
    by (simp add: sh_def cf_def tr_def)
  define x where "x = \<lparr> x_suite = T_SUITE_ID, x_kem_pk = ek, x_ct = ct, x_shared = ss, x_frame = sh, x_rest = cf \<rparr>"
  have ha: "accept_hello C se sid (client_hello_of ek @ cf) = Inr x"
    using accept_hello_ok [OF ek en ct(1) lens(1) ssig(1,2)] by (simp add: sh_def x_def)
  have fa: "accept_finish C sid spol x = Inr (new_server [] sh \<lparr> key_c2s = take 32 okm, key_s2c = drop 32 okm \<rparr> (kp_pk cid))"
    using accept_finish_ok [OF lens(2) csig(2) ps, of C x sid "[]"] csig(3) okm by (simp add: x_def tr_def cf_def)
  let ?k = "\<lparr> key_c2s = take 32 okm, key_s2c = drop 32 okm \<rparr>"
  have "connect C ce cid cpol sh = (Inr (new_client [] (client_hello_of ek @ cf) ?k (kp_pk sid)), client_hello_of ek @ cf)"
    using pol(1) connect_hello_ok [OF kg ek(1)] ca okm by (simp add: connect_def)
  moreover have "accept C se sid spol (client_hello_of ek @ cf) = (Inr (new_server [] sh ?k (kp_pk cid)), sh)"
    using pol(2) ha fa by (simp add: accept_def x_def)
  ultimately show ?thesis by (intro exI conjI) (assumption, assumption, simp_all add: new_client_def new_server_def)
qed

subsection \<open>What an accepted exchange contains\<close>

lemma accept_hello_shape:
  assumes "accept_hello C e ident input = Inr x"
  shows "x_suite x = T_SUITE_ID" "input = client_hello_of (x_kem_pk x) @ x_rest x"
    "\<exists>sig. x_frame x = server_hello_of (x_ct x) (kp_pk ident) sig"
proof -
  obtain ch rest ss ct sig frame where r: "read_frame input 4096 = Inr (ch, rest)" and len: "length ch = 1 + 2 + EK_LEN"
    and h: "hd ch = MSG_CLIENT_HELLO" and su: "(of_nat (from_be_bytes (take 2 (drop 1 ch))) :: u16) = T_SUITE_ID"
    and w: "write_frame ([MSG_SERVER_HELLO] @ ct @ kp_pk ident @ sig) = Inr frame"
    and x: "x = \<lparr> x_suite = T_SUITE_ID, x_kem_pk = drop 3 ch, x_ct = ct, x_shared = ss, x_frame = frame, x_rest = rest \<rparr>"
    using assms by (auto simp: accept_hello_def res_simps Let_def)
  show "x_suite x = T_SUITE_ID" using x by simp
  have fb: "from_be_bytes (take 2 (drop 1 ch)) < 256 ^ 2"
    using from_be_bytes_bound [of "take 2 (drop 1 ch)"] len by simp
  have "unat (of_nat (from_be_bytes (take 2 (drop 1 ch))) :: u16) = from_be_bytes (take 2 (drop 1 ch))"
    using fb by (simp add: unat_of_nat)
  then have "be_bytes 2 (unat T_SUITE_ID) = take 2 (drop 1 ch)"
    using su be_bytes_from_be_bytes [of "take 2 (drop 1 ch)"] len by simp
  moreover have "ch = [hd ch] @ take 2 (drop 1 ch) @ drop 3 ch"
    using len by (cases ch) simp_all
  ultimately have "ch = [MSG_CLIENT_HELLO] @ be_bytes 2 (unat T_SUITE_ID) @ drop 3 ch" using h by simp
  then show "input = client_hello_of (x_kem_pk x) @ x_rest x"
    using read_frame_split [OF r] x by (simp add: client_hello_of_def)
  show "\<exists>sig. x_frame x = server_hello_of (x_ct x) (kp_pk ident) sig"
    using w x by (auto simp: write_frame_def server_hello_of_def split: if_splits)
qed

lemma accept_finish_shape:
  assumes "accept_finish C ident policy x = Inr st"
  shows "accepts policy (peer_id st)"
    "\<exists>sig. x_rest x = client_finish_of (peer_id st) sig @ in_bytes st \<and>
       verify_sig C (peer_id st) (transcript C (x_suite x) (x_kem_pk x) (x_ct x) (kp_pk ident) (peer_id st)) sig 0 = Inr ()"
proof -
  obtain cf rest keys where r: "read_frame (x_rest x) (16 * 1024) = Inr (cf, rest)"
    and len: "length cf = 1 + PUBLIC_KEY_LEN + SIGNATURE_LEN" and h: "hd cf = MSG_CLIENT_FINISH"
    and a: "accepts policy (take PUBLIC_KEY_LEN (drop 1 cf))"
    and v: "verify_sig C (take PUBLIC_KEY_LEN (drop 1 cf))
        (transcript C (x_suite x) (x_kem_pk x) (x_ct x) (kp_pk ident) (take PUBLIC_KEY_LEN (drop 1 cf)))
        (drop (1 + PUBLIC_KEY_LEN) cf) 0 = Inr ()"
    and st: "st = new_server rest (x_frame x) keys (take PUBLIC_KEY_LEN (drop 1 cf))"
    using assms by (auto simp: accept_finish_def res_simps Let_def)
  have "cf = [hd cf] @ drop 1 cf" using len by (cases cf) auto
  then have "cf = [MSG_CLIENT_FINISH] @ take PUBLIC_KEY_LEN (drop 1 cf) @ drop (1 + PUBLIC_KEY_LEN) cf"
    using h append_take_drop_id [of PUBLIC_KEY_LEN "drop 1 cf"] by (simp add: add.commute)
  then have "x_rest x = client_finish_of (take PUBLIC_KEY_LEN (drop 1 cf)) (drop (1 + PUBLIC_KEY_LEN) cf) @ rest"
    using read_frame_split [OF r] by (simp add: client_finish_of_def)
  then show "accepts policy (peer_id st)"
    "\<exists>sig. x_rest x = client_finish_of (peer_id st) sig @ in_bytes st \<and>
       verify_sig C (peer_id st) (transcript C (x_suite x) (x_kem_pk x) (x_ct x) (kp_pk ident) (peer_id st)) sig 0 = Inr ()"
    using a v st by (auto simp: new_server_def)
qed

lemma accept_authenticates:
  assumes "accept C e ident policy input = (Inr st, out)"
  shows "accepts policy (peer_id st) \<and>
    (\<exists>kem_pk ct ssig csig.
       input = client_hello_of kem_pk @ client_finish_of (peer_id st) csig @ in_bytes st \<and>
       out = server_hello_of ct (kp_pk ident) ssig \<and>
       verify_sig C (peer_id st) (transcript C T_SUITE_ID kem_pk ct (kp_pk ident) (peer_id st)) csig 0 = Inr ())"
proof -
  obtain x where h: "accept_hello C e ident input = Inr x" and f: "accept_finish C ident policy x = Inr st" and o: "out = x_frame x"
    using assms by (auto simp: accept_def split: if_splits sum.splits)
  obtain ssig where "x_frame x = server_hello_of (x_ct x) (kp_pk ident) ssig"
    using accept_hello_shape(3) [OF h] by blast
  moreover obtain csig where "x_rest x = client_finish_of (peer_id st) csig @ in_bytes st"
      "verify_sig C (peer_id st) (transcript C (x_suite x) (x_kem_pk x) (x_ct x) (kp_pk ident) (peer_id st)) csig 0 = Inr ()"
    using accept_finish_shape(2) [OF f] by blast
  ultimately show ?thesis
    using accept_hello_shape(1,2) [OF h] accept_finish_shape(1) [OF f] o
    by (intro conjI exI [of _ "x_kem_pk x"] exI [of _ "x_ct x"] exI [of _ ssig] exI [of _ csig]) simp_all
qed

lemma connect_authenticates:
  assumes "connect C e ident policy input = (Inr st, out)"
  shows "accepts policy (peer_id st) \<and>
    (\<exists>ek dk ct ssig. kem_keygen C e = Some (ek, dk) \<and>
       input = server_hello_of ct (peer_id st) ssig @ in_bytes st \<and>
       verify_sig C (peer_id st) (server_transcript C T_SUITE_ID ek ct (peer_id st)) ssig 0 = Inr ())"
proof -
  obtain ch ek dk where h: "connect_hello C e = Inr (ch, ek, dk)"
    using assms by (auto simp: connect_def split: if_splits sum.splits)
  then have kg: "kem_keygen C e = Some (ek, dk)" by (auto simp: connect_hello_def res_simps)
  obtain cf keys spk rest where f: "connect_finish C e ident policy ek dk input = Inr (cf, keys, spk, rest)"
    and st: "peer_id st = spk" "in_bytes st = rest"
    using assms h by (auto simp: connect_def res_simps new_client_def split: if_splits sum.splits)
  obtain sh where r: "read_frame input (16 * 1024) = Inr (sh, rest)"
    and len: "length sh = 1 + CT_LEN + PUBLIC_KEY_LEN + SIGNATURE_LEN" and hd: "hd sh = MSG_SERVER_HELLO"
    and spk: "spk = take PUBLIC_KEY_LEN (drop (1 + CT_LEN) sh)" and a: "accepts policy spk"
    and v: "verify_sig C spk (server_transcript C T_SUITE_ID ek (take CT_LEN (drop 1 sh)) spk)
        (drop (1 + CT_LEN + PUBLIC_KEY_LEN) sh) 0 = Inr ()"
    using f by (auto simp: connect_finish_def res_simps Let_def)
  have "sh = [hd sh] @ drop 1 sh" using len by (cases sh) auto
  moreover have "drop 1 sh = take CT_LEN (drop 1 sh) @ take PUBLIC_KEY_LEN (drop (1 + CT_LEN) sh) @ drop (1 + CT_LEN + PUBLIC_KEY_LEN) sh"
    by (metis append_take_drop_id drop_drop add.commute)
  ultimately have "sh = [MSG_SERVER_HELLO] @ take CT_LEN (drop 1 sh) @ spk @ drop (1 + CT_LEN + PUBLIC_KEY_LEN) sh"
    using hd spk by metis
  then have "input = server_hello_of (take CT_LEN (drop 1 sh)) spk (drop (1 + CT_LEN + PUBLIC_KEY_LEN) sh) @ rest"
    using read_frame_split [OF r] by (simp add: server_hello_of_def)
  then show ?thesis using kg a v st by blast
qed

end
