(* ===== verification/Poll_Machines.thy ===== *)
theory Poll_Machines
  imports Record_Layer
begin

text \<open>
  The \<open>AsyncRead\<close> and \<open>AsyncWrite\<close> state machines of the record layer
  (\<open>qtransport-cspq/src/transport.rs\<close>). The inner byte stream is a script: the list of the
  answers its poll functions will give. A read takes at most what its buffer holds from a
  chunk of data; an exhausted script answers \<open>Pending\<close>; the end of the stream is persistent.
\<close>

datatype 'a poll = Pending | Ready 'a

datatype rd_event = RdPending | RdErr string | RdEof | RdData bytes

datatype read_state =
    RIdle
  | RLen bytes usize
  | RBody bytes usize
  | RDrain bytes usize
  | REof

type_synonym 'a io_poll = "(string + 'a) poll"

definition READ_BODY_HARD_CAP :: usize where
  "READ_BODY_HARD_CAP = MAX_PLAINTEXT + TAG_LEN + 64"

fun inner_read :: "usize \<Rightarrow> rd_event list \<Rightarrow> bytes io_poll \<times> rd_event list" where
  "inner_read cap [] = (Pending, [])"
| "inner_read cap (RdPending # sc) = (Pending, sc)"
| "inner_read cap (RdErr e # sc) = (Ready (Inl e), sc)"
| "inner_read cap (RdEof # sc) = (Ready (Inr []), RdEof # sc)"
| "inner_read cap (RdData b # sc) =
     (Ready (Inr (take cap b)), if length b \<le> cap then sc else RdData (drop cap b) # sc)"

fun ev_weight :: "rd_event \<Rightarrow> nat" where
  "ev_weight (RdData b) = Suc (length b)"
| "ev_weight ev = 1"

definition rd_weight :: "rd_event list \<Rightarrow> nat" where
  "rd_weight sc = sum_list (map ev_weight sc)"

lemma inner_read_weight:
  "inner_read cap sc = (Ready (Inr b), sc') \<Longrightarrow> b \<noteq> [] \<Longrightarrow> rd_weight sc' < rd_weight sc"
  by (induction cap sc rule: inner_read.induct) (auto simp: rd_weight_def split: if_splits)

definition splice :: "bytes \<Rightarrow> usize \<Rightarrow> bytes \<Rightarrow> bytes" where
  "splice buf filled chunk = take filled buf @ chunk @ drop (filled + length chunk) buf"

fun st_rank :: "read_state \<Rightarrow> nat" where
  "st_rank (RDrain pt pos) = 2"
| "st_rank RIdle = 1"
| "st_rank st = 0"

type_synonym read_result = "bytes io_poll \<times> read_state \<times> direction_state \<times> rd_event list"

text \<open>The loop; \<open>cap\<close> is what remains of the caller's buffer, and the bytes put there are the value.\<close>

function (sequential) poll_read_loop :: "'a aead_crates_scheme \<Rightarrow> usize \<Rightarrow> read_state \<Rightarrow> direction_state \<Rightarrow> rd_event list \<Rightarrow> read_result" where
  "poll_read_loop C cap REof d sc = (Ready (Inr []), REof, d, sc)"
| "poll_read_loop C cap (RDrain pt pos) d sc =
     (let remaining = length pt - pos in
      if remaining = 0 then poll_read_loop C cap RIdle d sc
      else if cap = 0 then (Ready (Inr []), RDrain pt pos, d, sc)
      else let to_copy = min remaining cap; pos' = pos + to_copy in
        (Ready (Inr (take to_copy (drop pos pt))), if pos' = length pt then RIdle else RDrain pt pos', d, sc))"
| "poll_read_loop C cap RIdle d sc = poll_read_loop C cap (RLen [0, 0, 0, 0] 0) d sc"
| "poll_read_loop C cap (RLen buf filled) d sc =
     (case inner_read (length buf - filled) sc of
        (Pending, sc') \<Rightarrow> (Pending, RLen buf filled, d, sc')
      | (Ready (Inl e), sc') \<Rightarrow> (Ready (Inl e), REof, d, sc')
      | (Ready (Inr chunk), sc') \<Rightarrow>
          if chunk = [] then (Ready (Inl ''CSPQ transport closed without an authenticated EOF marker''), REof, d, sc')
          else let buf' = splice buf filled chunk; filled' = filled + length chunk in
            if filled' < 4 then poll_read_loop C cap (RLen buf' filled') d sc'
            else let ct_len = from_be_bytes buf' in
              if ct_len = 0 then (Ready (Inl ''CSPQ frame body is empty (missing AEAD tag)''), REof, d, sc')
              else if ct_len > READ_BODY_HARD_CAP then (Ready (Inl ''CSPQ frame too large''), REof, d, sc')
              else poll_read_loop C cap (RBody (replicate ct_len 0) 0) d sc')"
| "poll_read_loop C cap (RBody ct filled) d sc =
     (case inner_read (length ct - filled) sc of
        (Pending, sc') \<Rightarrow> (Pending, RBody ct filled, d, sc')
      | (Ready (Inl e), sc') \<Rightarrow> (Ready (Inl e), REof, d, sc')
      | (Ready (Inr chunk), sc') \<Rightarrow>
          if chunk = [] then (Ready (Inl ''EOF while reading CSPQ frame body''), REof, d, sc')
          else let ct' = splice ct filled chunk; filled' = filled + length chunk in
            if filled' < length ct then poll_read_loop C cap (RBody ct' filled') d sc'
            else case open_ct C d ct' of
                   (Inl e, d') \<Rightarrow> (Ready (Inl ''CSPQ open failed''), REof, d', sc')
                 | (Inr pt, d') \<Rightarrow>
                     if pt = [] then (Ready (Inr []), REof, d', sc')
                     else if length pt > MAX_PLAINTEXT then (Ready (Inl ''CSPQ plaintext too large''), REof, d', sc')
                     else poll_read_loop C cap (RDrain pt 0) d' sc')"
  by pat_completeness auto
termination
  by (relation "measures [\<lambda>(C, cap, st, d, sc). rd_weight sc, \<lambda>(C, cap, st, d, sc). st_rank st]")
     (auto dest: inner_read_weight sym)

declare poll_read_loop.simps [simp del]

definition poll_read_machine :: "'a aead_crates_scheme \<Rightarrow> usize \<Rightarrow> read_state \<Rightarrow> direction_state \<Rightarrow> rd_event list \<Rightarrow> read_result" where
  "poll_read_machine C cap st d sc =
     (if cap = 0 then (Ready (Inr []), st, d, sc) else poll_read_loop C cap st d sc)"

subsection \<open>The write machines\<close>

datatype wr_event = WrPending | WrErr string | WrOk nat

datatype shutdown_stage =
    SendEofFrame bytes usize
  | FlushInner
  | ShutdownInner

datatype write_state =
    WIdle
  | Writing bytes usize usize
  | Closed
  | ShuttingDown shutdown_stage

datatype loop_end = LPending | LErr string | LDone

text \<open>
  The inner loop shared by the three machines: push the frame from \<open>written\<close> on, where the
  writer accepts at most what it is offered; an accepted zero is \<open>WriteZero\<close>.
\<close>

fun write_loop :: "bytes \<Rightarrow> usize \<Rightarrow> wr_event list \<Rightarrow> bytes \<Rightarrow> loop_end \<times> usize \<times> wr_event list \<times> bytes" where
  "write_loop frame written [] out =
     (if written < length frame then (LPending, written, [], out) else (LDone, written, [], out))"
| "write_loop frame written (ev # sc) out =
     (if written < length frame then
        case ev of
          WrPending \<Rightarrow> (LPending, written, sc, out)
        | WrErr e \<Rightarrow> (LErr e, written, sc, out)
        | WrOk n \<Rightarrow>
            (let k = min n (length frame - written) in
             if k = 0 then (LErr ''WriteZero'', written, sc, out)
             else write_loop frame (written + k) sc (out @ take k (drop written frame)))
      else (LDone, written, ev # sc, out))"

fun inner_unit :: "wr_event list \<Rightarrow> unit io_poll \<times> wr_event list" where
  "inner_unit [] = (Pending, [])"
| "inner_unit (WrPending # sc) = (Pending, sc)"
| "inner_unit (WrErr e # sc) = (Ready (Inl e), sc)"
| "inner_unit (WrOk n # sc) = (Ready (Inr ()), sc)"

record writer =
  wr_send :: direction_state
  wr_state :: write_state
  wr_script :: "wr_event list"
  wr_out :: bytes

definition finish_frame :: "writer \<Rightarrow> bytes \<Rightarrow> usize \<Rightarrow> usize \<Rightarrow> loop_end \<times> writer" where
  "finish_frame w frame written consumed =
     (case write_loop frame written (wr_script w) (wr_out w) of
        (LPending, wn, sc, out) \<Rightarrow>
          (LPending, w\<lparr> wr_state := Writing frame wn consumed, wr_script := sc, wr_out := out \<rparr>)
      | (LErr e, wn, sc, out) \<Rightarrow> (LErr e, w\<lparr> wr_state := Closed, wr_script := sc, wr_out := out \<rparr>)
      | (LDone, wn, sc, out) \<Rightarrow> (LDone, w\<lparr> wr_state := WIdle, wr_script := sc, wr_out := out \<rparr>))"

fun write_end :: "usize \<Rightarrow> loop_end \<times> writer \<Rightarrow> usize io_poll \<times> writer" where
  "write_end consumed (LPending, w) = (Pending, w)"
| "write_end consumed (LErr e, w) = (Ready (Inl e), w)"
| "write_end consumed (LDone, w) = (Ready (Inr consumed), w)"

definition poll_write_machine :: "'a aead_crates_scheme \<Rightarrow> writer \<Rightarrow> bytes \<Rightarrow> usize io_poll \<times> writer" where
  "poll_write_machine C w in_buf =
     (case wr_state w of
        Closed \<Rightarrow> (Ready (Inl ''CSPQ stream is closed''), w)
      | ShuttingDown stage \<Rightarrow> (Ready (Inl ''CSPQ stream is shutting down''), w)
      | Writing frame written consumed \<Rightarrow> write_end consumed (finish_frame w frame written consumed)
      | WIdle \<Rightarrow>
          if in_buf = [] then (Ready (Inr 0), w)
          else let tk = min (length in_buf) MAX_PLAINTEXT in
            case seal C (wr_send w) (take tk in_buf) of
              (Inl e, d) \<Rightarrow> (Ready (Inl ''seal''), w\<lparr> wr_send := d, wr_state := Closed \<rparr>)
            | (Inr sealed, d) \<Rightarrow> write_end tk (finish_frame (w\<lparr> wr_send := d \<rparr>) (frame_of sealed) 0 tk))"

definition flush_inner :: "writer \<Rightarrow> unit io_poll \<times> writer" where
  "flush_inner w = (case inner_unit (wr_script w) of (r, sc) \<Rightarrow> (r, w\<lparr> wr_script := sc \<rparr>))"

definition poll_flush_machine :: "writer \<Rightarrow> unit io_poll \<times> writer" where
  "poll_flush_machine w =
     (case wr_state w of
        WIdle \<Rightarrow> flush_inner w
      | Closed \<Rightarrow> flush_inner w
      | ShuttingDown stage \<Rightarrow> flush_inner w
      | Writing frame written consumed \<Rightarrow>
          (case finish_frame w frame written consumed of
             (LPending, w') \<Rightarrow> (Pending, w')
           | (LErr e, w') \<Rightarrow> (Ready (Inl e), w')
           | (LDone, w') \<Rightarrow> flush_inner w'))"

definition shutdown_inner :: "writer \<Rightarrow> unit io_poll \<times> writer" where
  "shutdown_inner w =
     (case flush_inner w of
        (Pending, w') \<Rightarrow> (Pending, w'\<lparr> wr_state := ShuttingDown ShutdownInner \<rparr>)
      | (Ready r, w') \<Rightarrow> (Ready r, w'\<lparr> wr_state := Closed \<rparr>))"

definition shutdown_flush :: "writer \<Rightarrow> unit io_poll \<times> writer" where
  "shutdown_flush w =
     (case flush_inner w of
        (Pending, w') \<Rightarrow> (Pending, w'\<lparr> wr_state := ShuttingDown FlushInner \<rparr>)
      | (Ready (Inl e), w') \<Rightarrow> (Ready (Inl e), w'\<lparr> wr_state := Closed \<rparr>)
      | (Ready (Inr _), w') \<Rightarrow> shutdown_inner w')"

definition shutdown_send :: "writer \<Rightarrow> bytes \<Rightarrow> usize \<Rightarrow> unit io_poll \<times> writer" where
  "shutdown_send w frame written =
     (case write_loop frame written (wr_script w) (wr_out w) of
        (LPending, wn, sc, out) \<Rightarrow>
          (Pending, w\<lparr> wr_state := ShuttingDown (SendEofFrame frame wn), wr_script := sc, wr_out := out \<rparr>)
      | (LErr e, wn, sc, out) \<Rightarrow> (Ready (Inl e), w\<lparr> wr_state := Closed, wr_script := sc, wr_out := out \<rparr>)
      | (LDone, wn, sc, out) \<Rightarrow> shutdown_flush (w\<lparr> wr_script := sc, wr_out := out \<rparr>))"

definition shutdown_idle :: "'a aead_crates_scheme \<Rightarrow> writer \<Rightarrow> unit io_poll \<times> writer" where
  "shutdown_idle C w =
     (case seal C (wr_send w) [] of
        (Inl e, d) \<Rightarrow> (Ready (Inl ''seal''), w\<lparr> wr_send := d, wr_state := Closed \<rparr>)
      | (Inr sealed, d) \<Rightarrow> shutdown_send (w\<lparr> wr_send := d \<rparr>) (frame_of sealed) 0)"

definition poll_shutdown_machine :: "'a aead_crates_scheme \<Rightarrow> writer \<Rightarrow> unit io_poll \<times> writer" where
  "poll_shutdown_machine C w =
     (case wr_state w of
        Closed \<Rightarrow> flush_inner w
      | Writing frame written consumed \<Rightarrow>
          (case finish_frame w frame written consumed of
             (LPending, w') \<Rightarrow> (Pending, w')
           | (LErr e, w') \<Rightarrow> (Ready (Inl e), w')
           | (LDone, w') \<Rightarrow> shutdown_idle C w')
      | WIdle \<Rightarrow> shutdown_idle C w
      | ShuttingDown stage \<Rightarrow>
          (case stage of
             SendEofFrame frame written \<Rightarrow> shutdown_send w frame written
           | FlushInner \<Rightarrow> shutdown_flush w
           | ShutdownInner \<Rightarrow> shutdown_inner w))"

subsection \<open>The writer's wire\<close>

text \<open>
  The bytes committed to the wire: those accepted by the inner writer and those of the frame
  in progress. A frame in progress has its prefix on the wire.
\<close>

fun unsent :: "write_state \<Rightarrow> bytes" where
  "unsent (Writing frame written consumed) = drop written frame"
| "unsent (ShuttingDown (SendEofFrame frame written)) = drop written frame"
| "unsent st = []"

definition committed :: "writer \<Rightarrow> bytes" where
  "committed w = wr_out w @ unsent (wr_state w)"

lemma write_loop_committed:
  "write_loop frame written sc out = (r, wn, sc', out') \<Longrightarrow> written \<le> length frame \<Longrightarrow>
   out' @ drop wn frame = out @ drop written frame \<and> wn \<le> length frame \<and> (r = LDone \<longrightarrow> wn = length frame)"
proof (induction frame written sc out rule: write_loop.induct)
  case (1 frame written out)
  then show ?case by (auto split: if_splits)
next
  case (2 frame written ev sc out)
  show ?case
  proof (cases "written < length frame \<and> (\<exists>n. ev = WrOk n \<and> min n (length frame - written) \<noteq> 0)")
    case True
    then obtain n where n: "written < length frame" "ev = WrOk n" "min n (length frame - written) \<noteq> 0" by blast
    let ?k = "min n (length frame - written)"
    have l: "written + ?k \<le> length frame" using n(1) by simp
    have d: "take ?k (drop written frame) @ drop (written + ?k) frame = drop written frame"
      by (metis append_take_drop_id drop_drop add.commute)
    have "write_loop frame (written + ?k) sc (out @ take ?k (drop written frame)) = (r, wn, sc', out')"
      using 2(2) n by (simp add: Let_def)
    then have "out' @ drop wn frame = (out @ take ?k (drop written frame)) @ drop (written + ?k) frame \<and>
        wn \<le> length frame \<and> (r = LDone \<longrightarrow> wn = length frame)"
      using 2(1) [OF n(1,2) refl n(3)] l by blast
    then show ?thesis using d by simp
  next
    case False
    then show ?thesis using 2(2,3) by (auto simp: Let_def split: if_splits wr_event.splits)
  qed
qed

lemma finish_frame_committed:
  assumes "finish_frame w frame written consumed = (r, w')" "written \<le> length frame"
  shows "(r = LPending \<longrightarrow> committed w' = wr_out w @ drop written frame \<and>
            (\<exists>wn. wr_state w' = Writing frame wn consumed \<and> wn \<le> length frame)) \<and>
         (r = LDone \<longrightarrow> wr_out w' = wr_out w @ drop written frame \<and> wr_state w' = WIdle) \<and>
         (\<forall>e. r = LErr e \<longrightarrow> wr_state w' = Closed) \<and> wr_send w' = wr_send w"
proof -
  obtain q wn sc out where l: "write_loop frame written (wr_script w) (wr_out w) = (q, wn, sc, out)"
    by (metis prod_cases4)
  note c = write_loop_committed [OF l assms(2)]
  show ?thesis using assms(1) l c by (cases q) (auto simp: finish_frame_def committed_def)
qed

lemma poll_write_idle:
  assumes "wr_state w = WIdle" "in_buf \<noteq> []" "poll_write_machine C w in_buf = (r, w')"
    and "seal C (wr_send w) (take MAX_PLAINTEXT in_buf) = (Inr c, d)"
  shows "(r = Pending \<longrightarrow> committed w' = wr_out w @ frame_of c) \<and>
         (\<forall>n. r = Ready (Inr n) \<longrightarrow> n = min (length in_buf) MAX_PLAINTEXT \<and>
              wr_out w' = wr_out w @ frame_of c \<and> wr_state w' = WIdle) \<and> wr_send w' = d"
proof -
  let ?tk = "min (length in_buf) MAX_PLAINTEXT"
  have tk: "take ?tk in_buf = take MAX_PLAINTEXT in_buf" by (simp add: min_def)
  obtain q w1 where f: "finish_frame (w\<lparr> wr_send := d \<rparr>) (frame_of c) 0 ?tk = (q, w1)" by (meson surj_pair)
  have "(r, w') = write_end ?tk (q, w1)"
    using assms f by (simp add: poll_write_machine_def Let_def tk)
  then show ?thesis using finish_frame_committed [OF f] by (cases q) auto
qed

subsection \<open>Shutting down\<close>

text \<open>
  \<open>closing w b\<close>: the writer is past sealing the end marker and the wire will hold \<open>b\<close>.
  \<open>shut_step\<close> is what one more poll makes of it.
\<close>

definition closing :: "writer \<Rightarrow> bytes \<Rightarrow> bool" where
  "closing w b \<longleftrightarrow> committed w = b \<and>
     (\<exists>st. wr_state w = ShuttingDown st \<and> (\<forall>f n. st = SendEofFrame f n \<longrightarrow> n \<le> length f))"

definition shut_step :: "bytes \<Rightarrow> unit io_poll \<times> writer \<Rightarrow> bool" where
  "shut_step b r \<longleftrightarrow>
     (case r of
        (Pending, w') \<Rightarrow> closing w' b
      | (Ready (Inr _), w') \<Rightarrow> wr_state w' = Closed \<and> wr_out w' = b
      | (Ready (Inl e), w') \<Rightarrow> wr_state w' = Closed)"

lemma flush_inner_out:
  "flush_inner w = (r, w') \<Longrightarrow> wr_out w' = wr_out w \<and> wr_send w' = wr_send w \<and> wr_state w' = wr_state w"
  by (auto simp: flush_inner_def split: prod.splits)

lemma shutdown_inner_step: "wr_out w = b \<Longrightarrow> shut_step b (shutdown_inner w)"
proof -
  assume b: "wr_out w = b"
  obtain r w' where f: "flush_inner w = (r, w')" by (meson surj_pair)
  show ?thesis using b f flush_inner_out [OF f]
    by (cases r) (auto simp: shutdown_inner_def shut_step_def closing_def committed_def split: sum.splits)
qed

lemma shutdown_flush_step: "wr_out w = b \<Longrightarrow> shut_step b (shutdown_flush w)"
proof -
  assume b: "wr_out w = b"
  obtain r w' where f: "flush_inner w = (r, w')" by (meson surj_pair)
  have o: "wr_out w' = b" using flush_inner_out [OF f] b by simp
  show ?thesis
  proof (cases r)
    case Pending
    then show ?thesis using f o by (simp add: shutdown_flush_def shut_step_def closing_def committed_def)
  next
    case (Ready x)
    then show ?thesis using f shutdown_inner_step [OF o]
      by (cases x) (simp_all add: shutdown_flush_def shut_step_def)
  qed
qed

lemma shutdown_send_step:
  assumes "written \<le> length frame" "wr_out w @ drop written frame = b"
  shows "shut_step b (shutdown_send w frame written)"
proof -
  obtain q wn sc out where l: "write_loop frame written (wr_script w) (wr_out w) = (q, wn, sc, out)"
    by (metis prod_cases4)
  note c = write_loop_committed [OF l assms(1)]
  show ?thesis
  proof (cases q)
    case LDone
    then have "wr_out (w\<lparr> wr_script := sc, wr_out := out \<rparr>) = b" using c assms(2) by auto
    from shutdown_flush_step [OF this] show ?thesis using LDone l by (simp add: shutdown_send_def)
  qed (use l c assms(2) in \<open>simp_all add: shutdown_send_def shut_step_def closing_def committed_def\<close>)
qed

lemma shutdown_idle_step:
  assumes "seal C (wr_send w) [] = (Inr c, d)"
  shows "shut_step (wr_out w @ frame_of c) (shutdown_idle C w)"
  using shutdown_send_step [of 0 "frame_of c" "w\<lparr> wr_send := d \<rparr>" "wr_out w @ frame_of c"] assms
  by (simp add: shutdown_idle_def)

lemma closing_step:
  assumes "closing w b"
  shows "shut_step b (poll_shutdown_machine C w)"
proof -
  obtain st where st: "wr_state w = ShuttingDown st" and c: "committed w = b"
    and n: "\<And>f n. st = SendEofFrame f n \<Longrightarrow> n \<le> length f"
    using assms by (auto simp: closing_def)
  show ?thesis
  proof (cases st)
    case (SendEofFrame f n)
    have "shut_step b (shutdown_send w f n)"
      using n [OF SendEofFrame] c st SendEofFrame by (intro shutdown_send_step) (simp_all add: committed_def)
    then show ?thesis using st SendEofFrame by (simp add: poll_shutdown_machine_def)
  next
    case FlushInner
    have "shut_step b (shutdown_flush w)"
      using c st FlushInner by (intro shutdown_flush_step) (simp add: committed_def)
    then show ?thesis using st FlushInner by (simp add: poll_shutdown_machine_def)
  next
    case ShutdownInner
    have "shut_step b (shutdown_inner w)"
      using c st ShutdownInner by (intro shutdown_inner_step) (simp add: committed_def)
    then show ?thesis using st ShutdownInner by (simp add: poll_shutdown_machine_def)
  qed
qed

subsection \<open>Reading\<close>

text \<open>The bytes on the wire for a sequence of records sealed from a direction state.\<close>

fun wire :: "'a aead_crates_scheme \<Rightarrow> direction_state \<Rightarrow> bytes list \<Rightarrow> bytes option" where
  "wire C d [] = Some []"
| "wire C d (p # ps) =
     (case seal C d p of
        (Inl e, d') \<Rightarrow> None
      | (Inr c, d') \<Rightarrow> map_option ((@) (frame_of c)) (wire C d' ps))"

fun data_of :: "rd_event list \<Rightarrow> bytes" where
  "data_of [] = []"
| "data_of (RdData b # sc) = b @ data_of sc"
| "data_of (ev # sc) = data_of sc"

text \<open>A script of a live connection: data in chunks of any size, with delays.\<close>

fun live :: "rd_event list \<Rightarrow> bool" where
  "live [] = True"
| "live (RdData b # sc) = (b \<noteq> [] \<and> live sc)"
| "live (RdPending # sc) = live sc"
| "live (ev # sc) = False"

fun buffered :: "read_state \<Rightarrow> bytes" where
  "buffered (RLen buf filled) = take filled buf"
| "buffered (RBody ct filled) = be_bytes 4 (length ct) @ take filled ct"
| "buffered st = []"

fun pending_pt :: "read_state \<Rightarrow> bytes" where
  "pending_pt (RDrain pt pos) = drop pos pt"
| "pending_pt st = []"

fun read_wf :: "read_state \<Rightarrow> bool" where
  "read_wf (RLen buf filled) = (length buf = 4 \<and> filled < 4)"
| "read_wf (RBody ct filled) = (filled < length ct \<and> length ct \<le> READ_BODY_HARD_CAP)"
| "read_wf (RDrain pt pos) = (pos \<le> length pt)"
| "read_wf RIdle = True"
| "read_wf REof = False"

definition reader_inv :: "'a aead_crates_scheme \<Rightarrow> read_state \<Rightarrow> direction_state \<Rightarrow> rd_event list \<Rightarrow> bytes \<Rightarrow> bytes list \<Rightarrow> bool" where
  "reader_inv C st d sc fut ps \<longleftrightarrow>
     read_wf st \<and> live sc \<and> list_all (\<lambda>p. length p \<le> MAX_PLAINTEXT) ps \<and>
     wire C d ps = Some (buffered st @ data_of sc @ fut)"

text \<open>
  What one poll may do to the records still to be read: it takes over the records \<open>xs\<close>, hands
  out bytes and keeps the others pending; or it meets the end marker with nothing pending.
\<close>

definition takes :: "'a aead_crates_scheme \<Rightarrow> bytes \<Rightarrow> bytes \<Rightarrow> bytes list \<Rightarrow> bytes \<Rightarrow> read_state \<Rightarrow> direction_state \<Rightarrow> rd_event list \<Rightarrow> bool" where
  "takes C pend fut ps out st d sc \<longleftrightarrow>
     (\<exists>xs ps'. ps = xs @ ps' \<and> [] \<notin> set xs \<and> reader_inv C st d sc fut ps' \<and>
               out @ pending_pt st = pend @ concat xs)"

definition read_spec :: "'a aead_crates_scheme \<Rightarrow> usize \<Rightarrow> bytes \<Rightarrow> bytes \<Rightarrow> bytes list \<Rightarrow> read_result \<Rightarrow> bool" where
  "read_spec C cap pend fut ps r \<longleftrightarrow>
     (case r of
        (Pending, st, d, sc) \<Rightarrow> takes C pend fut ps [] st d sc
      | (Ready (Inl e), st, d, sc) \<Rightarrow> False
      | (Ready (Inr out), st, d, sc) \<Rightarrow>
          (out \<noteq> [] \<and> length out \<le> cap \<and> takes C pend fut ps out st d sc) \<or>
          (out = [] \<and> st = REof \<and> pend = [] \<and> (\<exists>ps'. ps = [] # ps')))"

lemma takes_none: "reader_inv C st d sc fut ps \<Longrightarrow> out @ pending_pt st = pend \<Longrightarrow> takes C pend fut ps out st d sc"
  unfolding takes_def by (intro exI [of _ "[]"] exI [of _ ps]) simp

lemma takes_Cons: "takes C p fut ps out st d sc \<Longrightarrow> p \<noteq> [] \<Longrightarrow> takes C [] fut (p # ps) out st d sc"
  unfolding takes_def by (metis append_Cons append_Nil concat.simps(2) set_ConsD)

lemma inner_read_live:
  assumes "live sc" "inner_read n sc = (r, sc')" "0 < n"
  shows "live sc' \<and> (r = Pending \<and> data_of sc' = data_of sc \<or>
     (\<exists>b. r = Ready (Inr b) \<and> b \<noteq> [] \<and> length b \<le> n \<and> data_of sc = b @ data_of sc'))"
  using assms by (cases "(n, sc)" rule: inner_read.cases) (auto split: if_splits)

lemma wire_Cons:
  assumes "wire C d ps = Some bs" "bs \<noteq> []"
  obtains p ps' c d' w where "ps = p # ps'" "seal C d p = (Inr c, d')" "wire C d' ps' = Some w" "bs = frame_of c @ w"
  using assms by (cases ps) (auto split: prod.splits sum.splits)

lemma len_complete:
  assumes ok: "aead_ok C" and w: "wire C d ps = Some (buf @ bs)" and len: "length buf = 4"
    and sz: "list_all (\<lambda>p. length p \<le> MAX_PLAINTEXT) ps"
  shows "from_be_bytes buf \<noteq> 0" "from_be_bytes buf \<le> READ_BODY_HARD_CAP" "be_bytes 4 (from_be_bytes buf) = buf"
proof -
  obtain p ps' c d' v where ps: "ps = p # ps'" and s: "seal C d p = (Inr c, d')" and e: "buf @ bs = frame_of c @ v"
    using wire_Cons [OF w] len by (metis append_is_Nil_conv length_0_conv zero_neq_numeral)
  have c: "length c = length p + 16" by (rule seal_length [OF ok s])
  have "length p \<le> MAX_PLAINTEXT" using sz ps by simp
  then have lc: "length c \<le> READ_BODY_HARD_CAP" "length c < 256 ^ 4"
    using c by (simp_all add: READ_BODY_HARD_CAP_def record_consts)
  have "buf = be_bytes 4 (length c)" using e len by (simp add: frame_of_def append_eq_append_conv)
  then have "from_be_bytes buf = length c" using lc(2) by (simp add: from_be_bytes_be_bytes)
  then show "from_be_bytes buf \<noteq> 0" "from_be_bytes buf \<le> READ_BODY_HARD_CAP" "be_bytes 4 (from_be_bytes buf) = buf"
    using c lc(1) be_bytes_from_be_bytes [of buf] len by simp_all
qed

lemma body_split:
  assumes ok: "aead_ok C" and w: "wire C d ps = Some (be_bytes 4 n @ bs)" and n: "n \<le> READ_BODY_HARD_CAP"
    and sz: "list_all (\<lambda>p. length p \<le> MAX_PLAINTEXT) ps"
  obtains p ps' c d' v where "ps = p # ps'" "seal C d p = (Inr c, d')" "wire C d' ps' = Some v" "bs = c @ v" "length c = n"
proof -
  obtain p ps' c d' v where ps: "ps = p # ps'" and s: "seal C d p = (Inr c, d')" and v: "wire C d' ps' = Some v"
    and e: "be_bytes 4 n @ bs = frame_of c @ v"
    using wire_Cons [OF w] by (metis append_is_Nil_conv length_0_conv length_be_bytes zero_neq_numeral)
  have "length c = length p + 16" by (rule seal_length [OF ok s])
  then have "length c < 256 ^ 4" "n < 256 ^ 4"
    using sz ps n by (simp_all add: READ_BODY_HARD_CAP_def record_consts)
  moreover have eq: "be_bytes 4 n = be_bytes 4 (length c)" "bs = c @ v"
    using e by (simp_all add: frame_of_def append_eq_append_conv)
  ultimately have "length c = n" using be_bytes_inj by metis
  then show ?thesis using that ps s v eq(2) by blast
qed

lemma splice_full: "filled + length chunk = length buf \<Longrightarrow> splice buf filled chunk = take filled buf @ chunk"
  by (simp add: splice_def)

lemma take_splice: "filled \<le> length buf \<Longrightarrow> take (filled + length chunk) (splice buf filled chunk) = take filled buf @ chunk"
  by (simp add: splice_def)

lemma length_splice: "filled + length chunk \<le> length buf \<Longrightarrow> length (splice buf filled chunk) = length buf"
  by (simp add: splice_def)

lemma drain_refines:
  assumes cap: "0 < cap" and pos: "length pt - pos \<noteq> 0" and inv0: "reader_inv C (RDrain pt pos) d sc fut ps"
  shows "read_spec C cap (pending_pt (RDrain pt pos)) fut ps (poll_read_loop C cap (RDrain pt pos) d sc)"
proof -
  define n where "n = min (length pt - pos) cap"
  have n: "0 < n" "n \<le> cap" "pos + n \<le> length pt" using pos cap by (auto simp: n_def)
  have e: "take n (drop pos pt) @ drop (pos + n) pt = drop pos pt"
    by (metis append_take_drop_id drop_drop add.commute)
  have o: "poll_read_loop C cap (RDrain pt pos) d sc =
      (Ready (Inr (take n (drop pos pt))), if pos + n = length pt then RIdle else RDrain pt (pos + n), d, sc)"
    using pos cap by (simp add: poll_read_loop.simps(2) [of C cap pt pos] Let_def n_def)
  have inv: "reader_inv C (if pos + n = length pt then RIdle else RDrain pt (pos + n)) d sc fut ps"
    using inv0 n(3) by (simp add: reader_inv_def)
  have "take n (drop pos pt) \<noteq> []" "length (take n (drop pos pt)) \<le> cap" using n pos by simp_all
  then show ?thesis
    unfolding o using inv e by (auto simp: read_spec_def intro: takes_none)
qed

lemma body_complete:
  assumes ok: "aead_ok C" and cap: "length ct \<le> READ_BODY_HARD_CAP" and sz: "list_all (\<lambda>p. length p \<le> MAX_PLAINTEXT) ps"
    and w: "wire C d ps = Some (be_bytes 4 (length ct) @ take filled ct @ (b @ data) @ fut)"
    and full: "filled + length b = length ct"
  obtains p ps' d' where "ps = p # ps'" "open_ct C d (splice ct filled b) = (Inr p, d')"
    "wire C d' ps' = Some (data @ fut)" "length p \<le> MAX_PLAINTEXT"
proof -
  let ?ct = "splice ct filled b"
  have f: "?ct = take filled ct @ b" by (rule splice_full [OF full])
  obtain p ps' c d' v where ps: "ps = p # ps'" and s: "seal C d p = (Inr c, d')" and v: "wire C d' ps' = Some v"
    and e: "take filled ct @ (b @ data) @ fut = c @ v" and lc: "length c = length ct"
    by (rule body_split [OF ok w cap sz])
  have "length ?ct = length c" using full f lc by simp
  moreover have "?ct @ (data @ fut) = c @ v" using e f by simp
  ultimately have cv: "?ct = c \<and> data @ fut = v" by (metis append_eq_append_conv)
  have "open_ct C d ?ct = (Inr p, d')" using open_seal [OF ok s] cv by simp
  moreover have "length p \<le> MAX_PLAINTEXT" using sz ps by simp
  ultimately show ?thesis using that ps v cv by blast
qed

text \<open>One chunk for the length prefix or for the body, and where the loop goes on with it.\<close>

lemma loop_len:
  assumes "inner_read (length buf - filled) sc = (Ready (Inr b), sc')" "b \<noteq> []"
  shows "filled + length b < 4 \<Longrightarrow> poll_read_loop C cap (RLen buf filled) d sc =
      poll_read_loop C cap (RLen (splice buf filled b) (filled + length b)) d sc'"
    and "\<not> filled + length b < 4 \<Longrightarrow> n = from_be_bytes (splice buf filled b) \<Longrightarrow> n \<noteq> 0 \<Longrightarrow> n \<le> READ_BODY_HARD_CAP \<Longrightarrow>
      poll_read_loop C cap (RLen buf filled) d sc = poll_read_loop C cap (RBody (replicate n 0) 0) d sc'"
  using assms by (simp_all add: poll_read_loop.simps(4) [of C cap buf filled] Let_def)

lemma loop_body:
  assumes "inner_read (length ct - filled) sc = (Ready (Inr b), sc')" "b \<noteq> []"
  shows "filled + length b < length ct \<Longrightarrow> poll_read_loop C cap (RBody ct filled) d sc =
      poll_read_loop C cap (RBody (splice ct filled b) (filled + length b)) d sc'"
    and "\<not> filled + length b < length ct \<Longrightarrow> open_ct C d (splice ct filled b) = (Inr [], d') \<Longrightarrow>
      poll_read_loop C cap (RBody ct filled) d sc = (Ready (Inr []), REof, d', sc')"
    and "\<not> filled + length b < length ct \<Longrightarrow> open_ct C d (splice ct filled b) = (Inr p, d') \<Longrightarrow> p \<noteq> [] \<Longrightarrow> length p \<le> MAX_PLAINTEXT \<Longrightarrow>
      poll_read_loop C cap (RBody ct filled) d sc = poll_read_loop C cap (RDrain p 0) d' sc'"
  using assms by (simp_all add: poll_read_loop.simps(5) [of C cap ct filled] Let_def)

lemma loop_pending:
  "inner_read (length buf - filled) sc = (Pending, sc') \<Longrightarrow> poll_read_loop C cap (RLen buf filled) d sc = (Pending, RLen buf filled, d, sc')"
  "inner_read (length ct - filled) sc = (Pending, sc') \<Longrightarrow> poll_read_loop C cap (RBody ct filled) d sc = (Pending, RBody ct filled, d, sc')"
  by (simp_all add: poll_read_loop.simps(4) [of C cap buf filled] poll_read_loop.simps(5) [of C cap ct filled])

text \<open>One turn of the loop in each of the two reading states, given the turns after it.\<close>

lemma len_refines:
  assumes ok: "aead_ok C" and inv: "reader_inv C (RLen buf filled) d sc fut ps"
    and more: "\<And>b sc'. inner_read (length buf - filled) sc = (Ready (Inr b), sc') \<Longrightarrow> b \<noteq> [] \<Longrightarrow> filled + length b < 4 \<Longrightarrow>
      reader_inv C (RLen (splice buf filled b) (filled + length b)) d sc' fut ps \<Longrightarrow>
      read_spec C cap [] fut ps (poll_read_loop C cap (RLen (splice buf filled b) (filled + length b)) d sc')"
    and body: "\<And>b sc' n. inner_read (length buf - filled) sc = (Ready (Inr b), sc') \<Longrightarrow> b \<noteq> [] \<Longrightarrow> \<not> filled + length b < 4 \<Longrightarrow>
      n = from_be_bytes (splice buf filled b) \<Longrightarrow> n \<noteq> 0 \<Longrightarrow> n \<le> READ_BODY_HARD_CAP \<Longrightarrow> reader_inv C (RBody (replicate n 0) 0) d sc' fut ps \<Longrightarrow>
      read_spec C cap [] fut ps (poll_read_loop C cap (RBody (replicate n 0) 0) d sc')"
  shows "read_spec C cap [] fut ps (poll_read_loop C cap (RLen buf filled) d sc)"
proof -
  obtain r sc' where ir: "inner_read (length buf - filled) sc = (r, sc')" by (meson surj_pair)
  have wf: "length buf = 4" "filled < 4" "live sc" and sz: "list_all (\<lambda>p. length p \<le> MAX_PLAINTEXT) ps"
    and w: "wire C d ps = Some (take filled buf @ data_of sc @ fut)"
    using inv by (simp_all add: reader_inv_def)
  have lv: "live sc'" using inner_read_live [OF wf(3) ir] wf by simp
  consider "r = Pending" "data_of sc' = data_of sc"
    | b where "r = Ready (Inr b)" "b \<noteq> []" "length b \<le> length buf - filled" "data_of sc = b @ data_of sc'"
    using inner_read_live [OF wf(3) ir] wf by auto
  then show ?thesis
  proof cases
    case 1
    then show ?thesis using ir wf lv sz w by (auto simp: loop_pending read_spec_def reader_inv_def intro!: takes_none)
  next
    case (2 b)
    note ir = ir [unfolded 2(1)]
    show ?thesis
    proof (cases "filled + length b < 4")
      case True
      have "reader_inv C (RLen (splice buf filled b) (filled + length b)) d sc' fut ps"
        using True wf lv sz w 2 by (simp add: reader_inv_def length_splice take_splice)
      then show ?thesis unfolding loop_len(1) [OF ir 2(2) True] by (rule more [OF ir 2(2) True])
    next
      case False
      then have full: "splice buf filled b = take filled buf @ b" using 2 wf by (intro splice_full) simp
      have lb: "length (splice buf filled b) = 4" using False 2 wf full by simp
      have wb: "wire C d ps = Some (splice buf filled b @ (data_of sc' @ fut))" using w 2 full by simp
      note lc = len_complete [OF ok wb lb sz]
      have "reader_inv C (RBody (replicate (from_be_bytes (splice buf filled b)) 0) 0) d sc' fut ps"
        using lc wb lv sz by (simp add: reader_inv_def)
      then show ?thesis unfolding loop_len(2) [OF ir 2(2) False refl lc(1,2)] by (rule body [OF ir 2(2) False refl lc(1,2)])
    qed
  qed
qed

lemma read_spec_Cons:
  "read_spec C cap p fut ps res \<Longrightarrow> p \<noteq> [] \<Longrightarrow> read_spec C cap [] fut (p # ps) res"
  using takes_Cons [of C p fut ps] unfolding read_spec_def by (auto split: prod.splits poll.splits sum.splits)

lemma body_refines:
  assumes ok: "aead_ok C" and inv: "reader_inv C (RBody ct filled) d sc fut ps"
    and more: "\<And>b sc'. inner_read (length ct - filled) sc = (Ready (Inr b), sc') \<Longrightarrow> b \<noteq> [] \<Longrightarrow> filled + length b < length ct \<Longrightarrow>
      reader_inv C (RBody (splice ct filled b) (filled + length b)) d sc' fut ps \<Longrightarrow>
      read_spec C cap [] fut ps (poll_read_loop C cap (RBody (splice ct filled b) (filled + length b)) d sc')"
    and drain: "\<And>b sc' p d' ps'. inner_read (length ct - filled) sc = (Ready (Inr b), sc') \<Longrightarrow> b \<noteq> [] \<Longrightarrow> \<not> filled + length b < length ct \<Longrightarrow>
      open_ct C d (splice ct filled b) = (Inr p, d') \<Longrightarrow> p \<noteq> [] \<Longrightarrow> length p \<le> MAX_PLAINTEXT \<Longrightarrow> reader_inv C (RDrain p 0) d' sc' fut ps' \<Longrightarrow>
      read_spec C cap p fut ps' (poll_read_loop C cap (RDrain p 0) d' sc')"
  shows "read_spec C cap [] fut ps (poll_read_loop C cap (RBody ct filled) d sc)"
proof -
  obtain r sc' where ir: "inner_read (length ct - filled) sc = (r, sc')" by (meson surj_pair)
  have wf: "filled < length ct" "length ct \<le> READ_BODY_HARD_CAP" "live sc" and sz: "list_all (\<lambda>p. length p \<le> MAX_PLAINTEXT) ps"
    and w: "wire C d ps = Some (be_bytes 4 (length ct) @ take filled ct @ data_of sc @ fut)"
    using inv by (simp_all add: reader_inv_def)
  have lv: "live sc'" using inner_read_live [OF wf(3) ir] wf by simp
  consider "r = Pending" "data_of sc' = data_of sc"
    | b where "r = Ready (Inr b)" "b \<noteq> []" "length b \<le> length ct - filled" "data_of sc = b @ data_of sc'"
    using inner_read_live [OF wf(3) ir] wf by auto
  then show ?thesis
  proof cases
    case 1
    then show ?thesis using ir wf lv sz w by (auto simp: loop_pending read_spec_def reader_inv_def intro!: takes_none)
  next
    case (2 b)
    note ir = ir [unfolded 2(1)]
    show ?thesis
    proof (cases "filled + length b < length ct")
      case True
      have "reader_inv C (RBody (splice ct filled b) (filled + length b)) d sc' fut ps"
        using True wf lv sz w 2 by (simp add: reader_inv_def length_splice take_splice)
      then show ?thesis unfolding loop_body(1) [OF ir 2(2) True] by (rule more [OF ir 2(2) True])
    next
      case False
      then have full: "filled + length b = length ct" using 2 wf by simp
      obtain p ps' d' where ps: "ps = p # ps'" and op: "open_ct C d (splice ct filled b) = (Inr p, d')"
        and v: "wire C d' ps' = Some (data_of sc' @ fut)" and lp: "length p \<le> MAX_PLAINTEXT"
        using body_complete [OF ok wf(2) sz _ full] w 2(4) by metis
      have "reader_inv C (RDrain p 0) d' sc' fut ps'" using v lv sz ps by (simp add: reader_inv_def)
      then have "p \<noteq> [] \<Longrightarrow> read_spec C cap [] fut ps (poll_read_loop C cap (RDrain p 0) d' sc')"
        using drain [OF ir 2(2) False op _ lp] read_spec_Cons unfolding ps by blast
      then show ?thesis
        using loop_body(2) [OF ir 2(2) False, of C d d' cap] loop_body(3) [OF ir 2(2) False op _ lp, of cap] op ps
        by (cases "p = []") (simp_all add: read_spec_def)
    qed
  qed
qed

lemma poll_read_refines:
  assumes ok: "aead_ok C" and cap: "0 < cap"
  shows "reader_inv C st d sc fut ps \<Longrightarrow> read_spec C cap (pending_pt st) fut ps (poll_read_loop C cap st d sc)"
  using assms
proof (induction C cap st d sc arbitrary: ps rule: poll_read_loop.induct)
  case (1 C cap d sc)
  then show ?case by (simp add: reader_inv_def)
next
  case (2 C cap pt pos d sc)
  show ?case
  proof (cases "length pt - pos = 0")
    case True
    then have "reader_inv C RIdle d sc fut ps" using 2(2) by (simp add: reader_inv_def)
    then show ?thesis using 2(1) [OF refl True _ 2(3,4)] True by (simp add: poll_read_loop.simps(2) [of C cap pt pos])
  qed (rule drain_refines [OF 2(4) _ 2(2)])
next
  case (3 C cap d sc)
  then have "reader_inv C (RLen [0, 0, 0, 0] 0) d sc fut ps" by (simp add: reader_inv_def)
  then show ?case using 3(1) [OF _ 3(3,4)] by (simp add: poll_read_loop.simps(3))
next
  case (4 C cap buf filled d sc)
  show ?case using 4(1) [OF sym refl refl _ refl refl _ _ 4(4,5)] 4(2) [OF sym refl refl _ refl refl _ refl _ _ _ 4(4,5)]
    by (auto intro: len_refines [OF 4(4,3)])
next
  case (5 C cap ct filled d sc)
  show ?case using 5(1) [OF sym refl refl _ refl refl _ _ 5(4,5)] 5(2) [OF sym refl refl _ refl refl _ sym refl _ _ _ 5(4,5)]
    by (auto intro: body_refines [OF 5(4,3)])
qed

text \<open>
  A clean end of the stream is reported only for an authenticated empty record: for no script
  and no state but the final one does a read return nothing otherwise.
\<close>

lemma drain_not_empty: "p \<noteq> [] \<Longrightarrow> 0 < cap \<Longrightarrow> poll_read_loop C cap (RDrain p 0) d sc \<noteq> (Ready (Inr []), st', d', sc')"
  by (auto simp: poll_read_loop.simps(2) [of C cap p 0] Let_def min_def split: if_splits)

lemma len_eof:
  assumes "poll_read_loop C cap (RLen buf filled) d sc = (Ready (Inr []), st', d', sc')"
  obtains b y where "inner_read (length buf - filled) sc = (Ready (Inr b), y)" "b \<noteq> []" "filled + length b < 4"
      "poll_read_loop C cap (RLen (splice buf filled b) (filled + length b)) d y = (Ready (Inr []), st', d', sc')"
  | b y n where "inner_read (length buf - filled) sc = (Ready (Inr b), y)" "b \<noteq> []" "\<not> filled + length b < 4"
      "n = from_be_bytes (splice buf filled b)" "n \<noteq> 0" "\<not> READ_BODY_HARD_CAP < n"
      "poll_read_loop C cap (RBody (replicate n 0) 0) d y = (Ready (Inr []), st', d', sc')"
  using assms by (auto simp: poll_read_loop.simps(4) [of C cap buf filled] Let_def split: prod.splits poll.splits sum.splits if_splits)

lemma body_eof:
  assumes "poll_read_loop C cap (RBody ct filled) d sc = (Ready (Inr []), st', d', sc')" "0 < cap"
  obtains b y where "inner_read (length ct - filled) sc = (Ready (Inr b), y)" "b \<noteq> []" "filled + length b < length ct"
      "poll_read_loop C cap (RBody (splice ct filled b) (filled + length b)) d y = (Ready (Inr []), st', d', sc')"
  | c where "open_ct C d c = (Inr [], d')" "st' = REof"
  using assms drain_not_empty [of _ cap C]
  by (auto simp: poll_read_loop.simps(5) [of C cap ct filled] Let_def split: prod.splits poll.splits sum.splits if_splits)

lemma poll_read_eof_authentic:
  "poll_read_loop C cap st d sc = (Ready (Inr []), st', d', sc') \<Longrightarrow> 0 < cap \<Longrightarrow> st \<noteq> REof \<Longrightarrow>
   st' = REof \<and> (\<exists>ct. open_ct C d ct = (Inr [], d'))"
proof (induction C cap st d sc rule: poll_read_loop.induct)
  case (2 C cap pt pos d sc)
  then show ?case by (cases "length pt - pos = 0") (auto simp: poll_read_loop.simps(2) [of C cap pt pos] Let_def split: if_splits)
next
  case (3 C cap d sc)
  then show ?case by (simp add: poll_read_loop.simps(3))
next
  case (4 C cap buf filled d sc)
  from 4(3) show ?case
  proof (cases rule: len_eof)
    case (1 b y)
    then show ?thesis using 4(1) [OF 1(1) [symmetric] refl refl 1(2) refl refl 1(3,4)] 4(4) by simp
  next
    case (2 b y n)
    then show ?thesis using 4(2) [OF 2(1) [symmetric] refl refl 2(2) refl refl 2(3,4,5,6,7)] 4(4) by simp
  qed
next
  case (5 C cap ct filled d sc)
  from 5(3,4) show ?case
  proof (cases rule: body_eof)
    case (1 b y)
    then show ?thesis using 5(1) [OF 1(1) [symmetric] refl refl 1(2) refl refl 1(3,4)] 5(4) by simp
  qed blast
qed simp

subsection \<open>Runs of reads\<close>

text \<open>
  A caller that polls with the given buffer sizes and stops at an error; the bytes it got, and
  whether an error was met.
\<close>

fun run_reads :: "'a aead_crates_scheme \<Rightarrow> usize list \<Rightarrow> read_state \<Rightarrow> direction_state \<Rightarrow> rd_event list \<Rightarrow> bytes \<times> bool \<times> read_state" where
  "run_reads C [] st d sc = ([], True, st)"
| "run_reads C (cap # caps) st d sc =
     (case poll_read_machine C cap st d sc of
        (Pending, st', d', sc') \<Rightarrow> run_reads C caps st' d' sc'
      | (Ready (Inl e), st', d', sc') \<Rightarrow> ([], False, st')
      | (Ready (Inr out), st', d', sc') \<Rightarrow>
          (case run_reads C caps st' d' sc' of (outs, good, st'') \<Rightarrow> (out @ outs, good, st'')))"

lemma run_reads_eof: "run_reads C caps REof d sc = ([], True, REof)"
  by (induction caps) (auto simp: poll_read_machine_def poll_read_loop.simps(1))

text \<open>What one poll hands out, with any size of buffer.\<close>

fun got :: "('e + bytes) poll \<Rightarrow> bytes" where
  "got (Ready (Inr out)) = out"
| "got r = []"

lemma poll_step:
  assumes ok: "aead_ok C" and inv: "reader_inv C st d sc fut ps" and p: "poll_read_machine C cap st d sc = (r, st1, d1, sc1)"
  shows "r \<noteq> Ready (Inl e)"
    and "takes C (pending_pt st) fut ps (got r) st1 d1 sc1 \<or> got r = [] \<and> st1 = REof \<and> pending_pt st = [] \<and> (\<exists>ps'. ps = [] # ps')"
proof -
  have "r \<noteq> Ready (Inl e) \<and>
    (takes C (pending_pt st) fut ps (got r) st1 d1 sc1 \<or> got r = [] \<and> st1 = REof \<and> pending_pt st = [] \<and> (\<exists>ps'. ps = [] # ps'))"
  proof (cases "cap = 0")
    case True
    have "takes C (pending_pt st) fut ps [] st d sc" by (rule takes_none [OF inv]) simp
    then show ?thesis using p True by (auto simp: poll_read_machine_def)
  next
    case False
    then show ?thesis
      using p poll_read_refines [OF ok _ inv, of cap]
      by (auto simp: poll_read_machine_def read_spec_def split: poll.splits sum.splits)
  qed
  then show "r \<noteq> Ready (Inl e)"
    and "takes C (pending_pt st) fut ps (got r) st1 d1 sc1 \<or> got r = [] \<and> st1 = REof \<and> pending_pt st = [] \<and> (\<exists>ps'. ps = [] # ps')"
    by blast+
qed

lemma run_reads_step:
  assumes "poll_read_machine C cap st d sc = (r, st1, d1, sc1)" "\<And>e. r \<noteq> Ready (Inl e)"
    and "run_reads C (cap # caps) st d sc = (outs, good, st')"
  obtains outs1 where "run_reads C caps st1 d1 sc1 = (outs1, good, st')" "outs = got r @ outs1"
  using assms by (cases r rule: got.cases) (auto split: prod.splits)

text \<open>The records a run of reads has consumed, against what it handed out and what it still holds.\<close>

definition delivers :: "bytes list \<Rightarrow> bytes \<Rightarrow> bytes \<Rightarrow> read_state \<Rightarrow> bool" where
  "delivers ps pend outs st' \<longleftrightarrow> (\<exists>xs rest. ps = xs @ rest \<and> [] \<notin> set xs \<and>
      (if st' = REof then (\<exists>ys. rest = [] # ys) \<and> outs = pend @ concat xs
       else outs @ pending_pt st' = pend @ concat xs))"

lemma delivers_takes:
  assumes "[] \<notin> set xs" "out @ pend1 = pend @ concat xs" "delivers ps pend1 outs st'"
  shows "delivers (xs @ ps) pend (out @ outs) st'"
proof -
  obtain ys rest where ys: "ps = ys @ rest" "[] \<notin> set ys"
    and f: "if st' = REof then (\<exists>zs. rest = [] # zs) \<and> outs = pend1 @ concat ys else outs @ pending_pt st' = pend1 @ concat ys"
    using assms(3) unfolding delivers_def by blast
  have "out @ pend1 @ concat ys = pend @ concat (xs @ ys)" using assms(2) by (metis append_assoc concat_append)
  then show ?thesis
    unfolding delivers_def using f ys assms(1) by (intro exI [of _ "xs @ ys"] exI [of _ rest]) (cases "st' = REof"; simp)
qed

lemma run_reads_delivers:
  assumes ok: "aead_ok C"
  shows "reader_inv C st d sc fut ps \<Longrightarrow> run_reads C caps st d sc = (outs, good, st') \<Longrightarrow> good \<and> delivers ps (pending_pt st) outs st'"
proof (induction caps arbitrary: st d sc ps outs)
  case Nil
  then have "good" "outs = []" "st' = st" "st \<noteq> REof" by (auto simp: reader_inv_def)
  then show ?case unfolding delivers_def by (intro conjI exI [of _ "[]"] exI [of _ ps]) simp_all
next
  case (Cons cap caps)
  obtain r st1 d1 sc1 where p: "poll_read_machine C cap st d sc = (r, st1, d1, sc1)" by (metis prod_cases4)
  note st = poll_step [OF ok Cons.prems(1) p]
  obtain outs1 where r1: "run_reads C caps st1 d1 sc1 = (outs1, good, st')" and outs: "outs = got r @ outs1"
    by (rule run_reads_step [OF p st(1) Cons.prems(2)])
  from st(2) show ?case
  proof
    assume "takes C (pending_pt st) fut ps (got r) st1 d1 sc1"
    then obtain xs ps' where ps: "ps = xs @ ps'" "[] \<notin> set xs" and inv: "reader_inv C st1 d1 sc1 fut ps'"
      and o: "got r @ pending_pt st1 = pending_pt st @ concat xs"
      unfolding takes_def by blast
    show ?thesis using Cons.IH [OF inv r1] delivers_takes [OF ps(2) o] ps(1) outs by blast
  next
    assume "got r = [] \<and> st1 = REof \<and> pending_pt st = [] \<and> (\<exists>ps'. ps = [] # ps')"
    then obtain ps' where "ps = [] @ [] # ps'" "good" "outs = []" "st' = REof" "pending_pt st = []"
      using r1 outs run_reads_eof [of C caps d1 sc1] by auto
    then show ?thesis unfolding delivers_def by (intro conjI exI [of _ "[]"] exI [of _ "[] # ps'"]) simp_all
  qed
qed

end
