(* ===== verification/Async_Stream.thy ===== *)
theory Async_Stream
  imports Poll_Machines
begin

text \<open>
  The \<open>AsyncRead\<close> and \<open>AsyncWrite\<close> implementations of \<open>CspqStream\<close>, \<open>CspqReader\<close> and \<open>CspqWriter\<close>
  (\<open>qtransport-cspq/src/transport.rs\<close>) over the machines of \<open>Poll_Machines\<close>, and \<open>split\<close>. The inner
  stream of a \<open>CspqStream\<close> is its two directions: the script its reads will follow, the script its
  writes will follow and the bytes it took. A caller is a list of polls in any order.

  A stream behaves as its two halves: it can be split at any moment, also in the middle of a
  record, and the reads of an interleaving are those of the reader alone.
\<close>

record async_reader =
  ar_script :: "rd_event list"
  ar_recv :: direction_state
  ar_peer :: public_key
  ar_state :: read_state

record async_writer =
  aw_writer :: writer
  aw_peer :: public_key

record async_stream =
  as_rd_script :: "rd_event list"
  as_wr_script :: "wr_event list"
  as_wr_out :: bytes
  as_send :: direction_state
  as_recv :: direction_state
  as_peer :: public_key
  as_read_state :: read_state
  as_write_state :: write_state

definition reader_poll_read :: "'a aead_crates_scheme \<Rightarrow> usize \<Rightarrow> async_reader \<Rightarrow> bytes io_poll \<times> async_reader" where
  "reader_poll_read C cap r =
     (case poll_read_machine C cap (ar_state r) (ar_recv r) (ar_script r) of
        (res, st, d, sc) \<Rightarrow> (res, r\<lparr> ar_script := sc, ar_recv := d, ar_state := st \<rparr>))"

definition writer_poll_write :: "'a aead_crates_scheme \<Rightarrow> bytes \<Rightarrow> async_writer \<Rightarrow> usize io_poll \<times> async_writer" where
  "writer_poll_write C buf w = (case poll_write_machine C (aw_writer w) buf of (res, m) \<Rightarrow> (res, w\<lparr> aw_writer := m \<rparr>))"

definition writer_poll_flush :: "async_writer \<Rightarrow> unit io_poll \<times> async_writer" where
  "writer_poll_flush w = (case poll_flush_machine (aw_writer w) of (res, m) \<Rightarrow> (res, w\<lparr> aw_writer := m \<rparr>))"

definition writer_poll_shutdown :: "'a aead_crates_scheme \<Rightarrow> async_writer \<Rightarrow> unit io_poll \<times> async_writer" where
  "writer_poll_shutdown C w = (case poll_shutdown_machine C (aw_writer w) of (res, m) \<Rightarrow> (res, w\<lparr> aw_writer := m \<rparr>))"

definition stream_poll_read :: "'a aead_crates_scheme \<Rightarrow> usize \<Rightarrow> async_stream \<Rightarrow> bytes io_poll \<times> async_stream" where
  "stream_poll_read C cap s =
     (case poll_read_machine C cap (as_read_state s) (as_recv s) (as_rd_script s) of
        (res, st, d, sc) \<Rightarrow> (res, s\<lparr> as_rd_script := sc, as_recv := d, as_read_state := st \<rparr>))"

text \<open>The fields that the write machines borrow, and their values put back.\<close>

definition stream_writer :: "async_stream \<Rightarrow> writer" where
  "stream_writer s = \<lparr> wr_send = as_send s, wr_state = as_write_state s, wr_script = as_wr_script s, wr_out = as_wr_out s \<rparr>"

definition with_writer :: "async_stream \<Rightarrow> writer \<Rightarrow> async_stream" where
  "with_writer s m = s\<lparr> as_send := wr_send m, as_write_state := wr_state m, as_wr_script := wr_script m, as_wr_out := wr_out m \<rparr>"

definition stream_poll_write :: "'a aead_crates_scheme \<Rightarrow> bytes \<Rightarrow> async_stream \<Rightarrow> usize io_poll \<times> async_stream" where
  "stream_poll_write C buf s = (case poll_write_machine C (stream_writer s) buf of (res, m) \<Rightarrow> (res, with_writer s m))"

definition stream_poll_flush :: "async_stream \<Rightarrow> unit io_poll \<times> async_stream" where
  "stream_poll_flush s = (case poll_flush_machine (stream_writer s) of (res, m) \<Rightarrow> (res, with_writer s m))"

definition stream_poll_shutdown :: "'a aead_crates_scheme \<Rightarrow> async_stream \<Rightarrow> unit io_poll \<times> async_stream" where
  "stream_poll_shutdown C s = (case poll_shutdown_machine C (stream_writer s) of (res, m) \<Rightarrow> (res, with_writer s m))"

definition stream_split :: "async_stream \<Rightarrow> async_reader \<times> async_writer" where
  "stream_split s =
     (\<lparr> ar_script = as_rd_script s, ar_recv = as_recv s, ar_peer = as_peer s, ar_state = as_read_state s \<rparr>,
      \<lparr> aw_writer = stream_writer s, aw_peer = as_peer s \<rparr>)"

subsection \<open>Callers\<close>

datatype poll_call = Poll_Read usize | Poll_Write bytes | Poll_Flush | Poll_Shutdown

datatype poll_answer = Read_Answer "bytes io_poll" | Write_Answer "usize io_poll" | Unit_Answer "unit io_poll"

fun stream_call :: "'a aead_crates_scheme \<Rightarrow> async_stream \<Rightarrow> poll_call \<Rightarrow> poll_answer \<times> async_stream" where
  "stream_call C s (Poll_Read cap) = map_prod Read_Answer id (stream_poll_read C cap s)"
| "stream_call C s (Poll_Write buf) = map_prod Write_Answer id (stream_poll_write C buf s)"
| "stream_call C s Poll_Flush = map_prod Unit_Answer id (stream_poll_flush s)"
| "stream_call C s Poll_Shutdown = map_prod Unit_Answer id (stream_poll_shutdown C s)"

fun halves_call :: "'a aead_crates_scheme \<Rightarrow> async_reader \<times> async_writer \<Rightarrow> poll_call \<Rightarrow> poll_answer \<times> async_reader \<times> async_writer" where
  "halves_call C (r, w) (Poll_Read cap) = map_prod Read_Answer (\<lambda>r'. (r', w)) (reader_poll_read C cap r)"
| "halves_call C (r, w) (Poll_Write buf) = map_prod Write_Answer (Pair r) (writer_poll_write C buf w)"
| "halves_call C (r, w) Poll_Flush = map_prod Unit_Answer (Pair r) (writer_poll_flush w)"
| "halves_call C (r, w) Poll_Shutdown = map_prod Unit_Answer (Pair r) (writer_poll_shutdown C w)"

fun run_calls :: "('s \<Rightarrow> 'c \<Rightarrow> 'r \<times> 's) \<Rightarrow> 's \<Rightarrow> 'c list \<Rightarrow> 'r list \<times> 's" where
  "run_calls f s [] = ([], s)"
| "run_calls f s (c # cs) = (case f s c of (a, s') \<Rightarrow> map_prod ((#) a) id (run_calls f s' cs))"

lemma run_calls_append:
  "run_calls f s (xs @ ys) = (case run_calls f s xs of (as, s') \<Rightarrow> map_prod ((@) as) id (run_calls f s' ys))"
  by (induction xs arbitrary: s) (auto split: prod.splits simp: map_prod_def)

text \<open>The contract of a simulation: the abstraction commutes with every call, with the same answer.\<close>

locale call_simulation =
  fixes conc :: "'s \<Rightarrow> 'c \<Rightarrow> 'r \<times> 's" and abst :: "'t \<Rightarrow> 'c \<Rightarrow> 'r \<times> 't" and alpha :: "'s \<Rightarrow> 't"
  assumes call_commutes: "abst (alpha s) c = map_prod id alpha (conc s c)"
begin

lemma run_commutes: "run_calls abst (alpha s) cs = map_prod id alpha (run_calls conc s cs)"
proof (induction cs arbitrary: s)
  case (Cons c cs)
  then show ?case by (cases "conc s c") (simp add: call_commutes prod.map_comp o_def)
qed simp

lemma switch_anywhere:
  "run_calls conc s xs = (as, s') \<Longrightarrow>
   fst (run_calls conc s (xs @ ys)) = as @ fst (run_calls abst (alpha s') ys)"
  by (simp add: run_calls_append run_commutes)

end

interpretation halves: call_simulation "stream_call C" "halves_call C" stream_split
proof
  fix s c
  show "halves_call C (stream_split s) c = map_prod id stream_split (stream_call C s c)"
    by (cases c) (auto simp: stream_split_def stream_poll_read_def reader_poll_read_def stream_poll_write_def writer_poll_write_def
        stream_poll_flush_def writer_poll_flush_def stream_poll_shutdown_def writer_poll_shutdown_def with_writer_def
        stream_writer_def split: prod.splits)
qed

text \<open>Splitting after any polls, in any state of both machines, changes no later answer.\<close>

lemma split_at_any_moment:
  "run_calls (stream_call C) s xs = (as, s') \<Longrightarrow>
   fst (run_calls (stream_call C) s (xs @ ys)) = as @ fst (run_calls (halves_call C) (stream_split s') ys)"
  by (rule halves.switch_anywhere)

subsection \<open>Reads among writes\<close>

fun read_caps :: "poll_call list \<Rightarrow> usize list" where
  "read_caps [] = []"
| "read_caps (Poll_Read cap # cs) = cap # read_caps cs"
| "read_caps (c # cs) = read_caps cs"

fun read_answers :: "poll_answer list \<Rightarrow> bytes io_poll list" where
  "read_answers [] = []"
| "read_answers (Read_Answer r # as) = r # read_answers as"
| "read_answers (a # as) = read_answers as"

lemma halves_reads:
  "run_calls (halves_call C) (r, w) cs = (as, r', w') \<Longrightarrow>
   run_calls (\<lambda>r cap. reader_poll_read C cap r) r (read_caps cs) = (read_answers as, r')"
proof (induction cs arbitrary: r w as)
  case (Cons c cs)
  then show ?case by (cases c) (fastforce split: prod.splits simp: map_prod_def)+
qed simp

text \<open>
  Whatever is written, flushed or shut down in between, the reads of a stream answer what the
  reads of its reader half answer on their own.
\<close>

lemma reads_ignore_writes:
  assumes "run_calls (stream_call C) s cs = (as, s')"
  shows "read_answers as = fst (run_calls (\<lambda>r cap. reader_poll_read C cap r) (fst (stream_split s)) (read_caps cs))"
proof -
  have "run_calls (halves_call C) (fst (stream_split s), snd (stream_split s)) cs = (as, fst (stream_split s'), snd (stream_split s'))"
    using halves.run_commutes [of C s cs] assms by simp
  from halves_reads [OF this] show ?thesis by simp
qed

text \<open>The bytes those reads hand out, unless one of them met an error.\<close>

lemma reader_run:
  assumes "run_calls (\<lambda>r cap. reader_poll_read C cap r) r caps = (as, r')"
  shows "if \<exists>e. Ready (Inl e) \<in> set as then \<not> fst (snd (run_reads C caps (ar_state r) (ar_recv r) (ar_script r)))
    else run_reads C caps (ar_state r) (ar_recv r) (ar_script r) = (concat (map got as), True, ar_state r')"
  using assms
proof (induction caps arbitrary: r as)
  case (Cons cap caps)
  obtain a st d sc where m: "poll_read_machine C cap (ar_state r) (ar_recv r) (ar_script r) = (a, st, d, sc)" by (metis prod_cases4)
  let ?r = "r\<lparr> ar_script := sc, ar_recv := d, ar_state := st \<rparr>"
  obtain as1 where as: "as = a # as1" and r1: "run_calls (\<lambda>r cap. reader_poll_read C cap r) ?r caps = (as1, r')"
    using Cons.prems m by (auto simp: reader_poll_read_def map_prod_def split: prod.splits)
  have "if \<exists>e. Ready (Inl e) \<in> set as1 then \<not> fst (snd (run_reads C caps st d sc))
    else run_reads C caps st d sc = (concat (map got as1), True, ar_state r')"
    using Cons.IH [OF r1] by (cases "\<exists>e. Ready (Inl e) \<in> set as1") simp_all
  then show ?case using m as by (cases a rule: got.cases) (auto split: if_splits prod.splits)
qed simp

lemma stream_reads_deliver:
  assumes "aead_ok C" "reader_inv C (as_read_state s) (as_recv s) (as_rd_script s) fut ps"
    and "run_calls (stream_call C) s cs = (as, s')"
  shows "(\<forall>e. Ready (Inl e) \<notin> set (read_answers as)) \<and>
    delivers ps (pending_pt (as_read_state s)) (concat (map got (read_answers as))) (as_read_state s')"
proof -
  let ?r = "fst (stream_split s)"
  have "run_calls (halves_call C) (?r, snd (stream_split s)) cs = (as, fst (stream_split s'), snd (stream_split s'))"
    using halves.run_commutes [of C s cs] assms(3) by simp
  note run = reader_run [OF halves_reads [OF this]]
  obtain outs good st where r: "run_reads C (read_caps cs) (ar_state ?r) (ar_recv ?r) (ar_script ?r) = (outs, good, st)"
    by (metis prod_cases3)
  have "good \<and> delivers ps (pending_pt (as_read_state s)) outs st"
    using run_reads_delivers [OF assms(1,2), of "read_caps cs"] r by (simp add: stream_split_def)
  then show ?thesis using run r by (auto simp: stream_split_def split: if_splits)
qed

end
