(* ===== verification/Transport_Theorems.thy ===== *)
theory Transport_Theorems
  imports Handshake Async_Stream
begin

text \<open>
  The properties of the CSPQ transport, with concrete parameters for their instances: a
  cipher that appends the nonce as its tag, a KEM and an HKDF that repeat one byte.
\<close>

subsection \<open>Concrete parameters\<close>

definition toy_encrypt :: "bytes \<Rightarrow> bytes \<Rightarrow> bytes \<Rightarrow> bytes option" where
  "toy_encrypt k n p = (if length n = 12 then Some (p @ n @ [0, 0, 0, 0]) else None)"

definition toy_decrypt :: "bytes \<Rightarrow> bytes \<Rightarrow> bytes \<Rightarrow> bytes option" where
  "toy_decrypt k n c =
     (if length n = 12 \<and> 16 \<le> length c \<and> drop (length c - 16) c = n @ [0, 0, 0, 0]
      then Some (take (length c - 16) c) else None)"

definition toy_hs :: hs_crates where
  "toy_hs = \<lparr>
     blake3 = toy_hash, hex_encode = toy_hex, hex_decode = toy_unhex,
     mldsa_keygen = mldsa_keygen toy_crates, mldsa_sk_parses = mldsa_sk_parses toy_crates,
     mldsa_pk_parses = mldsa_pk_parses toy_crates,
     mldsa_get_public_key = mldsa_get_public_key toy_crates,
     mldsa_try_sign = mldsa_try_sign toy_crates, mldsa_verify = mldsa_verify toy_crates,
     aead_encrypt = toy_encrypt, aead_decrypt = toy_decrypt,
     kem_keygen = (\<lambda>e. Some (replicate EK_LEN (of_nat e), [of_nat e])),
     kem_ek_parses = (\<lambda>ek. True),
     kem_encaps = (\<lambda>e ek. Some (replicate 32 (of_nat e), replicate CT_LEN (of_nat e))),
     kem_ct_parses = (\<lambda>ct. True),
     kem_decaps = (\<lambda>dk ct. Some (replicate 32 (hd ct))),
     hkdf_expand = (\<lambda>salt ikm info. Some (replicate 32 (hd ikm) @ replicate 32 (hd ikm + 1))) \<rparr>"

definition toy_identity :: "nat \<Rightarrow> keypair" where
  "toy_identity e = \<lparr> kp_pk = replicate PK_LEN (of_nat e), kp_sk = replicate SK_LEN (of_nat e) \<rparr>"

definition toy_dir :: direction_state where
  "toy_dir = DirectionState_new (replicate 32 9) DIR_C2S"

definition toy_writer :: cspq_writer where
  "toy_writer = \<lparr> w_inner = [], w_send = toy_dir, w_peer_id = [] \<rparr>"

definition toy_ct :: "nat \<Rightarrow> bytes \<Rightarrow> bytes" where
  "toy_ct i p = p @ (DIR_C2S @ be_bytes 8 i) @ [0, 0, 0, 0]"

definition toy_pw :: writer where
  "toy_pw = \<lparr> wr_send = toy_dir, wr_state = WIdle, wr_script = [WrPending, WrOk 100, WrOk 0, WrOk 100], wr_out = [] \<rparr>"

lemma toy_hs_truncate: "crates.truncate toy_hs = toy_crates"
  by (simp add: toy_hs_def crates.defs toy_crates_def)

lemmas toy_hs_oks [simp] = toy_oks [OF toy_hs_truncate]

lemma toy_decrypt_encrypt: "toy_encrypt k n p = Some c \<Longrightarrow> toy_decrypt k n c = Some p \<and> length c = length p + 16"
  by (auto simp: toy_encrypt_def toy_decrypt_def split: if_splits)

lemma toy_aead [simp]: "aead_ok toy_hs" "aead_nonce_bound toy_hs" "aead_total toy_hs"
proof -
  show "aead_ok toy_hs" using toy_decrypt_encrypt by (auto simp: aead_ok_def toy_hs_def)
  show "aead_nonce_bound toy_hs"
    by (auto simp: aead_nonce_bound_def toy_hs_def toy_encrypt_def toy_decrypt_def split: if_splits)
  show "aead_total toy_hs" by (simp add: aead_total_def toy_hs_def toy_encrypt_def)
qed

lemma toy_kem [simp]: "kem_ok toy_hs" "hkdf_ok toy_hs"
  by (simp_all add: kem_ok_def hkdf_ok_def toy_hs_def)

lemma toy_identity_works [simp]: "identity_works toy_hs (toy_identity e)"
  by (simp add: identity_works_def keypair_good_def keypair_matches_def KeyPair_sign_def)
     (simp add: toy_identity_def key_lens toy_hs_def toy_crates_def)

lemma toy_seal0: "seal toy_hs toy_dir p = (Inr (toy_ct 0 p), toy_dir\<lparr> counter := 1 \<rparr>)"
  by (simp add: seal_Inr toy_hs_def toy_encrypt_def toy_dir_def DirectionState_new_def record_consts toy_ct_def u64_max_def)

subsection \<open>Frames and nonces\<close>

text \<open>
  \<open>read_frame\<close> succeeds exactly when the input starts with a complete frame within both
  limits, and then returns its body and leaves exactly what follows it; in particular a length
  above the limit is refused before any body is read.
\<close>

lemma read_frame_exact:
  "read_frame r mx = Inr (b, r') \<longleftrightarrow> r = frame_of b @ r' \<and> length b \<le> min mx MAX_FRAME"
  using read_frame_frame_of [of b mx r'] read_frame_split [of r mx b r'] read_frame_bound [of r mx b r'] by blast

text \<open>
  C22. No nonce is used twice with a key: the nonces of any number of records sent in the two
  directions of a session are pairwise different, and a direction stops with \<open>NonceOverflow\<close>
  after \<open>2 ^ 64 - 1\<close> records instead of wrapping around.
\<close>

theorem nonces_never_repeat:
  "distinct (nonces k (DirectionState_new key1 DIR_C2S) @ nonces j (DirectionState_new key2 DIR_S2C)) \<and>
   length (nonces k (DirectionState_new key1 DIR_C2S)) = min k (2 ^ 64 - 1) \<and>
   next_nonce (d\<lparr> counter := u64_max \<rparr>) = (Inl NonceOverflow, d\<lparr> counter := u64_max \<rparr>)"
proof -
  have inj: "inj_on (\<lambda>i. pre @ be_bytes 8 i) {0 ..< 2 ^ 64 - 1}" for pre :: bytes
    using be_bytes_inj [of _ 8] by (auto intro!: inj_onI)
  have d: "distinct (nonces n (DirectionState_new key pre))" for n key and pre :: bytes
    by (auto simp: nonces_spec DirectionState_new_def distinct_map intro!: inj_on_subset [OF inj])
  have "set (nonces k (DirectionState_new key1 DIR_C2S)) \<inter> set (nonces j (DirectionState_new key2 DIR_S2C)) = {}"
    by (auto simp: nonces_spec DirectionState_new_def record_consts)
  then show ?thesis
    using d by (simp add: next_nonce_overflow) (simp add: nonces_spec DirectionState_new_def)
qed

subsection \<open>Records\<close>

text \<open>
  Records sent on one side are received on the other, each once, unchanged and in order,
  leaving both counters equal: for every list of records that the sender accepts, reading that
  many records from what it wrote returns the list.
\<close>

lemma records_arrive_in_order:
  assumes "aead_ok C" and "send_all C w ps = (Inr (), w')" and "w_inner w = []"
    and "r_recv r = w_send w" and "r_inner r = w_inner w'"
  shows "recv_n C r (length ps) = (Inr ps, r\<lparr> r_inner := [], r_recv := w_send w' \<rparr>)"
proof -
  obtain sent where "w_inner w' = sent" and
    rec: "\<And>r rest. r_recv r = w_send w \<and> r_inner r = sent @ rest \<Longrightarrow>
       recv_n C r (length ps) = (Inr ps, r\<lparr> r_inner := rest, r_recv := w_send w' \<rparr>)"
    using send_all_recv_n [OF assms(1,2)] assms(3) by auto
  then show ?thesis using rec [of r "[]"] assms(4,5) by simp
qed

text \<open>
  Sending never gets stuck before the counter runs out: any list of records within the
  size limit and the remaining counter range is accepted.
\<close>

lemma records_are_accepted:
  assumes "aead_ok C" and "aead_total C" and "length (prefix (w_send w)) = 4"
    and "unat (counter (w_send w)) + length ps < 2 ^ 64"
    and "list_all (\<lambda>p. length p \<le> MAX_PLAINTEXT) ps"
  shows "\<exists>w'. send_all C w ps = (Inr (), w')"
  using send_all_total [OF assms(1,2,4,3,5)] .

text \<open>
  A replayed, reordered or skipped record is rejected: a ciphertext sealed at one counter
  value does not open at another, when the cipher binds its nonce.
\<close>

lemma replayed_record_rejected:
  assumes "aead_nonce_bound C" and "seal C d p = (Inr c, d')"
    and "ds_key e = ds_key d" and "prefix e = prefix d" and "counter e \<noteq> counter d"
  shows "isl (fst (open_ct C e c))"
  using assms by (rule replay_rejected)

subsection \<open>The stream interface\<close>


definition toy_stream :: async_stream where
  "toy_stream = \<lparr> as_rd_script = [RdPending, RdData (frame_of (toy_ct 0 []))], as_wr_script = [WrOk 7], as_wr_out = [],
     as_send = toy_dir, as_recv = toy_dir, as_peer = [], as_read_state = RIdle, as_write_state = WIdle \<rparr>"



lemma toy_eof_poll:
  "\<exists>st' d' sc'. poll_read_machine toy_hs 8 (RDrain [] 0) toy_dir [RdData (frame_of (toy_ct 0 []))] = (Ready (Inr []), st', d', sc')"
proof -
  have inv: "reader_inv toy_hs (RDrain [] 0) toy_dir [RdData (frame_of (toy_ct 0 []))] [] [[]]"
    by (simp add: reader_inv_def toy_seal0 length_0_conv [symmetric] del: length_0_conv)
  have c: "length (toy_ct 0 []) = 16" by (simp add: toy_ct_def DIR_C2S_def)
  have f: "take 4 (frame_of (toy_ct 0 [])) = be_bytes 4 16" "drop 4 (frame_of (toy_ct 0 [])) = toy_ct 0 []"
    by (simp_all add: frame_of_def c)
  have n: "from_be_bytes (be_bytes 4 16) = 16" by (simp add: from_be_bytes_be_bytes)
  have o: "open_ct toy_hs toy_dir (toy_ct 0 []) = (Inr [], toy_dir\<lparr> counter := 1 \<rparr>)"
    by (rule open_seal [OF toy_aead(1) toy_seal0])
  have four: "Suc (Suc (Suc (Suc 0))) = 4" by simp
  have "be_bytes 4 16 \<noteq> []" using length_be_bytes [of 4 16] by (metis length_0_conv zero_neq_numeral)
  moreover have "frame_of (toy_ct 0 []) \<noteq> []" "toy_ct 0 [] \<noteq> []" using c by (auto simp: frame_of_def)
  ultimately have ne: "be_bytes 4 16 \<noteq> []" "frame_of (toy_ct 0 []) \<noteq> []" "toy_ct 0 [] \<noteq> []" .
  show ?thesis
    by (simp add: poll_read_machine_def poll_read_loop.simps four f n o c ne splice_def Let_def READ_BODY_HARD_CAP_def record_consts)
qed


text \<open>
  A write on an idle stream commits exactly one sealed record of the first bytes of the
  buffer, at most 16 KiB: when it reports \<open>n\<close> bytes, the frame is on the wire, \<open>n\<close> is the
  length of the sealed plaintext and the stream is idle again; when it is pending, the frame is
  committed and its rest is kept.
\<close>

lemma poll_write_commits_one_record:
  assumes "wr_state w = WIdle" and "in_buf \<noteq> []" and "poll_write_machine C w in_buf = (r, w')"
    and "seal C (wr_send w) (take MAX_PLAINTEXT in_buf) = (Inr c, d)"
  shows "(r = Pending \<longrightarrow> committed w' = wr_out w @ frame_of c) \<and>
         (\<forall>n. r = Ready (Inr n) \<longrightarrow> n = min (length in_buf) MAX_PLAINTEXT \<and>
              wr_out w' = wr_out w @ frame_of c \<and> wr_state w' = WIdle) \<and> wr_send w' = d"
  using poll_write_idle [OF assms] .

text \<open>
  Shutting down appends exactly one sealed empty record, after everything written before,
  however often it is pending: every poll keeps the promise of what the wire will hold, and
  when it reports success the wire holds it and the stream is closed.
\<close>

lemma shutdown_sends_end_marker:
  "(wr_state w = WIdle \<and> seal C (wr_send w) [] = (Inr c, d) \<longrightarrow>
      shut_step (wr_out w @ frame_of c) (poll_shutdown_machine C w)) \<and>
   (closing w b \<longrightarrow> shut_step b (poll_shutdown_machine C w))"
  using shutdown_idle_step [of C w c d] closing_step [of w b C] by (simp add: poll_shutdown_machine_def)

text \<open>
  A flush between a pending write and its repetition sends the data twice: the first
  \<open>poll_write\<close> of a buffer is pending with its record committed, the flush puts it on the wire
  and forgets it, and polling the same buffer again seals and sends it a second time.
\<close>

lemma flush_after_pending_write_duplicates:
  "\<exists>w1 w2 w3. poll_write_machine toy_hs toy_pw [7] = (Pending, w1) \<and>
     poll_flush_machine w1 = (Ready (Inr ()), w2) \<and> poll_write_machine toy_hs w2 [7] = (Ready (Inr 1), w3) \<and>
     wr_out w3 = frame_of (toy_ct 0 [7]) @ frame_of (toy_ct 1 [7])"
proof -
  have s1: "seal toy_hs (toy_dir\<lparr> counter := 1 \<rparr>) [7] = (Inr (toy_ct 1 [7]), toy_dir\<lparr> counter := 2 \<rparr>)"
    by (simp add: seal_Inr toy_hs_def toy_encrypt_def toy_dir_def DirectionState_new_def record_consts toy_ct_def u64_max_def)
  have l: "length (toy_ct i [7]) = 17" for i by (simp add: toy_ct_def record_consts)
  show ?thesis
    by (simp add: poll_write_machine_def poll_flush_machine_def flush_inner_def toy_pw_def finish_frame_def
        record_consts toy_seal0 s1 l)
qed

subsection \<open>The handshake\<close>

text \<open>
  C6. An honest handshake completes: when each side's allow-list holds the other's identity
  and the primitives behave as specified, there are two byte streams on which client and
  server both finish, each reading exactly what the other wrote; they then hold mirrored
  directional keys with counters at zero, and each knows the other's identity.
\<close>

theorem honest_handshake_agrees:
  assumes "kem_ok C" and "hkdf_ok C" and "identity_works C cid" and "identity_works C sid"
    and "kem_keygen C ce = Some (ek, dk)" and "kem_encaps C se ek = Some (ss, ct)"
    and "accepts cpol (kp_pk sid)" and "accepts spol (kp_pk cid)"
  shows "\<exists>out_c out_s cs st. connect C ce cid cpol out_s = (Inr cs, out_c) \<and> accept C se sid spol out_c = (Inr st, out_s) \<and>
     send cs = recv st \<and> recv cs = send st \<and> peer_id cs = kp_pk sid \<and> peer_id st = kp_pk cid \<and>
     in_bytes cs = [] \<and> in_bytes st = []"
  using honest_handshake [OF assms] .

theorem honest_handshake_agrees_witness:
  "\<exists>out_c out_s cs st. connect toy_hs 1 (toy_identity 1) (single (kp_pk (toy_identity 2))) out_s = (Inr cs, out_c) \<and>
     accept toy_hs 2 (toy_identity 2) (single (kp_pk (toy_identity 1))) out_c = (Inr st, out_s) \<and> send cs = recv st"
  using honest_handshake_agrees [of toy_hs "toy_identity 1" "toy_identity 2" 1 "replicate EK_LEN 1" "[1]" 2
      "replicate 32 2" "replicate CT_LEN 2" "single (kp_pk (toy_identity 2))" "single (kp_pk (toy_identity 1))"]
  by (simp add: toy_kem(1,2)) (auto simp: toy_hs_def accepts_def single_def from_keys_def)

text \<open>
  C12. A server finishes a handshake only with a peer of its allow-list that signed, with its
  identity key, the transcript of this exchange: the suite, the client's KEM key it received,
  the ciphertext it sent, its own identity and the peer's; nothing else was read before the
  session's own bytes.
\<close>

theorem accept_authenticates_client:
  assumes "accept C e ident policy input = (Inr st, out)"
  shows "accepts policy (peer_id st) \<and>
    (\<exists>kem_pk ct ssig csig.
       input = client_hello_of kem_pk @ client_finish_of (peer_id st) csig @ in_bytes st \<and>
       out = server_hello_of ct (kp_pk ident) ssig \<and>
       verify_sig C (peer_id st) (transcript C T_SUITE_ID kem_pk ct (kp_pk ident) (peer_id st)) csig 0 = Inr ())"
  using assms by (rule accept_authenticates)

lemma toy_handshake:
  "\<exists>out_c out_s cs st. connect toy_hs 1 (toy_identity 1) (single (kp_pk (toy_identity 2))) out_s = (Inr cs, out_c) \<and>
     accept toy_hs 2 (toy_identity 2) (single (kp_pk (toy_identity 1))) out_c = (Inr st, out_s)"
  using honest_handshake [of toy_hs "toy_identity 1" "toy_identity 2" 1 "replicate EK_LEN 1" "[1]" 2
      "replicate 32 2" "replicate CT_LEN 2" "single (kp_pk (toy_identity 2))" "single (kp_pk (toy_identity 1))"]
  by (simp add: toy_kem(1,2)) (auto simp: toy_hs_def accepts_def single_def from_keys_def)

theorem accept_authenticates_client_witness:
  "\<exists>input st out. accept toy_hs 2 (toy_identity 2) (single (kp_pk (toy_identity 1))) input = (Inr st, out) \<and>
     accepts (single (kp_pk (toy_identity 1))) (peer_id st)"
  using toy_handshake accept_authenticates_client [of toy_hs 2 "toy_identity 2" "single (kp_pk (toy_identity 1))"] by blast

text \<open>
  A client finishes a handshake only with a server of its allow-list that signed the
  client's fresh KEM key together with the ciphertext the client decapsulates.
\<close>

lemma connect_authenticates_server:
  assumes "connect C e ident policy input = (Inr st, out)"
  shows "accepts policy (peer_id st) \<and>
    (\<exists>ek dk ct ssig. kem_keygen C e = Some (ek, dk) \<and>
       input = server_hello_of ct (peer_id st) ssig @ in_bytes st \<and>
       verify_sig C (peer_id st) (server_transcript C T_SUITE_ID ek ct (peer_id st)) ssig 0 = Inr ())"
  using assms by (rule connect_authenticates)

end
