(* ===== verification/Admission.thy ===== *)
theory Admission
  imports Prelude "HOL-Library.AList"
begin

text \<open>
  Admission control (\<open>qgateway-core/src/admission.rs\<close>): a token bucket per source address with
  a lazy sweep, a session quota, and the hot-swappable wrapper.

  An instant is a number of nanoseconds; a hash map is an association list with distinct
  keys; a semaphore is its number of free permits. Taking the lock makes each check atomic, so
  a run of the controller is a sequence of calls.
\<close>

type_synonym ip = string
type_synonym instant = nat

definition SEC :: nat where "SEC = 1000000000"

datatype reject_reason = Quota | Rate

fun reject_label :: "reject_reason \<Rightarrow> string" where
  "reject_label Quota = ''quota''"
| "reject_label Rate = ''rate''"

record rate_limit_config =
  capacity :: u32
  refill_per_sec :: u32

record bucket =
  tokens :: u32
  last_refill :: instant

record rate_limiter =
  rl_cfg :: rate_limit_config
  buckets :: "(ip \<times> bucket) list"

definition GC_THRESHOLD :: usize where "GC_THRESHOLD = 8192"
definition IDLE_TTL :: nat where "IDLE_TTL = 300 * SEC"

definition RateLimiter_new :: "rate_limit_config \<Rightarrow> rate_limiter" where
  "RateLimiter_new cfg = \<lparr> rl_cfg = cfg, buckets = [] \<rparr>"

definition sat_add_u32 :: "u32 \<Rightarrow> nat \<Rightarrow> u32" where
  "sat_add_u32 a n = of_nat (min (unat a + n) (2 ^ 32 - 1))"

text \<open>\<open>secs.saturating_mul(refill as u64).min(u32::MAX as u64) as u32\<close>\<close>

definition refill_amount :: "nat \<Rightarrow> u32 \<Rightarrow> nat" where
  "refill_amount secs refill = min (min (secs * unat refill) (2 ^ 64 - 1)) (2 ^ 32 - 1)"

definition refilled :: "rate_limit_config \<Rightarrow> nat \<Rightarrow> u32 \<Rightarrow> u32" where
  "refilled cfg secs t = min (sat_add_u32 t (refill_amount secs (refill_per_sec cfg))) (capacity cfg)"

definition gc_keeps :: "rate_limit_config \<Rightarrow> instant \<Rightarrow> bucket \<Rightarrow> bool" where
  "gc_keeps cfg now b =
     (let elapsed = now - last_refill b; secs = elapsed div SEC;
          projected_tokens = if secs > 0 then refilled cfg secs (tokens b) else tokens b
      in \<not> (projected_tokens = capacity cfg \<and> elapsed > IDLE_TTL))"

definition maybe_gc :: "instant \<Rightarrow> rate_limiter \<Rightarrow> rate_limiter" where
  "maybe_gc now rl = rl\<lparr> buckets := filter (\<lambda>(p, b). gc_keeps (rl_cfg rl) now b) (buckets rl) \<rparr>"

definition refill_bucket :: "rate_limit_config \<Rightarrow> instant \<Rightarrow> bucket \<Rightarrow> bucket" where
  "refill_bucket cfg now b =
     (let elapsed = now - last_refill b in
      if elapsed \<ge> SEC then
        let secs = elapsed div SEC in
        \<lparr> tokens = refilled cfg secs (tokens b), last_refill = last_refill b + secs * SEC \<rparr>
      else b)"

definition try_take :: "rate_limiter \<Rightarrow> ip \<Rightarrow> instant \<Rightarrow> bool \<times> rate_limiter" where
  "try_take rl peer now =
     (let rl1 = if length (buckets rl) > GC_THRESHOLD then maybe_gc now rl else rl;
          b0 = (case map_of (buckets rl1) peer of
                  Some b \<Rightarrow> b
                | None \<Rightarrow> \<lparr> tokens = capacity (rl_cfg rl1), last_refill = now \<rparr>);
          b = refill_bucket (rl_cfg rl1) now b0
      in if tokens b > 0
         then (True, rl1\<lparr> buckets := AList.update peer (b\<lparr> tokens := tokens b - 1 \<rparr>) (buckets rl1) \<rparr>)
         else (False, rl1\<lparr> buckets := AList.update peer b (buckets rl1) \<rparr>))"

subsection \<open>The controller\<close>

text \<open>\<open>quota\<close> is the number of free permits of the semaphore.\<close>

record admission =
  quota :: "nat option"
  rate_limit :: "rate_limiter option"

datatype admit = Admit_Ok bool | Admit_Reject reject_reason

definition AdmissionController_new :: "u32 option \<Rightarrow> rate_limit_config option \<Rightarrow> admission" where
  "AdmissionController_new mc rl = \<lparr> quota = map_option unat mc, rate_limit = map_option RateLimiter_new rl \<rparr>"

definition check_quota :: "admission \<Rightarrow> admit \<times> admission" where
  "check_quota a =
     (case quota a of
        Some n \<Rightarrow> if n > 0 then (Admit_Ok True, a\<lparr> quota := Some (n - 1) \<rparr>) else (Admit_Reject Quota, a)
      | None \<Rightarrow> (Admit_Ok False, a))"

definition check_admit :: "admission \<Rightarrow> ip \<Rightarrow> instant \<Rightarrow> admit \<times> admission" where
  "check_admit a peer now =
     (case rate_limit a of
        Some rl \<Rightarrow>
          (case try_take rl peer now of
             (False, rl') \<Rightarrow> (Admit_Reject Rate, a\<lparr> rate_limit := Some rl' \<rparr>)
           | (True, rl') \<Rightarrow> check_quota (a\<lparr> rate_limit := Some rl' \<rparr>))
      | None \<Rightarrow> check_quota a)"

text \<open>Dropping the permit of a session gives it back to the semaphore it came from.\<close>

definition release :: "admission \<Rightarrow> admission" where
  "release a = a\<lparr> quota := map_option Suc (quota a) \<rparr>"

text \<open>
  The hot wrapper: the current controller, and the controllers replaced earlier, which live on
  in the permits of their sessions.
\<close>

record hot_admission =
  hot_current :: admission
  hot_old :: "admission list"

definition HotAdmission_new :: "u32 option \<Rightarrow> rate_limit_config option \<Rightarrow> hot_admission" where
  "HotAdmission_new mc rl = \<lparr> hot_current = AdmissionController_new mc rl, hot_old = [] \<rparr>"

definition HotAdmission_from_controller :: "admission \<Rightarrow> hot_admission" where
  "HotAdmission_from_controller a = \<lparr> hot_current = a, hot_old = [] \<rparr>"

definition hot_check :: "hot_admission \<Rightarrow> ip \<Rightarrow> instant \<Rightarrow> admit \<times> hot_admission" where
  "hot_check h peer now =
     (case check_admit (hot_current h) peer now of (r, a) \<Rightarrow> (r, h\<lparr> hot_current := a \<rparr>))"

definition hot_swap :: "hot_admission \<Rightarrow> u32 option \<Rightarrow> rate_limit_config option \<Rightarrow> admission \<times> hot_admission" where
  "hot_swap h mc rl =
     (hot_current h, \<lparr> hot_current = AdmissionController_new mc rl, hot_old = hot_current h # hot_old h \<rparr>)"

subsection \<open>Token arithmetic\<close>

lemma unat_sat_add_u32: "unat (sat_add_u32 a n) = min (unat a + n) (2 ^ 32 - 1)"
  by (simp add: sat_add_u32_def unat_of_nat min_def)

lemma unat_min_u32: "unat (min a b :: u32) = min (unat a) (unat b)"
  by (simp add: min_def word_le_nat_alt)

lemma unat_refilled:
  "unat (refilled cfg secs t) =
     min (min (unat t + refill_amount secs (refill_per_sec cfg)) (2 ^ 32 - 1)) (unat (capacity cfg))"
  by (simp add: refilled_def unat_min_u32 unat_sat_add_u32)

lemma refilled_le: "unat (refilled cfg secs t) \<le> unat t + secs * unat (refill_per_sec cfg)"
  by (simp add: unat_refilled refill_amount_def)

lemma refilled_le_cap: "unat (refilled cfg secs t) \<le> unat (capacity cfg)"
  by (simp add: unat_refilled)

text \<open>
  The account of one source: after \<open>taken\<close> admissions since \<open>t0\<close>, a bucket is never ahead of
  what the capacity and the whole seconds passed allow.
\<close>

definition account :: "rate_limit_config \<Rightarrow> instant \<Rightarrow> nat \<Rightarrow> bucket \<Rightarrow> bool" where
  "account cfg t0 taken b \<longleftrightarrow>
     t0 \<le> last_refill b \<and> unat (tokens b) \<le> unat (capacity cfg) \<and>
     taken + unat (tokens b) \<le> unat (capacity cfg) + unat (refill_per_sec cfg) * ((last_refill b - t0) div SEC)"

lemma sec_div: "t0 \<le> t \<Longrightarrow> (t + s * SEC - t0) div SEC = (t - t0) div SEC + s"
proof -
  assume "t0 \<le> t"
  then have "t + s * SEC - t0 = (t - t0) + s * SEC" by simp
  then show ?thesis by (simp add: SEC_def)
qed

lemma account_refilled:
  assumes "account cfg t0 taken b" "t \<ge> last_refill b + secs * SEC"
  shows "account cfg t0 taken \<lparr> tokens = refilled cfg secs (tokens b), last_refill = t \<rparr>"
proof -
  have t0: "t0 \<le> last_refill b" using assms(1) by (simp add: account_def)
  have "(last_refill b + secs * SEC - t0) div SEC \<le> (t - t0) div SEC"
    using assms(2) by (intro div_le_mono) simp
  then have d: "(last_refill b - t0) div SEC + secs \<le> (t - t0) div SEC" using sec_div [OF t0] by simp
  have "taken + unat (refilled cfg secs (tokens b)) \<le> taken + unat (tokens b) + secs * unat (refill_per_sec cfg)"
    using refilled_le [of cfg secs "tokens b"] by simp
  also have "\<dots> \<le> unat (capacity cfg) + unat (refill_per_sec cfg) * ((last_refill b - t0) div SEC + secs)"
    using assms(1) by (simp add: account_def algebra_simps)
  also have "\<dots> \<le> unat (capacity cfg) + unat (refill_per_sec cfg) * ((t - t0) div SEC)"
    using d by simp
  finally show ?thesis using assms t0 refilled_le_cap [of cfg secs "tokens b"] by (simp add: account_def)
qed

lemma account_refill_bucket: "account cfg t0 taken b \<Longrightarrow> account cfg t0 taken (refill_bucket cfg now b)"
  using account_refilled [of cfg t0 taken b "(now - last_refill b) div SEC" "last_refill b + (now - last_refill b) div SEC * SEC"]
  by (simp add: refill_bucket_def Let_def)

lemma refill_bucket_time: "last_refill b \<le> now \<Longrightarrow> last_refill (refill_bucket cfg now b) \<le> now"
  by (simp add: refill_bucket_def Let_def) (metis div_times_less_eq_dividend le_diff_conv2 add.commute)

lemma account_take:
  assumes "account cfg t0 taken b" "tokens b > 0"
  shows "account cfg t0 (Suc taken) (b\<lparr> tokens := tokens b - 1 \<rparr>)"
proof -
  have pos: "0 < unat (tokens b)" using assms(2) by (simp add: word_less_nat_alt)
  have "tokens b \<noteq> 0" using assms(2) by auto
  then have "unat (tokens b - 1) = unat (tokens b) - 1" by (simp add: unat_minus_one)
  then show ?thesis using assms(1) pos by (auto simp: account_def)
qed

text \<open>A swept bucket may be replaced by a full one at the time of the sweep, and later.\<close>

lemma account_gc:
  assumes "account cfg t0 taken b" "\<not> gc_keeps cfg now b" "now \<le> t"
  shows "account cfg t0 taken \<lparr> tokens = capacity cfg, last_refill = t \<rparr>"
proof -
  define secs where "secs = (now - last_refill b) div SEC"
  have el: "now - last_refill b > IDLE_TTL" and pr: "(if secs > 0 then refilled cfg secs (tokens b) else tokens b) = capacity cfg"
    using assms(2) by (auto simp: gc_keeps_def Let_def secs_def)
  have "secs > 0" using el by (simp add: secs_def IDLE_TTL_def SEC_def)
  then have "refilled cfg secs (tokens b) = capacity cfg" using pr by simp
  moreover have "last_refill b + secs * SEC \<le> t"
    using assms(3) el by (simp add: secs_def IDLE_TTL_def) (metis div_times_less_eq_dividend le_diff_conv2 add.commute le_trans less_or_eq_imp_le zero_less_diff le_less_trans le0)
  ultimately show ?thesis using account_refilled [OF assms(1), of secs t] by simp
qed

subsection \<open>Runs of the rate limiter\<close>

fun take_run :: "rate_limiter \<Rightarrow> (ip \<times> instant) list \<Rightarrow> bool list \<times> rate_limiter" where
  "take_run rl [] = ([], rl)"
| "take_run rl ((p, now) # evs) =
     (let (r, rl') = try_take rl p now; (rs, rl'') = take_run rl' evs in (r # rs, rl''))"

definition admitted :: "ip \<Rightarrow> (ip \<times> instant) list \<Rightarrow> bool list \<Rightarrow> nat" where
  "admitted p evs rs = length (filter (\<lambda>(e, r). fst e = p \<and> r) (zip evs rs))"

definition source_ok :: "rate_limit_config \<Rightarrow> instant \<Rightarrow> ip \<Rightarrow> nat \<Rightarrow> instant \<Rightarrow> rate_limiter \<Rightarrow> bool" where
  "source_ok cfg t0 p taken t rl \<longleftrightarrow>
     rl_cfg rl = cfg \<and> distinct (map fst (buckets rl)) \<and>
     (case map_of (buckets rl) p of
        Some b \<Rightarrow> account cfg t0 taken b \<and> last_refill b \<le> t
      | None \<Rightarrow> (\<forall>t' \<ge> t. account cfg t0 taken \<lparr> tokens = capacity cfg, last_refill = t' \<rparr>))"

lemma source_ok_new: "t0 \<le> t \<Longrightarrow> source_ok cfg t0 p 0 t (RateLimiter_new cfg)"
  by (simp add: source_ok_def RateLimiter_new_def account_def)

lemma map_of_filter_val:
  "distinct (map fst xs) \<Longrightarrow>
   map_of (filter (\<lambda>(k, v). P v) xs) p = (case map_of xs p of Some v \<Rightarrow> if P v then Some v else None | None \<Rightarrow> None)"
proof (induction xs)
  case (Cons x xs)
  then show ?case by (cases x) (auto split: option.splits simp: map_of_eq_None_iff dest: map_of_SomeD intro: rev_image_eqI)
qed simp

lemma source_ok_gc: "source_ok cfg t0 p taken t rl \<Longrightarrow> t \<le> now \<Longrightarrow> source_ok cfg t0 p taken now (maybe_gc now rl)"
proof -
  assume ok: "source_ok cfg t0 p taken t rl" and le: "t \<le> now"
  have d: "distinct (map fst (buckets rl))" "rl_cfg rl = cfg" using ok by (simp_all add: source_ok_def)
  have "distinct (map fst (filter (\<lambda>(k, b). gc_keeps cfg now b) (buckets rl)))"
    using d(1) by (rule distinct_map_filter)
  moreover note map_of_filter_val [OF d(1), of "gc_keeps cfg now" p]
  ultimately show ?thesis
    using ok le d(2) account_gc [of cfg t0 taken _ now]
    by (cases "map_of (buckets rl) p") (auto simp: source_ok_def maybe_gc_def simp del: map_of_eq_Some_iff split: if_splits)
qed

lemma source_ok_later: "source_ok cfg t0 p taken t rl \<Longrightarrow> t \<le> now \<Longrightarrow> source_ok cfg t0 p taken now rl"
  by (cases "map_of (buckets rl) p") (simp_all add: source_ok_def)

lemma try_take_cases:
  obtains rl1 b where "rl1 = rl \<or> rl1 = maybe_gc now rl"
    "b = refill_bucket (rl_cfg rl1) now (case map_of (buckets rl1) q of Some b \<Rightarrow> b | None \<Rightarrow> \<lparr> tokens = capacity (rl_cfg rl1), last_refill = now \<rparr>)"
    "try_take rl q now = (tokens b > 0,
       rl1\<lparr> buckets := AList.update q (if tokens b > 0 then b\<lparr> tokens := tokens b - 1 \<rparr> else b) (buckets rl1) \<rparr>)"
proof -
  define rl1 where "rl1 = (if length (buckets rl) > GC_THRESHOLD then maybe_gc now rl else rl)"
  define b where "b = refill_bucket (rl_cfg rl1) now (case map_of (buckets rl1) q of Some b \<Rightarrow> b | None \<Rightarrow> \<lparr> tokens = capacity (rl_cfg rl1), last_refill = now \<rparr>)"
  have "try_take rl q now = (tokens b > 0,
       rl1\<lparr> buckets := AList.update q (if tokens b > 0 then b\<lparr> tokens := tokens b - 1 \<rparr> else b) (buckets rl1) \<rparr>)"
    unfolding try_take_def Let_def rl1_def [symmetric] b_def [symmetric] by simp
  then show ?thesis using that [of rl1 b] rl1_def b_def by (cases "length (buckets rl) > GC_THRESHOLD") auto
qed

lemma source_ok_step:
  assumes ok: "source_ok cfg t0 p taken t rl" and le: "t \<le> now" and tk: "try_take rl q now = (r, rl')"
  shows "source_ok cfg t0 p (if q = p \<and> r then Suc taken else taken) now rl'"
proof -
  obtain rl1 b where rl1: "rl1 = rl \<or> rl1 = maybe_gc now rl"
    and b: "b = refill_bucket (rl_cfg rl1) now (case map_of (buckets rl1) q of Some b \<Rightarrow> b | None \<Rightarrow> \<lparr> tokens = capacity (rl_cfg rl1), last_refill = now \<rparr>)"
    and e: "try_take rl q now = (tokens b > 0,
       rl1\<lparr> buckets := AList.update q (if tokens b > 0 then b\<lparr> tokens := tokens b - 1 \<rparr> else b) (buckets rl1) \<rparr>)"
    by (rule try_take_cases)
  have ok1: "source_ok cfg t0 p taken now rl1"
    using rl1 source_ok_gc [OF ok le] source_ok_later [OF ok le] by auto
  have d: "distinct (map fst (buckets rl1))" "rl_cfg rl1 = cfg" using ok1 by (simp_all add: source_ok_def)
  have r: "r = (tokens b > 0)" and rl': "rl' = rl1\<lparr> buckets := AList.update q (if tokens b > 0 then b\<lparr> tokens := tokens b - 1 \<rparr> else b) (buckets rl1) \<rparr>"
    using e tk by simp_all
  show ?thesis
  proof (cases "q = p")
    case True
    have "account cfg t0 taken b \<and> last_refill b \<le> now"
      using ok1 b d(2) True
      by (cases "map_of (buckets rl1) q") (simp_all add: source_ok_def account_refill_bucket refill_bucket_time del: map_of_eq_Some_iff)
    then show ?thesis
      using True r rl' d account_take [of cfg t0 taken b] by (auto simp: source_ok_def update_conv' distinct_update)
  next
    case False
    then show ?thesis using ok1 rl' d by (auto simp: source_ok_def update_conv' distinct_update)
  qed
qed

lemma take_run_account:
  "source_ok cfg t0 p taken t rl \<Longrightarrow> sorted (t # map snd evs) \<Longrightarrow> take_run rl evs = (rs, rl') \<Longrightarrow>
   source_ok cfg t0 p (taken + admitted p evs rs) (last (t # map snd evs)) rl'"
proof (induction evs arbitrary: taken t rl rs)
  case Nil
  then show ?case by (simp add: admitted_def)
next
  case (Cons ev evs)
  obtain q now where ev: "ev = (q, now)" by (cases ev)
  obtain r rl1 where tk: "try_take rl q now = (r, rl1)" by (meson surj_pair)
  obtain rs1 where run: "take_run rl1 evs = (rs1, rl')" and rs: "rs = r # rs1"
    using Cons.prems(3) ev tk by (auto split: prod.splits)
  let ?taken = "if q = p \<and> r then Suc taken else taken"
  have "source_ok cfg t0 p ?taken now rl1"
    using source_ok_step [OF Cons.prems(1) _ tk] Cons.prems(2) ev by simp
  then have "source_ok cfg t0 p (?taken + admitted p evs rs1) (last (now # map snd evs)) rl'"
    using Cons.IH [OF _ _ run] Cons.prems(2) ev by simp
  moreover have "?taken + admitted p evs rs1 = taken + admitted p (ev # evs) rs"
    using ev rs by (auto simp: admitted_def)
  ultimately show ?case using ev by simp
qed

lemma source_ok_bound:
  assumes "source_ok cfg t0 p taken t rl" "t0 \<le> t"
  shows "taken \<le> unat (capacity cfg) + unat (refill_per_sec cfg) * ((t - t0) div SEC)"
proof (cases "map_of (buckets rl) p")
  case None
  then show ?thesis using assms by (auto simp: source_ok_def account_def)
next
  case (Some b)
  then have a: "account cfg t0 taken b" "last_refill b \<le> t" using assms(1) by (simp_all add: source_ok_def)
  have "(last_refill b - t0) div SEC \<le> (t - t0) div SEC" using a(2) by (intro div_le_mono) simp
  then have "unat (refill_per_sec cfg) * ((last_refill b - t0) div SEC) \<le> unat (refill_per_sec cfg) * ((t - t0) div SEC)"
    by (rule mult_le_mono2)
  then show ?thesis using a(1) unfolding account_def by linarith
qed

subsection \<open>The session quota\<close>

text \<open>Connections arrive and sessions end in any order; a session holds its permit until it ends.\<close>

datatype adm_event = Arrive ip instant | Leave

fun adm_step :: "admission \<times> nat \<Rightarrow> adm_event \<Rightarrow> admission \<times> nat" where
  "adm_step (a, held) (Arrive p now) =
     (case check_admit a p now of
        (Admit_Ok permit, a') \<Rightarrow> (a', if permit then Suc held else held)
      | (Admit_Reject r, a') \<Rightarrow> (a', held))"
| "adm_step (a, held) Leave = (if held = 0 then (a, held) else (release a, held - 1))"

definition quota_inv :: "nat \<Rightarrow> admission \<times> nat \<Rightarrow> bool" where
  "quota_inv mx s \<longleftrightarrow> (\<exists>n. quota (fst s) = Some n \<and> n + snd s = mx)"

lemma check_quota_inv:
  assumes "quota a = Some n" "check_quota a = (r, a')"
  shows "(r = Admit_Ok True \<and> n > 0 \<and> quota a' = Some (n - 1)) \<or> (r = Admit_Reject Quota \<and> n = 0 \<and> quota a' = Some n)"
  using assms by (auto simp: check_quota_def split: if_splits)

lemma check_admit_quota:
  assumes "quota a = Some n" "check_admit a p now = (r, a')"
  shows "(r = Admit_Ok True \<and> n > 0 \<and> quota a' = Some (n - 1)) \<or> ((\<exists>x. r = Admit_Reject x) \<and> quota a' = Some n)"
proof (cases "rate_limit a")
  case None
  then show ?thesis using assms check_quota_inv [of a n r a'] by (auto simp: check_admit_def)
next
  case (Some rl)
  obtain t rl' where t: "try_take rl p now = (t, rl')" by (meson surj_pair)
  show ?thesis
    using assms Some t check_quota_inv [of "a\<lparr> rate_limit := Some rl' \<rparr>" n r a']
    by (cases t) (auto simp: check_admit_def)
qed

lemma quota_inv_step: "quota_inv mx s \<Longrightarrow> quota_inv mx (adm_step s ev)"
proof -
  assume inv: "quota_inv mx s"
  obtain a held where s: "s = (a, held)" by (cases s)
  then obtain n where n: "quota a = Some n" "n + held = mx" using inv by (auto simp: quota_inv_def)
  show ?thesis
  proof (cases ev)
    case (Arrive p now)
    obtain r a' where c: "check_admit a p now = (r, a')" by (meson surj_pair)
    show ?thesis using check_admit_quota [OF n(1) c] c n s Arrive by (auto simp: quota_inv_def)
  next
    case Leave
    then show ?thesis using n s by (auto simp: quota_inv_def release_def)
  qed
qed

interpretation quota_run: step_invariant adm_step "quota_inv mx" for mx
  by unfold_locales (rule quota_inv_step)

lemma quota_run_bound:
  "snd (foldl adm_step (AdmissionController_new (Some mc) rl, 0) evs) \<le> unat mc"
  using quota_run.run_inv [of "unat mc" "(AdmissionController_new (Some mc) rl, 0)" evs]
  by (auto simp: quota_inv_def AdmissionController_new_def)

end
