(* ===== verification/Config.thy ===== *)
theory Config
  imports Admission
begin

text \<open>
  The configuration (\<open>qgateway-core/src/config.rs\<close>): its types, validation, the diff of two
  tenants that the reload uses, and the resolution into the tenants and listener groups the
  daemon runs. Reading the file and parsing TOML are parameters.

  \<open>config_ok\<close> says what a valid configuration is, without the loops; \<open>validate_iff\<close> shows that
  \<open>validate\<close> accepts exactly those, whatever the iteration order of the hash map of groups.
\<close>

subsection \<open>Types\<close>

datatype config_error =
    Read_Err string string
  | Parse_Err string
  | Missing string
  | Conflict string

type_synonym 'a cresult = "config_error + 'a"

datatype role = ServeTcp | ServePq

datatype audit_signer_config =
    Softkey_Cfg string string
  | Pkcs11_Cfg string usize string string "string option" "u64 option"

record tls_config =
  cert_path :: string
  key_path :: string

record rate_limit_toml =
  rt_capacity :: u32
  rt_refill_per_sec :: u32

record tenant_limits =
  max_concurrent :: "u32 option"
  rate_limit_per_source :: "rate_limit_toml option"

record rotation_policy =
  max_entries :: "u64 option"
  max_bytes :: "u64 option"
  max_age_secs :: "u64 option"
  poll_interval_ms :: "u64 option"
  archive_pattern :: string

record tenant_config =
  t_name :: string
  t_listen :: string
  t_peer_pq :: "string option"
  t_backend :: "string option"
  t_peer_pub_dir :: string
  t_audit_log :: string
  t_tls :: "tls_config option"
  t_sni :: "string option"
  t_audit_signer :: "audit_signer_config option"
  t_limits :: "tenant_limits option"

record config =
  c_role :: role
  c_identity_key :: string
  c_identity_pub :: string
  c_metrics_listen :: string
  c_audit_signer :: "audit_signer_config option"
  c_rotation :: "rotation_policy option"
  c_drain_timeout_secs :: u64
  c_tenants :: "tenant_config list"

record serve_tcp_tenant =
  st_name :: string
  st_listen :: string
  st_peer_pq :: string
  st_peer_pub_dir :: string
  st_audit_log :: string
  st_tls :: "tls_config option"
  st_audit_signer :: audit_signer_config
  st_sni :: "string option"
  st_limits :: "tenant_limits option"

record serve_pq_tenant =
  sp_name :: string
  sp_listen :: string
  sp_backend :: string
  sp_peer_pub_dir :: string
  sp_audit_log :: string
  sp_audit_signer :: audit_signer_config
  sp_limits :: "tenant_limits option"

record tls_listener_group =
  g_listen :: string
  sni_dispatch :: bool
  g_tenants :: "serve_tcp_tenant list"

definition rate_limit_from :: "rate_limit_toml \<Rightarrow> rate_limit_config" where
  "rate_limit_from v = \<lparr> capacity = rt_capacity v, refill_per_sec = rt_refill_per_sec v \<rparr>"

definition default_archive_pattern :: string where
  "default_archive_pattern = ''{label}-{ts}.qa''"

definition default_metrics_listen :: string where
  "default_metrics_listen = ''127.0.0.1:9099''"

definition default_drain_timeout_secs :: u64 where
  "default_drain_timeout_secs = 30"

subsection \<open>The rotation policy\<close>

definition has_auto_trigger :: "rotation_policy \<Rightarrow> bool" where
  "has_auto_trigger p \<longleftrightarrow> max_entries p \<noteq> None \<or> max_bytes p \<noteq> None \<or> max_age_secs p \<noteq> None"

text \<open>Milliseconds.\<close>

definition poll_interval :: "rotation_policy \<Rightarrow> nat" where
  "poll_interval p = (case poll_interval_ms p of Some ms \<Rightarrow> max (unat ms) 10 | None \<Rightarrow> 5000)"

text \<open>\<open>str::replace\<close> with a pattern that is not empty: left to right, without overlaps.\<close>

function replace_str :: "string \<Rightarrow> string \<Rightarrow> string \<Rightarrow> string" where
  "replace_str p r [] = []"
| "replace_str p r (x # xs) =
     (if p \<noteq> [] \<and> starts_with p (x # xs) then r @ replace_str p r (drop (length p) (x # xs))
      else x # replace_str p r xs)"
  by pat_completeness auto
termination
  by (relation "measure (\<lambda>(p, r, s). length s)") auto

definition render_archive_name :: "(timestamp \<Rightarrow> string) \<Rightarrow> rotation_policy \<Rightarrow> string \<Rightarrow> u64 \<Rightarrow> timestamp \<Rightarrow> string" where
  "render_archive_name fmt_ts p label counter now =
     replace_str ''{counter}'' (dec_nat (unat counter))
       (replace_str ''{ts}'' (fmt_ts now) (replace_str ''{label}'' label (archive_pattern p)))"

subsection \<open>The difference of two tenants\<close>

datatype tenant_change_kind = Hot | Cold

record tenant_change =
  ch_field :: string
  ch_kind :: tenant_change_kind

definition tc_cold :: "string \<Rightarrow> tenant_change" where
  "tc_cold f = \<lparr> ch_field = f, ch_kind = Cold \<rparr>"

definition tc_hot :: "string \<Rightarrow> tenant_change" where
  "tc_hot f = \<lparr> ch_field = f, ch_kind = Hot \<rparr>"

fun tls_eq :: "tls_config option \<Rightarrow> tls_config option \<Rightarrow> bool" where
  "tls_eq None None = True"
| "tls_eq (Some x) (Some y) = (cert_path x = cert_path y \<and> key_path x = key_path y)"
| "tls_eq _ _ = False"

fun audit_signer_inner_eq :: "audit_signer_config \<Rightarrow> audit_signer_config \<Rightarrow> bool" where
  "audit_signer_inner_eq (Softkey_Cfg ask apk) (Softkey_Cfg bsk bpk) = (ask = bsk \<and> apk = bpk)"
| "audit_signer_inner_eq (Pkcs11_Cfg am aslot ap akl apl ami) (Pkcs11_Cfg bm bslot bp bkl bpl bmi) =
     (am = bm \<and> aslot = bslot \<and> ap = bp \<and> akl = bkl \<and> apl = bpl \<and> ami = bmi)"
| "audit_signer_inner_eq _ _ = False"

fun audit_signer_eq :: "audit_signer_config option \<Rightarrow> audit_signer_config option \<Rightarrow> bool" where
  "audit_signer_eq None None = True"
| "audit_signer_eq (Some x) (Some y) = audit_signer_inner_eq x y"
| "audit_signer_eq _ _ = False"

fun rate_eq :: "rate_limit_toml option \<Rightarrow> rate_limit_toml option \<Rightarrow> bool" where
  "rate_eq None None = True"
| "rate_eq (Some x) (Some y) =
     (rt_capacity x = rt_capacity y \<and> rt_refill_per_sec x = rt_refill_per_sec y)"
| "rate_eq _ _ = False"

fun limits_eq :: "tenant_limits option \<Rightarrow> tenant_limits option \<Rightarrow> bool" where
  "limits_eq None None = True"
| "limits_eq (Some x) (Some y) =
     (max_concurrent x = max_concurrent y \<and> rate_eq (rate_limit_per_source x) (rate_limit_per_source y))"
| "limits_eq _ _ = False"

definition material_changes :: "tenant_config \<Rightarrow> tenant_config \<Rightarrow> tenant_change list" where
  "material_changes a b =
     (if t_listen a \<noteq> t_listen b then [tc_cold ''listen''] else []) @
     (if t_peer_pq a \<noteq> t_peer_pq b then [tc_cold ''peer_pq''] else []) @
     (if t_backend a \<noteq> t_backend b then [tc_cold ''backend''] else []) @
     (if t_peer_pub_dir a \<noteq> t_peer_pub_dir b then [tc_cold ''peer_pub_dir''] else []) @
     (if t_audit_log a \<noteq> t_audit_log b then [tc_cold ''audit_log''] else []) @
     (if \<not> tls_eq (t_tls a) (t_tls b) then [tc_cold ''tls''] else []) @
     (if t_sni a \<noteq> t_sni b then [tc_cold ''sni''] else []) @
     (if \<not> audit_signer_eq (t_audit_signer a) (t_audit_signer b) then [tc_cold ''audit_signer''] else []) @
     (if \<not> limits_eq (t_limits a) (t_limits b) then [tc_hot ''limits''] else [])"

definition differs_from :: "tenant_config \<Rightarrow> tenant_config \<Rightarrow> bool" where
  "differs_from a b \<longleftrightarrow> material_changes a b \<noteq> []"

subsection \<open>Validation\<close>

definition about :: "tenant_config \<Rightarrow> string \<Rightarrow> string" where
  "about t msg = ''tenant '' @ t_name t @ '': '' @ msg"

text \<open>Grouping by a key keeps the order of the members of a group; a B-tree keeps the keys sorted.\<close>

definition push_group :: "('a \<Rightarrow> string) \<Rightarrow> (string, 'a list) btree \<Rightarrow> 'a \<Rightarrow> (string, 'a list) btree" where
  "push_group key m t = bt_insert (key t) ((case map_of m (key t) of None \<Rightarrow> [] | Some g \<Rightarrow> g) @ [t]) m"

definition group_by :: "('a \<Rightarrow> string) \<Rightarrow> 'a list \<Rightarrow> (string, 'a list) btree" where
  "group_by key ts = foldl (push_group key) [] ts"

definition wildcard_shape_ok :: "string \<Rightarrow> bool" where
  "wildcard_shape_ok sni \<longleftrightarrow>
     \<not> (CHR ''*'' \<in> set sni \<and> (\<not> starts_with ''*.'' sni \<or> CHR ''*'' \<in> set (drop 2 sni)))"

definition check_member :: "string \<Rightarrow> bool option \<times> string set \<Rightarrow> tenant_config \<Rightarrow> (bool option \<times> string set) cresult" where
  "check_member listen st t =
     (case st of (tls_state, seen_sni) \<Rightarrow>
        let has_tls = (t_tls t \<noteq> None) in
        and_then (case tls_state of
            Some prev \<Rightarrow> ensure (prev = has_tls) (Conflict (''listen '' @ listen @ '': cannot mix tenants with and without tls''))
          | None \<Rightarrow> Inr ()) (\<lambda>_.
        let tls_state' = (case tls_state of Some prev \<Rightarrow> Some prev | None \<Rightarrow> Some has_tls) in
        and_then (ensure has_tls (Conflict (''listen '' @ listen @ '': tenants sharing a listen must all have tls''))) (\<lambda>_.
        and_then (ok_or (Missing (about t ''shares listen but has no sni'')) (t_sni t)) (\<lambda>sni.
        and_then (ensure (sni \<noteq> []) (Missing (about t ''sni must be a non-empty hostname''))) (\<lambda>_.
        and_then (ensure (wildcard_shape_ok sni) (Conflict (about t ''sni is an invalid wildcard''))) (\<lambda>_.
        and_then (ensure (sni \<notin> seen_sni) (Conflict (''listen '' @ listen @ '': duplicate sni''))) (\<lambda>_.
        Inr (tls_state', insert sni seen_sni))))))))"

definition check_group :: "string \<times> tenant_config list \<Rightarrow> unit cresult" where
  "check_group g =
     (case g of (listen, ts) \<Rightarrow>
        if length ts = 1 then
          ensure (t_sni (hd ts) = None) (Conflict (about (hd ts) ''sni is set but listen has only one tenant''))
        else and_then (try_fold (check_member listen) (None, {}) ts) (\<lambda>_. Inr ()))"

definition check_limits :: "tenant_config \<Rightarrow> unit cresult" where
  "check_limits t =
     (case t_limits t of
        None \<Rightarrow> Inr ()
      | Some l \<Rightarrow>
          and_then (ensure (max_concurrent l \<noteq> Some 0) (Conflict (about t ''limits.max_concurrent = 0''))) (\<lambda>_.
          case rate_limit_per_source l of
            None \<Rightarrow> Inr ()
          | Some rl \<Rightarrow>
              and_then (ensure (rt_capacity rl \<noteq> 0) (Conflict (about t ''capacity = 0''))) (\<lambda>_.
              ensure (rt_refill_per_sec rl \<noteq> 0) (Conflict (about t ''refill_per_sec = 0'')))))"

definition check_all :: "('a \<Rightarrow> unit cresult) \<Rightarrow> 'a list \<Rightarrow> unit cresult" where
  "check_all f xs = try_fold (\<lambda>_ x. f x) () xs"

text \<open>\<open>ord\<close> is the order in which the hash map of groups is iterated.\<close>

type_synonym group_order = "(string \<times> tenant_config list) list \<Rightarrow> (string \<times> tenant_config list) list"

definition validate_sni_groups :: "group_order \<Rightarrow> config \<Rightarrow> unit cresult" where
  "validate_sni_groups ord c =
     (if c_role c \<noteq> ServeTcp then
        check_all (\<lambda>t. ensure (t_sni t = None) (Conflict (about t ''sni only meaningful for role = serve-tcp''))) (c_tenants c)
      else
        and_then (check_all check_group (ord (group_by t_listen (c_tenants c)))) (\<lambda>_.
        check_all check_limits (c_tenants c)))"

definition check_role :: "role \<Rightarrow> tenant_config \<Rightarrow> unit cresult" where
  "check_role r t =
     (case r of
        ServeTcp \<Rightarrow>
          and_then (ensure (t_peer_pq t \<noteq> None) (Missing (about t ''peer_pq required for role = serve-tcp''))) (\<lambda>_.
          ensure (t_backend t = None) (Conflict (about t ''backend must not be set when role = serve-tcp'')))
      | ServePq \<Rightarrow>
          and_then (ensure (t_backend t \<noteq> None) (Missing (about t ''backend required for role = serve-pq''))) (\<lambda>_.
          and_then (ensure (t_peer_pq t = None) (Conflict (about t ''peer_pq must not be set when role = serve-pq''))) (\<lambda>_.
          ensure (t_tls t = None) (Conflict (about t ''tls section only valid for role = serve-tcp'')))))"

definition check_tenant :: "config \<Rightarrow> string set \<Rightarrow> tenant_config \<Rightarrow> string set cresult" where
  "check_tenant c seen t =
     and_then (ensure (t_name t \<notin> seen) (Conflict (''duplicate tenant name: '' @ t_name t))) (\<lambda>_.
     and_then (ensure (\<not> (t_audit_signer t = None \<and> c_audit_signer c = None)) (Missing (about t ''no audit_signer''))) (\<lambda>_.
     and_then (check_role (c_role c) t) (\<lambda>_. Inr (insert (t_name t) seen))))"

definition validate :: "group_order \<Rightarrow> config \<Rightarrow> unit cresult" where
  "validate ord c =
     and_then (ensure (c_tenants c \<noteq> []) (Missing ''config must declare at least one tenant'')) (\<lambda>_.
     and_then (try_fold (check_tenant c) {} (c_tenants c)) (\<lambda>_.
     validate_sni_groups ord c))"

definition from_toml_str :: "(string \<Rightarrow> string + config) \<Rightarrow> group_order \<Rightarrow> string \<Rightarrow> config cresult" where
  "from_toml_str toml ord text =
     and_then (map_err Parse_Err (toml text)) (\<lambda>c. and_then (validate ord c) (\<lambda>_. Inr c))"

definition load_config :: "(string \<Rightarrow> string + string) \<Rightarrow> (string \<Rightarrow> string + config) \<Rightarrow> group_order \<Rightarrow> string \<Rightarrow> config cresult" where
  "load_config read_file toml ord path =
     and_then (map_err (Read_Err path) (read_file path)) (\<lambda>text.
     and_then (map_err Parse_Err (toml text)) (\<lambda>c. and_then (validate ord c) (\<lambda>_. Inr c)))"

subsection \<open>Resolution\<close>

definition effective_signer :: "config \<Rightarrow> tenant_config \<Rightarrow> audit_signer_config option" where
  "effective_signer c t = (case t_audit_signer t of Some s \<Rightarrow> Some s | None \<Rightarrow> c_audit_signer c)"

definition resolve_one_serve_tcp :: "config \<Rightarrow> tenant_config \<Rightarrow> serve_tcp_tenant cresult" where
  "resolve_one_serve_tcp c t =
     and_then (ensure (c_role c = ServeTcp) (Conflict ''resolve_one_serve_tcp called on non-serve-tcp config'')) (\<lambda>_.
     and_then (ok_or (Missing (about t ''no audit_signer'')) (effective_signer c t)) (\<lambda>audit_signer.
     and_then (ok_or (Missing (about t ''serve-tcp tenant must declare a peer_pq'')) (t_peer_pq t)) (\<lambda>peer_pq.
     Inr \<lparr> st_name = t_name t, st_listen = t_listen t, st_peer_pq = peer_pq,
           st_peer_pub_dir = t_peer_pub_dir t, st_audit_log = t_audit_log t, st_tls = t_tls t,
           st_audit_signer = audit_signer, st_sni = t_sni t, st_limits = t_limits t \<rparr>)))"

definition resolve_serve_tcp :: "config \<Rightarrow> serve_tcp_tenant list cresult" where
  "resolve_serve_tcp c =
     and_then (ensure (c_role c = ServeTcp) (Conflict ''resolve_serve_tcp called on non-serve-tcp config'')) (\<lambda>_.
     try_map (resolve_one_serve_tcp c) (c_tenants c))"

definition resolve_serve_tcp_groups :: "config \<Rightarrow> tls_listener_group list cresult" where
  "resolve_serve_tcp_groups c =
     and_then (resolve_serve_tcp c) (\<lambda>flat.
     Inr (map (\<lambda>(listen, tenants). \<lparr> g_listen = listen, sni_dispatch = length tenants > 1, g_tenants = tenants \<rparr>)
            (group_by st_listen flat)))"

definition resolve_one_serve_pq :: "config \<Rightarrow> tenant_config \<Rightarrow> serve_pq_tenant cresult" where
  "resolve_one_serve_pq c t =
     and_then (ensure (c_role c = ServePq) (Conflict ''resolve_one_serve_pq called on non-serve-pq config'')) (\<lambda>_.
     and_then (ok_or (Missing (about t ''no audit_signer'')) (effective_signer c t)) (\<lambda>audit_signer.
     and_then (ok_or (Missing (about t ''serve-pq tenant must declare a backend'')) (t_backend t)) (\<lambda>backend.
     Inr \<lparr> sp_name = t_name t, sp_listen = t_listen t, sp_backend = backend,
           sp_peer_pub_dir = t_peer_pub_dir t, sp_audit_log = t_audit_log t,
           sp_audit_signer = audit_signer, sp_limits = t_limits t \<rparr>)))"

definition resolve_serve_pq :: "config \<Rightarrow> serve_pq_tenant list cresult" where
  "resolve_serve_pq c =
     and_then (ensure (c_role c = ServePq) (Conflict ''resolve_serve_pq called on non-serve-pq config'')) (\<lambda>_.
     try_map (resolve_one_serve_pq c) (c_tenants c))"

subsection \<open>The specification of a valid configuration\<close>

definition hash_order_ok :: "group_order \<Rightarrow> bool" where
  "hash_order_ok ord \<longleftrightarrow> (\<forall>gs. set (ord gs) = set gs)"

definition siblings :: "config \<Rightarrow> tenant_config \<Rightarrow> tenant_config list" where
  "siblings c t = filter (\<lambda>u. t_listen u = t_listen t) (c_tenants c)"

definition member_ok :: "tenant_config \<Rightarrow> bool" where
  "member_ok t \<longleftrightarrow> t_tls t \<noteq> None \<and> (\<exists>sni. t_sni t = Some sni \<and> sni \<noteq> [] \<and> wildcard_shape_ok sni)"

definition listen_ok :: "config \<Rightarrow> tenant_config \<Rightarrow> bool" where
  "listen_ok c t \<longleftrightarrow>
     (if length (siblings c t) = 1 then t_sni t = None
      else member_ok t \<and> distinct (map t_sni (siblings c t)))"

definition limits_ok :: "tenant_config \<Rightarrow> bool" where
  "limits_ok t \<longleftrightarrow>
     (case t_limits t of
        None \<Rightarrow> True
      | Some l \<Rightarrow> max_concurrent l \<noteq> Some 0 \<and>
          (case rate_limit_per_source l of None \<Rightarrow> True | Some r \<Rightarrow> rt_capacity r \<noteq> 0 \<and> rt_refill_per_sec r \<noteq> 0))"

definition role_ok :: "role \<Rightarrow> tenant_config \<Rightarrow> bool" where
  "role_ok r t \<longleftrightarrow>
     (case r of
        ServeTcp \<Rightarrow> t_peer_pq t \<noteq> None \<and> t_backend t = None
      | ServePq \<Rightarrow> t_backend t \<noteq> None \<and> t_peer_pq t = None \<and> t_tls t = None \<and> t_sni t = None)"

definition config_ok :: "config \<Rightarrow> bool" where
  "config_ok c \<longleftrightarrow>
     c_tenants c \<noteq> [] \<and> distinct (map t_name (c_tenants c)) \<and>
     list_all (\<lambda>t. effective_signer c t \<noteq> None \<and> role_ok (c_role c) t) (c_tenants c) \<and>
     (c_role c = ServeTcp \<longrightarrow> list_all (\<lambda>t. listen_ok c t \<and> limits_ok t) (c_tenants c))"

subsection \<open>Grouping\<close>

lemma foldl_push_group:
  "bt_wf m \<Longrightarrow> list_all (\<lambda>(k, g). g \<noteq> []) m \<Longrightarrow>
   bt_wf (foldl (push_group key) m ts) \<and>
   map_of (foldl (push_group key) m ts) k =
     (case map_of m k of
        None \<Rightarrow> (if filter (\<lambda>t. key t = k) ts = [] then None else Some (filter (\<lambda>t. key t = k) ts))
      | Some g \<Rightarrow> Some (g @ filter (\<lambda>t. key t = k) ts))"
proof (induction ts arbitrary: m)
  case Nil
  then show ?case by (simp split: option.splits)
next
  case (Cons t ts)
  let ?m = "push_group key m t"
  have w: "bt_wf ?m" using Cons.prems(1) by (simp add: push_group_def bt_wf_insert)
  have "set ?m \<subseteq> insert (key t, (case map_of m (key t) of None \<Rightarrow> [] | Some g \<Rightarrow> g) @ [t]) (set m)"
  proof -
    have "set (bt_insert k v m) \<subseteq> insert (k, v) (set m)" for k :: string and v :: "'a list"
      by (induction m) (auto split: if_splits)
    then show ?thesis by (simp add: push_group_def)
  qed
  then have n: "list_all (\<lambda>(k, g). g \<noteq> []) ?m" using Cons.prems(2) by (auto simp: list_all_iff)
  have "map_of ?m k = (if k = key t then Some ((case map_of m (key t) of None \<Rightarrow> [] | Some g \<Rightarrow> g) @ [t]) else map_of m k)"
    by (simp add: push_group_def map_of_bt_insert)
  then show ?case using Cons.IH [OF w n] by (auto split: option.splits)
qed

lemma group_by_props:
  shows bt_wf_group_by: "bt_wf (group_by key ts)"
    and map_of_group_by: "map_of (group_by key ts) k =
      (if filter (\<lambda>t. key t = k) ts = [] then None else Some (filter (\<lambda>t. key t = k) ts))"
  using foldl_push_group [of "[]" key ts k] by (simp_all add: group_by_def)

lemma set_group_by:
  "(k, g) \<in> set (group_by key ts) \<longleftrightarrow> g = filter (\<lambda>t. key t = k) ts \<and> g \<noteq> []"
proof -
  have "distinct (map fst (group_by key ts))"
    using bt_wf_group_by [of key ts] by (simp add: bt_wf_def strict_sorted_iff)
  then have "(k, g) \<in> set (group_by key ts) \<longleftrightarrow> map_of (group_by key ts) k = Some g" by simp
  also have "\<dots> \<longleftrightarrow> g = filter (\<lambda>t. key t = k) ts \<and> g \<noteq> []"
    unfolding map_of_group_by by auto
  finally show ?thesis .
qed

lemma Ball_group_by:
  "(\<forall>g \<in> set (group_by key ts). P g) \<longleftrightarrow> (\<forall>t \<in> set ts. P (key t, filter (\<lambda>u. key u = key t) ts))"
  (is "?l \<longleftrightarrow> ?r")
proof
  assume l: ?l
  have "(key t, filter (\<lambda>u. key u = key t) ts) \<in> set (group_by key ts)" if "t \<in> set ts" for t
    using that by (auto simp: set_group_by filter_empty_conv)
  then show ?r using l by blast
next
  assume r: ?r
  show ?l
  proof (clarify)
    fix k g
    assume "(k, g) \<in> set (group_by key ts)"
    then have g: "g = filter (\<lambda>u. key u = k) ts" "g \<noteq> []" unfolding set_group_by by auto
    then obtain t where "t \<in> set ts" "key t = k" by (auto simp: filter_empty_conv)
    then show "P (k, g)" using r g(1) by auto
  qed
qed

subsection \<open>Validation accepts exactly the valid configurations\<close>

lemma check_all_ok: "check_all f xs = Inr () \<longleftrightarrow> (\<forall>x \<in> set xs. f x = Inr ())"
  unfolding check_all_def by (induction xs) (auto simp: res_simps)

lemma check_member_ok:
  "check_member l (tls, seen) t = Inr st \<longleftrightarrow>
   member_ok t \<and> tls \<noteq> Some False \<and> the (t_sni t) \<notin> seen \<and> st = (Some True, insert (the (t_sni t)) seen)"
  by (cases tls; cases "t_sni t"; cases "t_tls t") (auto simp: check_member_def member_ok_def Let_def res_simps)

lemma check_members_ok:
  "(\<exists>st. try_fold (check_member l) (tls, seen) ts = Inr st) \<longleftrightarrow>
   (ts = [] \<or> tls \<noteq> Some False) \<and> list_all member_ok ts \<and> distinct (map (\<lambda>t. the (t_sni t)) ts) \<and>
   set (map (\<lambda>t. the (t_sni t)) ts) \<inter> seen = {}"
proof (induction ts arbitrary: tls seen)
  case Nil
  then show ?case by simp
next
  case (Cons t ts)
  have "(\<exists>st. try_fold (check_member l) (tls, seen) (t # ts) = Inr st) \<longleftrightarrow>
        member_ok t \<and> tls \<noteq> Some False \<and> the (t_sni t) \<notin> seen \<and>
        (\<exists>st. try_fold (check_member l) (Some True, insert (the (t_sni t)) seen) ts = Inr st)"
    by (auto simp: res_simps check_member_ok)
  then show ?case unfolding Cons.IH by auto
qed

lemma distinct_the_sni:
  "list_all member_ok ts \<Longrightarrow> distinct (map (\<lambda>t. the (t_sni t)) ts) \<longleftrightarrow> distinct (map t_sni ts)"
proof -
  assume "list_all member_ok ts"
  then have "map t_sni ts = map Some (map (\<lambda>t. the (t_sni t)) ts)" by (auto simp: list_all_iff member_ok_def)
  then show ?thesis by (simp only: distinct_map [of Some]) simp
qed

lemma check_group_ok:
  "check_group (l, ts) = Inr () \<longleftrightarrow>
   (if length ts = 1 then t_sni (hd ts) = None else list_all member_ok ts \<and> distinct (map t_sni ts))"
proof -
  have "and_then r (\<lambda>_. Inr ()) = Inr () \<longleftrightarrow> (\<exists>st. r = Inr st)" for r :: "('s) cresult"
    by (cases r) auto
  then have "check_group (l, ts) = Inr () \<longleftrightarrow>
      (if length ts = 1 then t_sni (hd ts) = None
       else \<exists>st. try_fold (check_member l) (None, {}) ts = Inr st)"
    by (simp add: check_group_def res_simps)
  then show ?thesis unfolding check_members_ok using distinct_the_sni [of ts] by auto
qed

lemma check_limits_ok: "check_limits t = Inr () \<longleftrightarrow> limits_ok t"
  by (auto simp: check_limits_def limits_ok_def res_simps split: option.splits)

lemma check_tenants_ok:
  "(\<exists>seen'. try_fold (check_tenant c) seen ts = Inr seen') \<longleftrightarrow>
   distinct (map t_name ts) \<and> t_name ` set ts \<inter> seen = {} \<and>
   list_all (\<lambda>t. effective_signer c t \<noteq> None \<and> check_role (c_role c) t = Inr ()) ts"
proof (induction ts arbitrary: seen)
  case Nil
  then show ?case by simp
next
  case (Cons t ts)
  have "(\<exists>seen'. try_fold (check_tenant c) seen (t # ts) = Inr seen') \<longleftrightarrow>
        t_name t \<notin> seen \<and> effective_signer c t \<noteq> None \<and> check_role (c_role c) t = Inr () \<and>
        (\<exists>seen'. try_fold (check_tenant c) (insert (t_name t) seen) ts = Inr seen')"
    by (auto simp: res_simps check_tenant_def effective_signer_def split: option.splits)
  then show ?case unfolding Cons.IH by auto
qed

lemma check_role_ok:
  "check_role r t = Inr () \<longleftrightarrow>
   (case r of ServeTcp \<Rightarrow> t_peer_pq t \<noteq> None \<and> t_backend t = None
    | ServePq \<Rightarrow> t_backend t \<noteq> None \<and> t_peer_pq t = None \<and> t_tls t = None)"
  by (auto simp: check_role_def res_simps split: role.splits)

lemma groups_ok:
  assumes "hash_order_ok ord"
  shows "check_all check_group (ord (group_by t_listen (c_tenants c))) = Inr () \<longleftrightarrow>
         list_all (listen_ok c) (c_tenants c)"
proof -
  have "check_all check_group (ord (group_by t_listen (c_tenants c))) = Inr () \<longleftrightarrow>
        (\<forall>t \<in> set (c_tenants c). check_group (t_listen t, siblings c t) = Inr ())"
    using assms by (simp add: check_all_ok hash_order_ok_def Ball_group_by siblings_def)
  also have "\<dots> \<longleftrightarrow> (\<forall>t \<in> set (c_tenants c).
      if length (siblings c t) = 1 then t_sni (hd (siblings c t)) = None
      else list_all member_ok (siblings c t) \<and> distinct (map t_sni (siblings c t)))"
    by (simp add: check_group_ok)
  also have "\<dots> \<longleftrightarrow> list_all (listen_ok c) (c_tenants c)"
  proof -
    have s: "t \<in> set (siblings c t)" if "t \<in> set (c_tenants c)" for t
      using that by (simp add: siblings_def)
    have h: "hd (siblings c t) = t" if "t \<in> set (c_tenants c)" "length (siblings c t) = 1" for t
      using s [OF that(1)] that(2) by (cases "siblings c t") auto
    have e: "siblings c u = siblings c t" if "u \<in> set (siblings c t)" for t u
      using that by (simp add: siblings_def)
    have m: "u \<in> set (c_tenants c)" if "u \<in> set (siblings c t)" for t u
      using that by (simp add: siblings_def)
    show ?thesis unfolding list_all_iff listen_ok_def using s h e m by (smt (verit))
  qed
  finally show ?thesis .
qed

lemma validate_iff:
  assumes "hash_order_ok ord"
  shows "validate ord c = Inr () \<longleftrightarrow> config_ok c"
proof -
  have v: "validate ord c = Inr () \<longleftrightarrow>
      c_tenants c \<noteq> [] \<and> (\<exists>seen. try_fold (check_tenant c) {} (c_tenants c) = Inr seen) \<and>
      validate_sni_groups ord c = Inr ()"
    by (auto simp: validate_def res_simps)
  show ?thesis
  proof (cases "c_role c")
    case ServeTcp
    have "validate_sni_groups ord c = Inr () \<longleftrightarrow>
        list_all (listen_ok c) (c_tenants c) \<and> check_all check_limits (c_tenants c) = Inr ()"
      using ServeTcp groups_ok [OF assms, of c] by (auto simp: validate_sni_groups_def res_simps)
    then show ?thesis
      unfolding v check_tenants_ok config_ok_def using ServeTcp
      by (auto simp: check_all_ok check_limits_ok check_role_ok role_ok_def list_all_iff)
  next
    case ServePq
    then show ?thesis
      unfolding v check_tenants_ok config_ok_def
      by (auto simp: validate_sni_groups_def res_simps check_all_ok check_role_ok role_ok_def list_all_iff)
  qed
qed

subsection \<open>A valid configuration resolves\<close>

definition resolved_tcp :: "config \<Rightarrow> tenant_config \<Rightarrow> serve_tcp_tenant" where
  "resolved_tcp c t = \<lparr> st_name = t_name t, st_listen = t_listen t, st_peer_pq = the (t_peer_pq t),
     st_peer_pub_dir = t_peer_pub_dir t, st_audit_log = t_audit_log t, st_tls = t_tls t,
     st_audit_signer = the (effective_signer c t), st_sni = t_sni t, st_limits = t_limits t \<rparr>"

lemma resolved_tcp_sel [simp]:
  "st_name (resolved_tcp c t) = t_name t" "st_listen (resolved_tcp c t) = t_listen t"
  "st_sni (resolved_tcp c t) = t_sni t" "st_tls (resolved_tcp c t) = t_tls t"
  by (simp_all add: resolved_tcp_def)

lemma resolve_serve_tcp_ok:
  assumes "config_ok c" "c_role c = ServeTcp"
  shows "resolve_serve_tcp c = Inr (map (resolved_tcp c) (c_tenants c))"
proof -
  have "resolve_one_serve_tcp c t = Inr (resolved_tcp c t)" if "t \<in> set (c_tenants c)" for t
    using assms that by (auto simp: config_ok_def list_all_iff role_ok_def resolve_one_serve_tcp_def resolved_tcp_def)
  then show ?thesis using assms(2) by (simp add: resolve_serve_tcp_def try_map_ok)
qed

lemma resolve_serve_pq_ok:
  assumes "config_ok c" "c_role c = ServePq"
  shows "\<exists>ts. resolve_serve_pq c = Inr ts \<and> map sp_name ts = map t_name (c_tenants c)"
proof -
  let ?f = "\<lambda>t. \<lparr> sp_name = t_name t, sp_listen = t_listen t, sp_backend = the (t_backend t),
           sp_peer_pub_dir = t_peer_pub_dir t, sp_audit_log = t_audit_log t,
           sp_audit_signer = the (effective_signer c t), sp_limits = t_limits t \<rparr>"
  have "resolve_one_serve_pq c t = Inr (?f t)" if "t \<in> set (c_tenants c)" for t
    using assms that by (auto simp: config_ok_def list_all_iff role_ok_def resolve_one_serve_pq_def)
  then have "resolve_serve_pq c = Inr (map ?f (c_tenants c))"
    using assms(2) by (simp add: resolve_serve_pq_def try_map_ok)
  then show ?thesis by simp
qed

lemma resolve_groups_ok:
  assumes "config_ok c" "c_role c = ServeTcp"
  shows "resolve_serve_tcp_groups c =
    Inr (map (\<lambda>(l, ts). \<lparr> g_listen = l, sni_dispatch = length ts > 1, g_tenants = ts \<rparr>)
      (group_by st_listen (map (resolved_tcp c) (c_tenants c))))"
  by (simp add: resolve_serve_tcp_groups_def resolve_serve_tcp_ok [OF assms])

lemma group_member:
  assumes "config_ok c" "c_role c = ServeTcp" "resolve_serve_tcp_groups c = Inr gs" "g \<in> set gs"
  shows "g_tenants g = map (resolved_tcp c) (filter (\<lambda>t. t_listen t = g_listen g) (c_tenants c))"
    "g_tenants g \<noteq> []" "sni_dispatch g \<longleftrightarrow> length (g_tenants g) > 1"
proof -
  obtain l ts where lt: "(l, ts) \<in> set (group_by st_listen (map (resolved_tcp c) (c_tenants c)))"
    and g: "g = \<lparr> g_listen = l, sni_dispatch = length ts > 1, g_tenants = ts \<rparr>"
    using assms(3,4) unfolding resolve_groups_ok [OF assms(1,2)] by auto
  have "ts = filter (\<lambda>t. st_listen t = l) (map (resolved_tcp c) (c_tenants c))" "ts \<noteq> []"
    using lt unfolding set_group_by by auto
  then show "g_tenants g = map (resolved_tcp c) (filter (\<lambda>t. t_listen t = g_listen g) (c_tenants c))"
    "g_tenants g \<noteq> []" "sni_dispatch g \<longleftrightarrow> length (g_tenants g) > 1"
    using g by (simp_all add: filter_map comp_def)
qed

lemma group_siblings:
  assumes "config_ok c" "c_role c = ServeTcp" "resolve_serve_tcp_groups c = Inr gs" "g \<in> set gs" "sni_dispatch g"
  shows "distinct (map st_sni (g_tenants g))"
    "x \<in> set (g_tenants g) \<Longrightarrow> \<exists>sni tls. st_sni x = Some sni \<and> st_tls x = Some tls \<and> wildcard_shape_ok sni"
proof -
  note m = group_member [OF assms(1-4)]
  obtain x0 where x0: "x0 \<in> set (c_tenants c)" "t_listen x0 = g_listen g"
    using m(1,2) by (auto simp: filter_empty_conv)
  have sib: "siblings c t = filter (\<lambda>u. t_listen u = g_listen g) (c_tenants c)" if "t_listen t = g_listen g" for t
    using that by (simp add: siblings_def)
  have ok: "listen_ok c t" if "t \<in> set (c_tenants c)" for t
    using assms(1,2) that by (simp add: config_ok_def list_all_iff)
  have len: "length (filter (\<lambda>u. t_listen u = g_listen g) (c_tenants c)) \<noteq> 1"
    using m(1,3) assms(5) by simp
  show "distinct (map st_sni (g_tenants g))"
    using ok [OF x0(1)] sib [OF x0(2)] len m(1) by (simp add: listen_ok_def comp_def)
  show "\<exists>sni tls. st_sni x = Some sni \<and> st_tls x = Some tls \<and> wildcard_shape_ok sni"
    if x: "x \<in> set (g_tenants g)"
  proof -
    obtain t where t: "t \<in> set (c_tenants c)" "t_listen t = g_listen g" "x = resolved_tcp c t"
      using x m(1) by auto
    then show ?thesis using ok [OF t(1)] sib [OF t(2)] len by (auto simp: listen_ok_def member_ok_def)
  qed
qed

subsection \<open>The difference of two tenants\<close>

lemma tls_eq_iff: "tls_eq a b \<longleftrightarrow> a = b"
  by (cases a; cases b) (auto intro: tls_config.equality)

lemma audit_signer_eq_iff: "audit_signer_eq a b \<longleftrightarrow> a = b"
proof -
  have "audit_signer_inner_eq x y \<longleftrightarrow> x = y" for x y by (cases x; cases y) auto
  then show ?thesis by (cases a; cases b) auto
qed

lemma limits_eq_iff: "limits_eq a b \<longleftrightarrow> a = b"
proof -
  have "rate_eq x y \<longleftrightarrow> x = y" for x y by (cases x; cases y) (auto intro: rate_limit_toml.equality)
  then show ?thesis by (cases a; cases b) (auto intro: tenant_limits.equality)
qed

lemmas change_eqs = tls_eq_iff audit_signer_eq_iff limits_eq_iff

lemma cold_neq_hot [simp]: "ch_kind (tc_cold f) = Cold" "ch_kind (tc_hot f) = Hot"
  by (simp_all add: tc_cold_def tc_hot_def)

lemma no_cold_changes_iff:
  "list_all (\<lambda>ch. ch_kind ch = Hot) (material_changes a b) \<longleftrightarrow>
   b = a\<lparr> t_name := t_name b, t_limits := t_limits b \<rparr>"
  by (cases a; cases b) (auto simp: material_changes_def change_eqs)

lemma material_changes_Nil_iff: "material_changes a b = [] \<longleftrightarrow> b = a\<lparr> t_name := t_name b \<rparr>"
  by (cases a; cases b) (auto simp: material_changes_def change_eqs)

end
