(* ===== verification/Sni.thy ===== *)
theory Sni
  imports Config "HOL-Library.Multiset"
begin

text \<open>
  Routing by server name (\<open>qgateway-core/src/gateway.rs\<close>, \<open>SniDispatchTable\<close>, and
  \<open>qgateway-core/src/tls.rs\<close>): the dispatch table from names to tenants, the certificate
  resolver, and the reload trigger that rebuilds and swaps a TLS acceptor.

  Both tables hold exact names and one-label wildcards. Their common contract is the locale
  \<open>sni_router\<close>: a table built from a list of entries answers as the reference \<open>sni_route\<close> does.
  A hash map is an association list; the errors of \<open>anyhow\<close> are strings.
\<close>

type_synonym 'a gresult = "string + 'a"

definition is_wild :: "string \<Rightarrow> bool" where
  "is_wild s = starts_with ''*.'' s"

definition contains :: "string \<Rightarrow> char \<Rightarrow> bool" where
  "contains s c \<longleftrightarrow> c \<in> set s"

text \<open>The loop over the wildcard list: the first suffix that leaves exactly one label.\<close>

fun wild_lookup :: "(string \<times> 'v) list \<Rightarrow> string \<Rightarrow> 'v option" where
  "wild_lookup [] n = None"
| "wild_lookup ((suffix, v) # ws) n =
     (case strip_suffix suffix n of
        Some pre \<Rightarrow> if pre \<noteq> [] \<and> \<not> contains pre (CHR ''.'') then Some v else wild_lookup ws n
      | None \<Rightarrow> wild_lookup ws n)"

subsection \<open>The dispatch table\<close>

text \<open>
  The tenant and a token for its runtime handles (policy, audit channel, metrics, admission),
  which routing carries and never looks at.
\<close>

record sni_ctx =
  ctx_tenant :: serve_tcp_tenant
  ctx_runtime :: nat

abbreviation ctx_name :: "sni_ctx \<Rightarrow> string" where
  "ctx_name c \<equiv> st_name (ctx_tenant c)"

abbreviation ctx_sni :: "sni_ctx \<Rightarrow> string option" where
  "ctx_sni c \<equiv> st_sni (ctx_tenant c)"

record sni_table =
  by_sni :: "(string \<times> sni_ctx) list"
  wildcards :: "(string \<times> sni_ctx) list"

definition table_insert :: "sni_table \<Rightarrow> sni_ctx \<Rightarrow> sni_table gresult" where
  "table_insert t ctx =
     (case ctx_sni ctx of
        None \<Rightarrow> Inl ''tenant has no sni''
      | Some sni \<Rightarrow>
          if is_wild sni then
            let suffix = drop 1 sni in
            if suffix \<in> fst ` set (wildcards t) then Inl ''duplicate wildcard SNI''
            else Inr (t\<lparr> wildcards := wildcards t @ [(suffix, ctx)] \<rparr>)
          else if map_of (by_sni t) sni \<noteq> None then Inl ''duplicate SNI''
          else Inr (t\<lparr> by_sni := (sni, ctx) # by_sni t \<rparr>))"

definition SniDispatchTable_new :: "sni_ctx list \<Rightarrow> sni_table gresult" where
  "SniDispatchTable_new ctxs = try_fold table_insert \<lparr> by_sni = [], wildcards = [] \<rparr> ctxs"

definition table_lookup :: "sni_table \<Rightarrow> string \<Rightarrow> sni_ctx option" where
  "table_lookup t sni =
     (case map_of (by_sni t) sni of Some c \<Rightarrow> Some c | None \<Rightarrow> wild_lookup (wildcards t) sni)"

definition with_tenant_added :: "sni_table \<Rightarrow> sni_ctx \<Rightarrow> sni_table gresult" where
  "with_tenant_added t ctx = table_insert t ctx"

definition with_tenant_removed :: "sni_table \<Rightarrow> string \<Rightarrow> sni_table option" where
  "with_tenant_removed t name =
     (let bs = filter (\<lambda>(s, c). ctx_name c \<noteq> name) (by_sni t);
          ws = filter (\<lambda>(s, c). ctx_name c \<noteq> name) (wildcards t)
      in if length bs = length (by_sni t) \<and> length ws = length (wildcards t) then None
         else Some \<lparr> by_sni = bs, wildcards = ws \<rparr>)"

definition tenant_names :: "sni_table \<Rightarrow> string list" where
  "tenant_names t = map (\<lambda>(s, c). ctx_name c) (by_sni t) @ map (\<lambda>(s, c). ctx_name c) (wildcards t)"

text \<open>The swappable wrapper: the accept loop loads it once per connection.\<close>

record hot_sni =
  hot_table :: sni_table

definition hot_sni_new :: "sni_table \<Rightarrow> hot_sni" where
  "hot_sni_new t = \<lparr> hot_table = t \<rparr>"

definition hot_sni_load :: "hot_sni \<Rightarrow> sni_table" where
  "hot_sni_load h = hot_table h"

definition hot_sni_swap :: "hot_sni \<Rightarrow> sni_table \<Rightarrow> sni_table \<times> hot_sni" where
  "hot_sni_swap h t = (hot_table h, h\<lparr> hot_table := t \<rparr>)"

subsection \<open>The certificate resolver\<close>

text \<open>
  Reading certificates is a parameter: the chain of a PEM file, the private key of a PEM
  file, whether the TLS library supports the key, and whether it accepts the pair as the
  single certificate of a server.
\<close>

record tls_files =
  load_cert_chain :: "string \<Rightarrow> bytes list option"
  load_private_key :: "string \<Rightarrow> bytes option"
  supported_key :: "bytes \<Rightarrow> bool"
  single_cert_ok :: "bytes list \<Rightarrow> bytes \<Rightarrow> bool"

type_synonym certified_key = "bytes list \<times> bytes"

record resolver =
  res_by_sni :: "(string \<times> certified_key) list"
  res_wildcards :: "(string \<times> certified_key) list"

definition resolver_insert :: "resolver \<Rightarrow> string \<times> certified_key \<Rightarrow> resolver gresult" where
  "resolver_insert r e =
     (case e of (sni, cert) \<Rightarrow>
        if contains sni (CHR ''*'') then
          if \<not> starts_with ''*.'' sni \<or> contains (drop 2 sni) (CHR ''*'') then Inl ''invalid wildcard SNI''
          else let suffix = drop 1 sni in
            if suffix \<in> fst ` set (res_wildcards r) then Inl ''duplicate wildcard SNI''
            else Inr (r\<lparr> res_wildcards := res_wildcards r @ [(suffix, cert)] \<rparr>)
        else if map_of (res_by_sni r) sni \<noteq> None then Inl ''duplicate SNI hostname''
        else Inr (r\<lparr> res_by_sni := (sni, cert) # res_by_sni r \<rparr>))"

definition MultiSniCertResolver_new :: "(string \<times> certified_key) list \<Rightarrow> resolver gresult" where
  "MultiSniCertResolver_new es =
     (if es = [] then Inl ''at least one tenant cert required''
      else try_fold resolver_insert \<lparr> res_by_sni = [], res_wildcards = [] \<rparr> es)"

definition known_snis :: "resolver \<Rightarrow> string list" where
  "known_snis r = map fst (res_by_sni r) @ map (\<lambda>(suffix, c). CHR ''*'' # suffix) (res_wildcards r)"

definition resolve :: "resolver \<Rightarrow> string option \<Rightarrow> certified_key option" where
  "resolve r server_name =
     (case server_name of
        None \<Rightarrow> None
      | Some name \<Rightarrow>
          (case map_of (res_by_sni r) name of Some c \<Rightarrow> Some c | None \<Rightarrow> wild_lookup (res_wildcards r) name))"

definition load_certified :: "tls_files \<Rightarrow> tls_config \<Rightarrow> certified_key gresult" where
  "load_certified F cfg =
     and_then (ok_or ''loading cert chain'' (load_cert_chain F (cert_path cfg))) (\<lambda>certs.
     and_then (ensure (certs \<noteq> []) ''no certificates parsed'') (\<lambda>_.
     and_then (ok_or ''loading private key'' (load_private_key F (key_path cfg))) (\<lambda>key.
     and_then (ensure (supported_key F key) ''invalid signing key'') (\<lambda>_. Inr (certs, key)))))"

text \<open>An acceptor, by the way it chooses its certificate.\<close>

datatype acceptor = SingleCert certified_key | MultiCert resolver

definition build_acceptor :: "tls_files \<Rightarrow> tls_config \<Rightarrow> acceptor gresult" where
  "build_acceptor F cfg =
     and_then (ok_or ''loading cert chain'' (load_cert_chain F (cert_path cfg))) (\<lambda>certs.
     and_then (ensure (certs \<noteq> []) ''no certificates parsed'') (\<lambda>_.
     and_then (ok_or ''loading private key'' (load_private_key F (key_path cfg))) (\<lambda>key.
     and_then (ensure (single_cert_ok F certs key) ''rustls server config build failed'') (\<lambda>_.
     Inr (SingleCert (certs, key))))))"

definition build_multi_sni_acceptor :: "tls_files \<Rightarrow> (string \<times> string \<times> tls_config) list \<Rightarrow> acceptor gresult" where
  "build_multi_sni_acceptor F entries =
     and_then (try_map (\<lambda>(sni, tenant_name, cfg). and_then (load_certified F cfg) (\<lambda>c. Inr (sni, c))) entries) (\<lambda>certs.
     and_then (MultiSniCertResolver_new certs) (\<lambda>r. Inr (MultiCert r)))"

subsection \<open>The reload trigger\<close>

datatype reload_source = SingleSource tls_config | MultiSource "(string \<times> string \<times> tls_config) list"

text \<open>
  The watch channel keeps the installed acceptor; a send with no receiver left is dropped
  and leaves the value as it was.
\<close>

record reload_trigger =
  installed :: acceptor
  receivers :: nat
  source :: reload_source
  trig_label :: string

definition build_reloadable_acceptor :: "tls_files \<Rightarrow> tls_config \<Rightarrow> string \<Rightarrow> reload_trigger gresult" where
  "build_reloadable_acceptor F cfg name =
     and_then (build_acceptor F cfg) (\<lambda>acc.
     Inr \<lparr> installed = acc, receivers = 1, source = SingleSource cfg, trig_label = name \<rparr>)"

definition build_reloadable_multi_sni_acceptor :: "tls_files \<Rightarrow> (string \<times> string \<times> tls_config) list \<Rightarrow> string \<Rightarrow> reload_trigger gresult" where
  "build_reloadable_multi_sni_acceptor F entries lbl =
     and_then (build_multi_sni_acceptor F entries) (\<lambda>acc.
     Inr \<lparr> installed = acc, receivers = 1, source = MultiSource entries, trig_label = lbl \<rparr>)"

definition reload :: "tls_files \<Rightarrow> reload_trigger \<Rightarrow> acceptor gresult \<times> reload_trigger" where
  "reload F tr =
     (case (case source tr of
              SingleSource cfg \<Rightarrow> build_acceptor F cfg
            | MultiSource entries \<Rightarrow> build_multi_sni_acceptor F entries) of
        Inl e \<Rightarrow> (Inl e, tr)
      | Inr acc \<Rightarrow> (Inr (installed tr), if 0 < receivers tr then tr\<lparr> installed := acc \<rparr> else tr))"

definition add_sni_entry :: "tls_files \<Rightarrow> reload_trigger \<Rightarrow> string \<Rightarrow> string \<Rightarrow> tls_config \<Rightarrow> acceptor gresult \<times> reload_trigger" where
  "add_sni_entry F tr label sni cfg =
     (case source tr of
        SingleSource _ \<Rightarrow> (Inl ''add_sni_entry called on single-source trigger'', tr)
      | MultiSource entries \<Rightarrow>
          if \<exists>(l, _, _) \<in> set entries. l = label then (Inl ''tenant already in multi-SNI group'', tr)
          else let entries' = entries @ [(label, sni, cfg)] in
            case reload F (tr\<lparr> source := MultiSource entries' \<rparr>) of
              (Inr prev, tr') \<Rightarrow> (Inr prev, tr')
            | (Inl e, tr') \<Rightarrow>
                (Inl e, tr'\<lparr> source := MultiSource (filter (\<lambda>(l, _, _). l \<noteq> label) entries') \<rparr>))"

fun remove_first :: "('a \<Rightarrow> bool) \<Rightarrow> 'a list \<Rightarrow> ('a \<times> 'a list) option" where
  "remove_first P [] = None"
| "remove_first P (x # xs) = (if P x then Some (x, xs) else map_option (apsnd ((#) x)) (remove_first P xs))"

definition remove_sni_entry :: "tls_files \<Rightarrow> reload_trigger \<Rightarrow> string \<Rightarrow> acceptor gresult \<times> reload_trigger" where
  "remove_sni_entry F tr label =
     (case source tr of
        SingleSource _ \<Rightarrow> (Inl ''remove_sni_entry called on single-source trigger'', tr)
      | MultiSource entries \<Rightarrow>
          (case remove_first (\<lambda>(l, _, _). l = label) entries of
             None \<Rightarrow> (Inl ''tenant not in multi-SNI group'', tr)
           | Some (removed, rest) \<Rightarrow>
               (case reload F (tr\<lparr> source := MultiSource rest \<rparr>) of
                  (Inr prev, tr') \<Rightarrow> (Inr prev, tr')
                | (Inl e, tr') \<Rightarrow> (Inl e, tr'\<lparr> source := MultiSource (rest @ [removed]) \<rparr>))))"

definition sni_labels :: "reload_trigger \<Rightarrow> string list gresult" where
  "sni_labels tr =
     (case source tr of
        SingleSource _ \<Rightarrow> Inl ''sni_labels called on single-source trigger''
      | MultiSource entries \<Rightarrow> Inr (map (\<lambda>(l, _, _). l) entries))"

subsection \<open>The reference\<close>

text \<open>
  An exact entry for the name wins; otherwise the name is split at its first dot, and the
  wildcard with that rest decides, when the first label is not empty.
\<close>

definition first_label :: "string \<Rightarrow> string" where
  "first_label n = takeWhile (\<lambda>c. c \<noteq> CHR ''.'') n"

definition parent_suffix :: "string \<Rightarrow> string" where
  "parent_suffix n = dropWhile (\<lambda>c. c \<noteq> CHR ''.'') n"

definition sni_route :: "(string \<times> 'v) list \<Rightarrow> string \<Rightarrow> 'v option" where
  "sni_route es n =
     (case map_of (filter (\<lambda>(s, v). \<not> is_wild s) es) n of
        Some v \<Rightarrow> Some v
      | None \<Rightarrow>
          if first_label n = [] \<or> parent_suffix n = [] then None
          else map_of (filter (\<lambda>(s, v). is_wild s) es) (CHR ''*'' # parent_suffix n))"

lemma split_first_dot:
  assumes "CHR ''.'' \<notin> set pre"
  shows "first_label (pre @ CHR ''.'' # d) = pre" "parent_suffix (pre @ CHR ''.'' # d) = CHR ''.'' # d"
proof -
  have "\<And>c. c \<in> set pre \<Longrightarrow> c \<noteq> CHR ''.''" using assms by auto
  then show "first_label (pre @ CHR ''.'' # d) = pre" "parent_suffix (pre @ CHR ''.'' # d) = CHR ''.'' # d"
    unfolding first_label_def parent_suffix_def by (simp_all add: takeWhile_append2 dropWhile_append2)
qed

lemma label_no_dot:
  "CHR ''.'' \<notin> set (first_label n)" "first_label n @ parent_suffix n = n"
  "parent_suffix n \<noteq> [] \<Longrightarrow> hd (parent_suffix n) = CHR ''.''"
  unfolding first_label_def parent_suffix_def
  using hd_dropWhile [of "\<lambda>c. c \<noteq> CHR ''.''" n] by (auto dest: set_takeWhileD)

lemma wild_lookup_spec:
  assumes "\<forall>(s, v) \<in> set ws. \<exists>d. s = CHR ''.'' # d"
  shows "wild_lookup ws n =
    (if first_label n = [] \<or> parent_suffix n = [] then None else map_of ws (parent_suffix n))"
  using assms
proof (induction ws)
  case Nil
  then show ?case by simp
next
  case (Cons w ws)
  obtain s v d where w: "w = (s, v)" "s = CHR ''.'' # d" using Cons.prems by (cases w) auto
  have IH: "wild_lookup ws n = (if first_label n = [] \<or> parent_suffix n = [] then None else map_of ws (parent_suffix n))"
    using Cons by simp
  have "(\<exists>pre. strip_suffix s n = Some pre \<and> pre \<noteq> [] \<and> \<not> contains pre (CHR ''.'')) \<longleftrightarrow>
        first_label n \<noteq> [] \<and> parent_suffix n = s" (is "?l \<longleftrightarrow> ?r")
  proof
    assume ?l
    then show ?r using split_first_dot w(2) by (auto simp: strip_suffix_Some_iff contains_def)
  next
    assume ?r
    then have "strip_suffix s n = Some (first_label n)"
      using label_no_dot(2) [of n] by (simp add: strip_suffix_Some_iff)
    then show ?l using \<open>?r\<close> label_no_dot(1) [of n] by (simp add: contains_def)
  qed
  then show ?case using w IH by (auto split: option.splits)
qed

subsection \<open>Both tables simulate one insertion\<close>

text \<open>The step the two tables share, on their exact and wildcard lists.\<close>

fun route_insert :: "(string \<times> 'v) list \<times> (string \<times> 'v) list \<Rightarrow> string \<times> 'v \<Rightarrow>
    ((string \<times> 'v) list \<times> (string \<times> 'v) list) option" where
  "route_insert (bs, ws) (s, v) =
     (if is_wild s then
        if drop 1 s \<in> fst ` set ws then None else Some (bs, ws @ [(drop 1 s, v)])
      else if map_of bs s \<noteq> None then None else Some ((s, v) # bs, ws))"

definition routes_of :: "(string \<times> 'v) list \<Rightarrow> (string \<times> 'v) list \<times> (string \<times> 'v) list \<Rightarrow> bool" where
  "routes_of es r \<longleftrightarrow>
     fst r = rev (filter (\<lambda>(s, v). \<not> is_wild s) es) \<and>
     snd r = map (apfst (drop 1)) (filter (\<lambda>(s, v). is_wild s) es) \<and> distinct (map fst es)"

lemma is_wild_split: "is_wild s \<longleftrightarrow> (\<exists>d. s = CHR ''*'' # CHR ''.'' # d)"
  by (auto simp: is_wild_def starts_with_iff)

lemma routes_of_Nil: "routes_of [] ([], [])"
  by (simp add: routes_of_def)

lemma drop_wild_inj: "is_wild s \<Longrightarrow> is_wild s' \<Longrightarrow> drop 1 s = drop 1 s' \<longleftrightarrow> s = s'"
  by (auto simp: is_wild_split)

lemma routes_of_step:
  assumes "routes_of es r" "route_insert r (s, v) = Some r'"
  shows "routes_of (es @ [(s, v)]) r'"
proof (cases "is_wild s")
  case True
  have "s \<notin> fst ` set es"
  proof
    assume "s \<in> fst ` set es"
    then have "drop 1 s \<in> fst ` set (snd r)" using assms(1) True
      by (force simp: routes_of_def)
    then show False using assms(2) True by (cases r) auto
  qed
  then show ?thesis using assms True by (cases r) (auto simp: routes_of_def split: if_splits)
next
  case False
  have "s \<notin> fst ` set es"
  proof
    assume "s \<in> fst ` set es"
    then have "s \<in> fst ` set (fst r)" using assms(1) False
      by (force simp: routes_of_def)
    then show False using assms(2) False by (cases r) (auto simp: map_of_eq_None_iff)
  qed
  then show ?thesis using assms False by (cases r) (auto simp: routes_of_def split: if_splits)
qed

lemma routes_of_insert_ok:
  assumes "routes_of es r" "s \<notin> fst ` set es"
  shows "\<exists>r'. route_insert r (s, v) = Some r'"
proof -
  have "is_wild s \<Longrightarrow> drop 1 s \<notin> fst ` set (snd r)"
    using assms drop_wild_inj [of _ s] by (force simp: routes_of_def)
  moreover have "map_of (fst r) s = None"
    using assms by (force simp: routes_of_def map_of_eq_None_iff)
  ultimately show ?thesis by (cases r) auto
qed

lemma map_of_suffixes:
  "\<forall>(s, v) \<in> set ws. is_wild s \<Longrightarrow> map_of (map (apfst (drop 1)) ws) p = map_of ws (CHR ''*'' # p)"
  by (induction ws) (auto simp: is_wild_split)

lemma distinct_fst_filter: "distinct (map fst xs) \<Longrightarrow> distinct (map fst (filter P xs))"
  by (induction xs) auto

lemma map_of_rev_distinct: "distinct (map fst xs) \<Longrightarrow> map_of (rev xs) = map_of xs"
  by (subst map_of_inject_set) (auto simp: rev_map [symmetric])

lemma routes_of_lookup:
  assumes "routes_of es (bs, ws)"
  shows "(case map_of bs n of Some c \<Rightarrow> Some c | None \<Rightarrow> wild_lookup ws n) = sni_route es n"
proof -
  have b: "map_of bs n = map_of (filter (\<lambda>(s, v). \<not> is_wild s) es) n"
    using assms by (simp add: routes_of_def map_of_rev_distinct distinct_fst_filter)
  have w: "ws = map (apfst (drop 1)) (filter (\<lambda>(s, v). is_wild s) es)"
    using assms by (simp add: routes_of_def)
  have "wild_lookup ws n = (if first_label n = [] \<or> parent_suffix n = [] then None else map_of ws (parent_suffix n))"
    by (rule wild_lookup_spec) (auto simp: w is_wild_split)
  then show ?thesis unfolding sni_route_def b w
    by (subst (asm) map_of_suffixes) (auto split: option.splits)
qed

subsection \<open>The routing contract\<close>

locale sni_router =
  fixes build :: "(string \<times> 'v) list \<Rightarrow> 't option"
    and lookup :: "'t \<Rightarrow> string \<Rightarrow> 'v option"
  assumes routes: "build es = Some t \<Longrightarrow> lookup t n = sni_route es n"
    and names_distinct: "build es = Some t \<Longrightarrow> distinct (map fst es)"
begin

lemma exact_wins:
  assumes "build es = Some t" "(n, v) \<in> set es" "\<not> is_wild n"
  shows "lookup t n = Some v"
proof -
  have "map_of (filter (\<lambda>(s, v). \<not> is_wild s) es) n = Some v"
    using assms names_distinct by (intro map_of_is_SomeI) (auto intro: distinct_fst_filter)
  then show ?thesis using routes [OF assms(1)] by (simp add: sni_route_def)
qed

lemma wildcard_one_label:
  assumes "build es = Some t" "(CHR ''*'' # CHR ''.'' # d, v) \<in> set es"
    and "l @ CHR ''.'' # d \<notin> fst ` set es" "l \<noteq> []" "CHR ''.'' \<notin> set l"
  shows "lookup t (l @ CHR ''.'' # d) = Some v"
proof -
  have w: "map_of (filter (\<lambda>(s, v). is_wild s) es) (CHR ''*'' # CHR ''.'' # d) = Some v"
    using assms names_distinct
    by (intro map_of_is_SomeI) (auto intro: distinct_fst_filter simp: is_wild_split)
  have "map_of (filter (\<lambda>(s, v). \<not> is_wild s) es) (l @ CHR ''.'' # d) = None"
    using assms(3) by (force simp: map_of_eq_None_iff)
  then show ?thesis
    using w routes [OF assms(1)] assms(4) by (simp add: sni_route_def split_first_dot [OF assms(5)])
qed

lemma order_irrelevant:
  assumes "build es = Some t" "build es' = Some t'" "set es = set es'"
  shows "lookup t n = lookup t' n"
proof -
  have m: "map_of (filter P es) = map_of (filter P es')" for P
    using assms names_distinct by (subst map_of_inject_set) (auto intro: distinct_fst_filter)
  show ?thesis unfolding routes [OF assms(1)] routes [OF assms(2)] sni_route_def m ..
qed

end

text \<open>The dispatch table keys every context by its own name.\<close>

definition table_of :: "(string \<times> sni_ctx) list \<Rightarrow> sni_table option" where
  "table_of es = (if list_all (\<lambda>(s, c). ctx_sni c = Some s) es
                  then opt_of (SniDispatchTable_new (map snd es)) else None)"

lemma table_insert_route:
  "table_insert t c = Inr t' \<Longrightarrow> ctx_sni c = Some s \<Longrightarrow>
   route_insert (by_sni t, wildcards t) (s, c) = Some (by_sni t', wildcards t')"
  by (auto simp: table_insert_def Let_def split: if_splits)

lemma table_insert_ok:
  "ctx_sni c = Some s \<Longrightarrow> route_insert (by_sni t, wildcards t) (s, c) = Some (bs, ws) \<Longrightarrow>
   table_insert t c = Inr \<lparr> by_sni = bs, wildcards = ws \<rparr>"
  by (auto simp: table_insert_def Let_def split: if_splits)

lemma resolver_insert_route:
  "resolver_insert r (s, c) = Inr r' \<Longrightarrow>
   route_insert (res_by_sni r, res_wildcards r) (s, c) = Some (res_by_sni r', res_wildcards r')"
  by (auto simp: resolver_insert_def Let_def is_wild_split contains_def starts_with_iff split: if_splits)

lemma table_fold_routes:
  "try_fold table_insert t cs = Inr t' \<Longrightarrow> routes_of es (by_sni t, wildcards t) \<Longrightarrow>
   routes_of (es @ map (\<lambda>c. (the (ctx_sni c), c)) cs) (by_sni t', wildcards t') \<and> (\<forall>c \<in> set cs. ctx_sni c \<noteq> None)"
proof (induction cs arbitrary: t es)
  case Nil
  then show ?case by simp
next
  case (Cons c cs)
  obtain t1 where t1: "table_insert t c = Inr t1" "try_fold table_insert t1 cs = Inr t'"
    using Cons.prems(1) by (auto simp: res_simps)
  then obtain s where s: "ctx_sni c = Some s" by (cases "ctx_sni c") (auto simp: table_insert_def)
  have "route_insert (by_sni t, wildcards t) (s, c) = Some (by_sni t1, wildcards t1)"
    by (rule table_insert_route [OF t1(1) s])
  then have "routes_of (es @ [(s, c)]) (by_sni t1, wildcards t1)"
    by (rule routes_of_step [OF Cons.prems(2)])
  from Cons.IH [OF t1(2) this] show ?case using s by simp
qed

lemma resolver_fold_routes:
  "try_fold resolver_insert r cs = Inr r' \<Longrightarrow> routes_of es (res_by_sni r, res_wildcards r) \<Longrightarrow>
   routes_of (es @ cs) (res_by_sni r', res_wildcards r')"
proof (induction cs arbitrary: r es)
  case Nil
  then show ?case by simp
next
  case (Cons c cs)
  obtain r1 where r1: "resolver_insert r c = Inr r1" "try_fold resolver_insert r1 cs = Inr r'"
    using Cons.prems(1) by (auto simp: res_simps)
  have "routes_of (es @ [c]) (res_by_sni r1, res_wildcards r1)"
    using routes_of_step [OF Cons.prems(2)] resolver_insert_route r1(1) by (cases c) blast
  from Cons.IH [OF r1(2) this] show ?case by simp
qed

definition keyed :: "sni_ctx list \<Rightarrow> (string \<times> sni_ctx) list" where
  "keyed cs = map (\<lambda>c. (the (ctx_sni c), c)) cs"

lemma new_table_routes:
  assumes "SniDispatchTable_new cs = Inr t"
  shows "routes_of (keyed cs) (by_sni t, wildcards t)" "\<forall>c \<in> set cs. ctx_sni c \<noteq> None"
  using table_fold_routes [of "\<lparr> by_sni = [], wildcards = [] \<rparr>" cs t "[]"] assms routes_of_Nil
  by (auto simp: SniDispatchTable_new_def keyed_def)

lemma new_resolver_routes:
  assumes "MultiSniCertResolver_new es = Inr r"
  shows "routes_of es (res_by_sni r, res_wildcards r)"
  using resolver_fold_routes [of "\<lparr> res_by_sni = [], res_wildcards = [] \<rparr>" es r "[]"] assms routes_of_Nil
  by (auto simp: MultiSniCertResolver_new_def split: if_splits)

lemma table_of_keyed: "table_of es = Some t \<Longrightarrow> es = keyed (map snd es) \<and> SniDispatchTable_new (map snd es) = Inr t"
  by (auto simp: table_of_def keyed_def res_simps list_all_iff intro!: map_idI [symmetric] split: if_splits)

interpretation dispatch: sni_router table_of table_lookup
proof unfold_locales
  fix es t n
  assume "table_of es = Some t"
  note k = table_of_keyed [OF this]
  then have r: "routes_of es (by_sni t, wildcards t)" using new_table_routes(1) by metis
  then show "table_lookup t n = sni_route es n" by (simp add: table_lookup_def routes_of_lookup)
  show "distinct (map fst es)" using r by (simp add: routes_of_def)
qed

interpretation certs: sni_router "\<lambda>es. opt_of (MultiSniCertResolver_new es)" "\<lambda>r n. resolve r (Some n)"
proof unfold_locales
  fix es r n
  assume "opt_of (MultiSniCertResolver_new es) = Some r"
  then have r: "routes_of es (res_by_sni r, res_wildcards r)"
    by (intro new_resolver_routes) (simp add: res_simps)
  then show "resolve r (Some n) = sni_route es n" by (simp add: resolve_def routes_of_lookup)
  show "distinct (map fst es)" using r by (simp add: routes_of_def)
qed

lemma table_of_new:
  "SniDispatchTable_new cs = Inr t \<Longrightarrow> table_of (keyed cs) = Some t"
  using new_table_routes(2) [of cs t]
  by (auto simp: table_of_def keyed_def list_all_iff comp_def)

text \<open>Routing does not look at the values it routes to.\<close>

lemma map_of_filter_apsnd:
  "map_of (filter (\<lambda>(s, v). P s) (map (\<lambda>(s, v). (s, f v)) es)) n = map_option f (map_of (filter (\<lambda>(s, v). P s) es) n)"
  by (induction es) auto

lemma sni_route_natural:
  "sni_route (map (\<lambda>(s, v). (s, f v)) es) n = map_option f (sni_route es n)"
  unfolding sni_route_def
  by (simp add: map_of_filter_apsnd [of "\<lambda>s. \<not> is_wild s"] map_of_filter_apsnd [of is_wild] split: option.splits)

lemma certs_follow_dispatch:
  assumes "SniDispatchTable_new ctxs = Inr t"
    and "MultiSniCertResolver_new (map (\<lambda>c. (the (ctx_sni c), cert c)) ctxs) = Inr r"
  shows "resolve r (Some n) = map_option cert (table_lookup t n)"
proof -
  have k: "map (\<lambda>c. (the (ctx_sni c), cert c)) ctxs = map (\<lambda>(s, v). (s, cert v)) (keyed ctxs)"
    by (simp add: keyed_def)
  have "resolve r (Some n) = sni_route (map (\<lambda>(s, v). (s, cert v)) (keyed ctxs)) n"
    using certs.routes assms(2) by (simp add: k)
  also have "\<dots> = map_option cert (sni_route (keyed ctxs) n)" by (rule sni_route_natural)
  also have "sni_route (keyed ctxs) n = table_lookup t n"
    using dispatch.routes [OF table_of_new [OF assms(1)]] by simp
  finally show ?thesis .
qed

text \<open>The entries the daemon builds at startup for the contexts of a group.\<close>

definition startup_entries :: "sni_ctx list \<Rightarrow> (string \<times> string \<times> tls_config) list" where
  "startup_entries ctxs = map (\<lambda>c. (the (ctx_sni c), ctx_name c, the (st_tls (ctx_tenant c)))) ctxs"

definition ctx_cert :: "tls_files \<Rightarrow> sni_ctx \<Rightarrow> certified_key" where
  "ctx_cert F c = projr (load_certified F (the (st_tls (ctx_tenant c))))"

lemma startup_entries_load:
  assumes "list_all (\<lambda>c. is_ok (load_certified F (the (st_tls (ctx_tenant c))))) ctxs"
  shows "build_multi_sni_acceptor F (startup_entries ctxs) =
    and_then (MultiSniCertResolver_new (map (\<lambda>c. (the (ctx_sni c), ctx_cert F c)) ctxs)) (\<lambda>r. Inr (MultiCert r))"
proof -
  have "try_map (\<lambda>(sni, tenant_name, cfg). and_then (load_certified F cfg) (\<lambda>c. Inr (sni, c))) (startup_entries ctxs) =
        Inr (map (\<lambda>c. (the (ctx_sni c), ctx_cert F c)) ctxs)"
    using assms
  proof (induction ctxs)
    case Nil
    then show ?case by (simp add: startup_entries_def)
  next
    case (Cons c ctxs)
    then show ?case by (auto simp: startup_entries_def ctx_cert_def is_ok_iff)
  qed
  then show ?thesis by (simp add: build_multi_sni_acceptor_def)
qed

subsection \<open>Changing a running table\<close>

lemma rev_filter_keyed:
  "filter (\<lambda>(s, c). ctx_name c \<noteq> m) (rev (filter (\<lambda>(s, c). \<not> is_wild s) (keyed cs))) =
   rev (filter (\<lambda>(s, c). \<not> is_wild s) (keyed (filter (\<lambda>c. ctx_name c \<noteq> m) cs)))"
  by (induction cs) (auto simp: keyed_def)

lemma wild_filter_keyed:
  "filter (\<lambda>(s, c). ctx_name c \<noteq> m) (map (apfst (drop 1)) (filter (\<lambda>(s, c). is_wild s) (keyed cs))) =
   map (apfst (drop 1)) (filter (\<lambda>(s, c). is_wild s) (keyed (filter (\<lambda>c. ctx_name c \<noteq> m) cs)))"
  by (induction cs) (auto simp: keyed_def)

lemma new_table_exists:
  assumes "\<forall>c \<in> set cs. ctx_sni c \<noteq> None" "distinct (map fst (es @ keyed cs))"
    and "routes_of es (by_sni t, wildcards t)"
  shows "\<exists>t'. try_fold table_insert t cs = Inr t'"
  using assms
proof (induction cs arbitrary: t es)
  case Nil
  then show ?case by simp
next
  case (Cons c cs)
  obtain s where s: "ctx_sni c = Some s" using Cons.prems(1) by auto
  have "s \<notin> fst ` set es" using Cons.prems(2) s by (auto simp: keyed_def)
  then obtain bs ws where i: "route_insert (by_sni t, wildcards t) (s, c) = Some (bs, ws)"
    using routes_of_insert_ok [OF Cons.prems(3), of s c] by auto
  let ?t = "\<lparr> by_sni = bs, wildcards = ws \<rparr>"
  have "routes_of (es @ [(s, c)]) (by_sni ?t, wildcards ?t)"
    using routes_of_step [OF Cons.prems(3) i] by simp
  then show ?case
    using Cons.IH [of "es @ [(s, c)]" ?t] Cons.prems(1,2) table_insert_ok [OF s i] s by (simp add: keyed_def)
qed

lemma distinct_keyed_filter: "distinct (map fst (keyed cs)) \<Longrightarrow> distinct (map fst (keyed (filter P cs)))"
  by (induction cs) (auto simp: keyed_def)

lemma resolver_insert_ok:
  "wildcard_shape_ok s \<Longrightarrow> route_insert (res_by_sni r, res_wildcards r) (s, c) = Some (bs, ws) \<Longrightarrow>
   resolver_insert r (s, c) = Inr \<lparr> res_by_sni = bs, res_wildcards = ws \<rparr>"
  by (auto simp: resolver_insert_def Let_def wildcard_shape_ok_def contains_def is_wild_split starts_with_iff split: if_splits)

lemma new_resolver_exists:
  assumes "list_all (\<lambda>(s, c). wildcard_shape_ok s) cs" "distinct (map fst (es @ cs))"
    and "routes_of es (res_by_sni r, res_wildcards r)"
  shows "\<exists>r'. try_fold resolver_insert r cs = Inr r'"
  using assms
proof (induction cs arbitrary: r es)
  case Nil
  then show ?case by simp
next
  case (Cons e cs)
  obtain s c where e: "e = (s, c)" by (cases e)
  have "s \<notin> fst ` set es" using Cons.prems(2) e by auto
  then obtain bs ws where i: "route_insert (res_by_sni r, res_wildcards r) (s, c) = Some (bs, ws)"
    using routes_of_insert_ok [OF Cons.prems(3), of s c] by auto
  let ?r = "\<lparr> res_by_sni = bs, res_wildcards = ws \<rparr>"
  have ins: "resolver_insert r e = Inr ?r"
    using resolver_insert_ok [OF _ i] Cons.prems(1) e by simp
  have "routes_of (es @ [e]) (res_by_sni ?r, res_wildcards ?r)"
    using routes_of_step [OF Cons.prems(3) i] e by simp
  then show ?case using Cons.IH [of "es @ [e]" ?r] Cons.prems(1,2) ins by simp
qed

lemma routes_of_inj: "routes_of es r \<Longrightarrow> routes_of es r' \<Longrightarrow> r = r'"
  by (simp add: routes_of_def prod_eq_iff)

lemma removed_is_rebuilt:
  assumes "SniDispatchTable_new cs = Inr t" "with_tenant_removed t m = Some t'"
  shows "SniDispatchTable_new (filter (\<lambda>c. ctx_name c \<noteq> m) cs) = Inr t'"
proof -
  let ?cs = "filter (\<lambda>c. ctx_name c \<noteq> m) cs"
  note r = new_table_routes [OF assms(1)]
  have d: "distinct (map fst (keyed ?cs))"
    using r(1) by (simp add: routes_of_def distinct_keyed_filter)
  obtain t'' where t'': "SniDispatchTable_new ?cs = Inr t''"
    using new_table_exists [of ?cs "[]" "\<lparr> by_sni = [], wildcards = [] \<rparr>"] r(2) d routes_of_Nil
    by (auto simp: SniDispatchTable_new_def)
  have t': "by_sni t' = filter (\<lambda>(s, c). ctx_name c \<noteq> m) (by_sni t)"
    "wildcards t' = filter (\<lambda>(s, c). ctx_name c \<noteq> m) (wildcards t)"
    using assms(2) by (auto simp: with_tenant_removed_def Let_def split: if_splits)
  have t: "by_sni t = rev (filter (\<lambda>(s, c). \<not> is_wild s) (keyed cs))"
    "wildcards t = map (apfst (drop 1)) (filter (\<lambda>(s, c). is_wild s) (keyed cs))"
    using r(1) by (simp_all add: routes_of_def)
  have "routes_of (keyed ?cs) (by_sni t', wildcards t')"
    unfolding routes_of_def fst_conv snd_conv t' t rev_filter_keyed wild_filter_keyed using d by blast
  from routes_of_inj [OF this new_table_routes(1) [OF t'']] have "t' = t''" by simp
  then show ?thesis using t'' by simp
qed

subsection \<open>The reload trigger keeps what is installed\<close>

lemma reload_error_keeps: "reload F tr = (Inl e, tr') \<Longrightarrow> tr' = tr"
  by (auto simp: reload_def split: sum.splits)

lemma reload_ok:
  "reload F tr = (Inr prev, tr') \<Longrightarrow> prev = installed tr \<and> source tr' = source tr"
  by (auto simp: reload_def split: sum.splits if_splits)

lemma filter_fresh_label:
  "\<not> (\<exists>(l, s, c) \<in> set es. l = label) \<Longrightarrow> filter (\<lambda>(l, _, _). l \<noteq> label) (es @ [(label, s, c)]) = es"
  by (auto simp: filter_id_conv)

lemma add_sni_entry_error_keeps:
  assumes "add_sni_entry F tr label sni cfg = (Inl e, tr')"
  shows "tr' = tr"
proof (cases "source tr")
  case (SingleSource c)
  then show ?thesis using assms by (simp add: add_sni_entry_def)
next
  case (MultiSource es)
  show ?thesis
  proof (cases "\<exists>(l, s, c) \<in> set es. l = label")
    case True
    then show ?thesis using assms MultiSource by (auto simp: add_sni_entry_def split: if_splits)
  next
    case False
    note f = filter_fresh_label [OF False, of sni cfg]
    obtain x tr1 where r: "reload F (tr\<lparr> source := MultiSource (es @ [(label, sni, cfg)]) \<rparr>) = (x, tr1)"
      by (cases "reload F (tr\<lparr> source := MultiSource (es @ [(label, sni, cfg)]) \<rparr>)")
    have eq: "add_sni_entry F tr label sni cfg =
        (case (x, tr1) of (Inr prev, tr') \<Rightarrow> (Inr prev, tr')
         | (Inl e, tr') \<Rightarrow> (Inl e, tr'\<lparr> source := MultiSource es \<rparr>))"
      unfolding add_sni_entry_def using MultiSource False r
      by (cases x) (simp_all add: Let_def f del: filter_append)
    obtain e' where "x = Inl e'" using eq assms by (cases x) auto
    then have "tr1 = tr\<lparr> source := MultiSource (es @ [(label, sni, cfg)]) \<rparr>"
      using reload_error_keeps r by blast
    then show ?thesis using eq assms \<open>x = Inl e'\<close> MultiSource by (cases tr) auto
  qed
qed

lemma reload_multi_ok:
  assumes "reload F tr = (Inr prev, tr')" "source tr = MultiSource es" "0 < receivers tr"
  shows "build_multi_sni_acceptor F es = Inr (installed tr')"
  using assms by (auto simp: reload_def split: sum.splits)

lemma add_sni_entry_ok:
  assumes "add_sni_entry F tr label sni cfg = (Inr prev, tr')" "source tr = MultiSource es" "0 < receivers tr"
  shows "build_multi_sni_acceptor F (es @ [(label, sni, cfg)]) = Inr (installed tr')"
proof -
  let ?tr = "tr\<lparr> source := MultiSource (es @ [(label, sni, cfg)]) \<rparr>"
  have "reload F ?tr = (Inr prev, tr')"
    using assms(1,2) by (auto simp: add_sni_entry_def Let_def split: if_splits prod.splits sum.splits)
  then show ?thesis by (rule reload_multi_ok) (use assms in simp_all)
qed

lemma try_map_certs_keys:
  "try_map (\<lambda>(sni, tenant_name, cfg). and_then (load_certified F cfg) (\<lambda>c. Inr (sni, c))) es = Inr certs \<Longrightarrow>
   map fst certs = map fst es"
  by (induction es arbitrary: certs) (auto simp: res_simps)

lemma build_multi_routes:
  assumes "build_multi_sni_acceptor F es = Inr acc"
  shows "\<exists>r. acc = MultiCert r \<and>
    (\<forall>n. map_option (\<lambda>_. ()) (resolve r (Some n)) = sni_route (map (\<lambda>(l, s, c). (l, ())) es) n)"
proof -
  obtain certs r where c: "try_map (\<lambda>(sni, tenant_name, cfg). and_then (load_certified F cfg) (\<lambda>c. Inr (sni, c))) es = Inr certs"
    and r: "MultiSniCertResolver_new certs = Inr r" "acc = MultiCert r"
    using assms by (auto simp: build_multi_sni_acceptor_def res_simps)
  have "map (\<lambda>(s, v). (s, ())) certs = map (\<lambda>s. (s, ())) (map fst certs)" by auto
  also have "\<dots> = map (\<lambda>(l, s, c). (l, ())) es" unfolding try_map_certs_keys [OF c] by auto
  finally show ?thesis
    using certs.routes [of certs r] r sni_route_natural [of "\<lambda>_. ()" certs] by simp
qed

lemma remove_first_mset:
  "remove_first P xs = Some (x, ys) \<Longrightarrow> mset xs = add_mset x (mset ys) \<and> P x"
  by (induction xs arbitrary: ys) (auto split: if_splits)

lemma remove_first_None: "remove_first P xs = None \<longleftrightarrow> \<not> (\<exists>x \<in> set xs. P x)"
  by (induction xs) auto

text \<open>A failed removal restores the entries up to their order.\<close>

fun same_entries :: "reload_source \<Rightarrow> reload_source \<Rightarrow> bool" where
  "same_entries (SingleSource c) (SingleSource c') = (c = c')"
| "same_entries (MultiSource es) (MultiSource es') = (mset es = mset es')"
| "same_entries _ _ = False"

lemma same_entries_refl [simp]: "same_entries s s"
  by (cases s) auto

lemma remove_sni_entry_error_keeps:
  assumes "remove_sni_entry F tr label = (Inl e, tr')"
  shows "installed tr' = installed tr" "same_entries (source tr') (source tr)"
proof -
  have "installed tr' = installed tr \<and> same_entries (source tr') (source tr)"
  proof (cases "source tr")
    case (SingleSource c)
    then show ?thesis using assms by (auto simp: remove_sni_entry_def)
  next
    case (MultiSource es)
    show ?thesis
    proof (cases "remove_first (\<lambda>(l, _, _). l = label) es")
      case None
      then show ?thesis using assms MultiSource by (auto simp: remove_sni_entry_def)
    next
      case (Some p)
      obtain x rest where p: "p = (x, rest)" by (cases p)
      then show ?thesis
        using assms MultiSource Some remove_first_mset [OF Some [unfolded p]]
        by (auto simp: remove_sni_entry_def dest: reload_error_keeps split: prod.splits sum.splits)
    qed
  qed
  then show "installed tr' = installed tr" "same_entries (source tr') (source tr)" by auto
qed

end
