(* ===== verification/Gateway_Theorems.thy ===== *)
theory Gateway_Theorems
  imports Sni
begin

text \<open>
  The properties of the gateway's control components: admission, configuration, routing by
  server name and certificate reload, with a concrete configuration of two tenants behind
  one listener for their instances.
\<close>

subsection \<open>A concrete configuration\<close>

definition demo_tenant :: "string \<Rightarrow> string \<Rightarrow> tenant_config" where
  "demo_tenant n sni = \<lparr> t_name = n, t_listen = '':443'', t_peer_pq = Some ''peer:1'', t_backend = None,
     t_peer_pub_dir = ''peers'', t_audit_log = n, t_tls = Some \<lparr> cert_path = n, key_path = n \<rparr>,
     t_sni = Some sni, t_audit_signer = None, t_limits = None \<rparr>"

definition demo_config :: config where
  "demo_config = \<lparr> c_role = ServeTcp, c_identity_key = ''id'', c_identity_pub = ''id.pub'',
     c_metrics_listen = default_metrics_listen, c_audit_signer = Some (Softkey_Cfg ''sk'' ''pk''),
     c_rotation = None, c_drain_timeout_secs = default_drain_timeout_secs,
     c_tenants = [demo_tenant ''a'' ''a.x'', demo_tenant ''b'' ''*.x''] \<rparr>"

definition demo_order :: group_order where
  "demo_order gs = gs"

definition demo_files :: tls_files where
  "demo_files = \<lparr> load_cert_chain = (\<lambda>p. if p = ''missing'' then None else Some [ascii p]), load_private_key = (\<lambda>p. Some (ascii p)),
     supported_key = (\<lambda>k. True), single_cert_ok = (\<lambda>c k. True) \<rparr>"

definition demo_group :: tls_listener_group where
  "demo_group = \<lparr> g_listen = '':443'', sni_dispatch = True,
     g_tenants = map (resolved_tcp demo_config) (c_tenants demo_config) \<rparr>"

definition demo_ctx :: "string \<Rightarrow> string \<Rightarrow> sni_ctx" where
  "demo_ctx n sni = \<lparr> ctx_tenant = resolved_tcp demo_config (demo_tenant n sni), ctx_runtime = 0 \<rparr>"

definition demo_ctxs :: "sni_ctx list" where
  "demo_ctxs = [demo_ctx ''a'' ''a.x'', demo_ctx ''b'' ''*.x'']"

definition demo_table :: sni_table where
  "demo_table = \<lparr> by_sni = [(''a.x'', demo_ctx ''a'' ''a.x'')], wildcards = [(''.x'', demo_ctx ''b'' ''*.x'')] \<rparr>"

definition demo_rate :: rate_limit_config where
  "demo_rate = \<lparr> capacity = 1, refill_per_sec = 1 \<rparr>"

definition demo_arrivals :: "(ip \<times> instant) list" where
  "demo_arrivals = [(''p'', 0), (''p'', 5), (''p'', SEC)]"

definition demo_trigger :: reload_trigger where
  "demo_trigger = \<lparr> installed = MultiCert \<lparr> res_by_sni = [(''a.x'', ([ascii ''a''], ascii ''a''))], res_wildcards = [] \<rparr>,
     receivers = 1, source = MultiSource [(''a.x'', ''a'', \<lparr> cert_path = ''a'', key_path = ''a'' \<rparr>)], trig_label = ''g'' \<rparr>"

lemma demo_order_ok [simp]: "hash_order_ok demo_order"
  by (simp add: hash_order_ok_def demo_order_def)

lemma demo_config_ok: "config_ok demo_config"
  by (simp add: config_ok_def demo_config_def demo_tenant_def listen_ok_def siblings_def member_ok_def
      limits_ok_def role_ok_def effective_signer_def wildcard_shape_ok_def starts_with_def)

lemma demo_validate: "validate demo_order demo_config = Inr ()"
  using validate_iff [OF demo_order_ok] demo_config_ok by blast

lemma demo_groups: "resolve_serve_tcp_groups demo_config = Inr [demo_group]"
  by (subst resolve_groups_ok [OF demo_config_ok])
    (simp_all add: demo_config_def demo_group_def demo_tenant_def group_by_def push_group_def)

lemma demo_role: "c_role demo_config = ServeTcp"
  by (simp add: demo_config_def)

lemma demo_ctx_sel [simp]:
  "ctx_sni (demo_ctx n s) = Some s" "ctx_name (demo_ctx n s) = n"
  "st_tls (ctx_tenant (demo_ctx n s)) = Some \<lparr> cert_path = n, key_path = n \<rparr>"
  by (simp_all add: demo_ctx_def demo_tenant_def)

lemma demo_ctx_tenants: "map ctx_tenant demo_ctxs = g_tenants demo_group"
  by (simp add: demo_ctxs_def demo_ctx_def demo_group_def demo_config_def)

lemma demo_table_new: "SniDispatchTable_new demo_ctxs = Inr demo_table"
  by (simp add: SniDispatchTable_new_def table_insert_def demo_ctxs_def demo_table_def is_wild_def starts_with_def Let_def)

lemma demo_load: "load_certified demo_files cfg =
    (if cert_path cfg = ''missing'' then Inl ''loading cert chain'' else Inr ([ascii (cert_path cfg)], ascii (key_path cfg)))"
  by (simp add: load_certified_def demo_files_def)

lemma demo_ctxs_load: "list_all (\<lambda>c. is_ok (load_certified demo_files (the (st_tls (ctx_tenant c))))) demo_ctxs"
  by (simp add: demo_load demo_ctxs_def)

subsection \<open>Admission\<close>

text \<open>
  C15. Over any run of the rate limiter with increasing times, whatever other sources do and
  however often the idle buckets are swept, one source is admitted at most its capacity
  plus the refill rate times the whole seconds between the first and the last connection.
\<close>

theorem rate_limit_bounds_source:
  assumes "sorted (map snd evs)" "evs \<noteq> []" "take_run (RateLimiter_new cfg) evs = (rs, rl)"
  shows "admitted p evs rs \<le>
    unat (capacity cfg) + unat (refill_per_sec cfg) * ((snd (last evs) - snd (hd evs)) div SEC)"
proof -
  let ?t0 = "snd (hd evs)"
  have s: "sorted (?t0 # map snd evs)" using assms(1,2) by (cases evs) auto
  have l: "last (?t0 # map snd evs) = snd (last evs)" using assms(2) by (simp add: last_map)
  have "source_ok cfg ?t0 p (0 + admitted p evs rs) (last (?t0 # map snd evs)) rl"
    by (rule take_run_account [OF source_ok_new s assms(3)]) simp
  moreover have "?t0 \<le> snd (last evs)" using s l by (metis last_in_set list.distinct(1) list.set_intros(2) assms(2) last_map list.map_disc_iff sorted_simps(2) set_map)
  ultimately show ?thesis using source_ok_bound l by (metis add_0)
qed

theorem rate_limit_bounds_source_witness:
  "take_run (RateLimiter_new demo_rate) demo_arrivals = ([True, False, True], snd (take_run (RateLimiter_new demo_rate) demo_arrivals)) \<and>
   admitted ''p'' demo_arrivals [True, False, True] \<le> 2"
proof -
  have r: "fst (take_run (RateLimiter_new demo_rate) demo_arrivals) = [True, False, True]"
    by (simp add: demo_arrivals_def demo_rate_def RateLimiter_new_def try_take_def GC_THRESHOLD_def
        refill_bucket_def SEC_def refilled_def sat_add_u32_def refill_amount_def Let_def min_def)
  then have t: "take_run (RateLimiter_new demo_rate) demo_arrivals =
      ([True, False, True], snd (take_run (RateLimiter_new demo_rate) demo_arrivals))"
    by (metis prod.collapse)
  have "sorted (map snd demo_arrivals)" "demo_arrivals \<noteq> []" by (simp_all add: demo_arrivals_def SEC_def)
  from rate_limit_bounds_source [OF this t, of "''p''"] show ?thesis
    using t by (simp add: demo_arrivals_def demo_rate_def SEC_def)
qed

text \<open>
  With a session limit, at every moment of every interleaving of arriving connections and
  ending sessions, the sessions that hold a permit and the free permits add up to the limit:
  the limit is never exceeded and no permit is lost.
\<close>

lemma sessions_within_quota:
  "\<exists>free. quota (fst (foldl adm_step (AdmissionController_new (Some mc) rl, 0) evs)) = Some free \<and>
     free + snd (foldl adm_step (AdmissionController_new (Some mc) rl, 0) evs) = unat mc"
  using quota_run.run_inv [of "unat mc" "(AdmissionController_new (Some mc) rl, 0)" evs]
  by (auto simp: quota_inv_def AdmissionController_new_def)

subsection \<open>Configuration\<close>



text \<open>
  A validated serve-tcp configuration resolves into listener groups: every group holds the
  tenants of its address in their order, no two groups share an address, every tenant is in
  the group of its address, and a group dispatches by name exactly when it has more than one.
\<close>

lemma validated_config_resolves_into_groups:
  assumes "hash_order_ok ord" "validate ord c = Inr ()" "c_role c = ServeTcp"
  shows "\<exists>gs. resolve_serve_tcp_groups c = Inr gs \<and> distinct (map g_listen gs) \<and>
    (\<forall>t. t \<in> set (c_tenants c) \<longrightarrow> t_listen t \<in> g_listen ` set gs) \<and>
    (\<forall>g. g \<in> set gs \<longrightarrow>
      map st_name (g_tenants g) = map t_name (filter (\<lambda>t. t_listen t = g_listen g) (c_tenants c)) \<and>
      (sni_dispatch g \<longleftrightarrow> length (g_tenants g) > 1))"
proof -
  have ok: "config_ok c" using assms validate_iff by blast
  obtain gs where gs: "resolve_serve_tcp_groups c = Inr gs" using resolve_groups_ok [OF ok assms(3)] by blast
  then have m: "map g_listen gs = map fst (group_by st_listen (map (resolved_tcp c) (c_tenants c)))"
    unfolding resolve_groups_ok [OF ok assms(3)] by auto
  have "distinct (map g_listen gs)"
    unfolding m using bt_wf_group_by by (auto simp: bt_wf_def strict_sorted_iff)
  moreover have "t_listen t \<in> g_listen ` set gs" if "t \<in> set (c_tenants c)" for t
  proof -
    have "(t_listen t, filter (\<lambda>u. st_listen u = t_listen t) (map (resolved_tcp c) (c_tenants c)))
        \<in> set (group_by st_listen (map (resolved_tcp c) (c_tenants c)))"
      unfolding set_group_by using that by (auto simp: filter_empty_conv)
    then have "t_listen t \<in> set (map g_listen gs)" unfolding m by force
    then show ?thesis by simp
  qed
  ultimately show ?thesis
    using gs group_member [OF ok assms(3) gs] by (auto simp: comp_def)
qed

text \<open>
  The diff of two configurations of a tenant has no cold change exactly when they agree on
  everything but the name and the limits, and is empty exactly when they agree on
  everything but the name.
\<close>

lemma only_limits_are_hot:
  "(list_all (\<lambda>ch. ch_kind ch = Hot) (material_changes a b) \<longleftrightarrow>
      b = a\<lparr> t_name := t_name b, t_limits := t_limits b \<rparr>) \<and>
   (\<not> differs_from a b \<longleftrightarrow> b = a\<lparr> t_name := t_name b \<rparr>)"
  unfolding differs_from_def using no_cold_changes_iff material_changes_Nil_iff by blast

subsection \<open>Routing and certificates\<close>

text \<open>
  C9. For every listener group of a validated configuration that dispatches by name, whose
  certificates load, both the dispatch table and the acceptor build, and they agree: a
  client that asks for a name is shown the certificate of exactly the tenant its connection
  is dispatched to, and none when no tenant claims the name.
\<close>

theorem certificate_matches_dispatch:
  assumes "hash_order_ok ord" "validate ord c = Inr ()" "c_role c = ServeTcp"
    and "resolve_serve_tcp_groups c = Inr gs" "g \<in> set gs" "sni_dispatch g"
    and "map ctx_tenant ctxs = g_tenants g"
    and "list_all (\<lambda>x. is_ok (load_certified F (the (st_tls (ctx_tenant x))))) ctxs"
  shows "\<exists>t r. SniDispatchTable_new ctxs = Inr t \<and>
    build_multi_sni_acceptor F (startup_entries ctxs) = Inr (MultiCert r) \<and>
    (\<forall>n. resolve r (Some n) = map_option (ctx_cert F) (table_lookup t n))"
proof -
  have ok: "config_ok c" using assms(1,2) validate_iff by blast
  note sib = group_siblings [OF ok assms(3-6)]
  have mem: "ctx_tenant x \<in> set (g_tenants g)" if "x \<in> set ctxs" for x
    using that assms(7) by (metis image_eqI set_map)
  have sni: "\<exists>s. ctx_sni x = Some s \<and> wildcard_shape_ok s" if "x \<in> set ctxs" for x
    using sib(2) [OF mem [OF that]] by blast
  have "map (\<lambda>x. ctx_sni x) ctxs = map Some (map (\<lambda>x. the (ctx_sni x)) ctxs)" using sni by force
  moreover have "distinct (map (\<lambda>x. ctx_sni x) ctxs)"
    using sib(1) assms(7) by (metis (no_types, lifting) list.map_comp map_eq_conv comp_apply)
  ultimately have d: "distinct (map (\<lambda>x. the (ctx_sni x)) ctxs)" by (simp only: distinct_map [of Some])
  have "\<forall>x \<in> set ctxs. ctx_sni x \<noteq> None" using sni by force
  then obtain t where t: "SniDispatchTable_new ctxs = Inr t"
    using new_table_exists [of ctxs "[]" "\<lparr> by_sni = [], wildcards = [] \<rparr>"] d routes_of_Nil
    by (auto simp: SniDispatchTable_new_def keyed_def comp_def)
  let ?es = "map (\<lambda>x. (the (ctx_sni x), ctx_cert F x)) ctxs"
  have "list_all (\<lambda>(s, v). wildcard_shape_ok s) ?es" using sni by (force simp: list_all_iff)
  moreover have "?es \<noteq> []" using group_member(2) [OF ok assms(3-5)] assms(7) by auto
  ultimately obtain r where r: "MultiSniCertResolver_new ?es = Inr r"
    using new_resolver_exists [of ?es "[]" "\<lparr> res_by_sni = [], res_wildcards = [] \<rparr>"] d routes_of_Nil
    by (auto simp: MultiSniCertResolver_new_def comp_def)
  show ?thesis using t r startup_entries_load [OF assms(8)] certs_follow_dispatch [OF t r] by auto
qed

theorem certificate_matches_dispatch_witness:
  "\<exists>t r. SniDispatchTable_new demo_ctxs = Inr t \<and>
     build_multi_sni_acceptor demo_files (startup_entries demo_ctxs) = Inr (MultiCert r) \<and>
     (\<forall>n. resolve r (Some n) = map_option (ctx_cert demo_files) (table_lookup t n))"
  by (rule certificate_matches_dispatch [OF demo_order_ok demo_validate demo_role demo_groups _ _ demo_ctx_tenants demo_ctxs_load])
    (simp_all add: demo_group_def)

text \<open>
  A name is answered by its exact entry when there is one; otherwise by the wildcard of
  the rest after its first label, when that label is not empty; and by nothing else. The
  order in which the tenants were listed has no influence.
\<close>

lemma dispatch_follows_the_reference:
  assumes "SniDispatchTable_new cs = Inr t"
  shows "table_lookup t n = sni_route (keyed cs) n \<and>
    (\<forall>cs' t'. SniDispatchTable_new cs' = Inr t' \<and> set cs' = set cs \<longrightarrow> table_lookup t' n = table_lookup t n)"
proof -
  note b = table_of_new [OF assms]
  have "table_lookup t' n = table_lookup t n" if "SniDispatchTable_new cs' = Inr t'" "set cs' = set cs" for cs' t'
    using dispatch.order_irrelevant [OF table_of_new [OF that(1)] b] that(2) by (simp add: keyed_def)
  then show ?thesis using dispatch.routes [OF b] by blast
qed

text \<open>
  Removing a tenant from a running table gives exactly the table that a restart without
  it would build.
\<close>

lemma removal_equals_restart:
  assumes "SniDispatchTable_new cs = Inr t" "with_tenant_removed t m = Some t'"
  shows "SniDispatchTable_new (filter (\<lambda>c. ctx_name c \<noteq> m) cs) = Inr t'"
  by (rule removed_is_rebuilt [OF assms])

text \<open>
  A reload, an added entry or a removed entry that fails leaves the installed acceptor as
  it was; the failed addition restores the entries exactly, the failed removal up to order.
\<close>

lemma failed_change_keeps_acceptor:
  "(\<forall>e tr'. reload F tr = (Inl e, tr') \<longrightarrow> tr' = tr) \<and>
   (\<forall>e tr'. add_sni_entry F tr label sni cfg = (Inl e, tr') \<longrightarrow> tr' = tr) \<and>
   (\<forall>e tr'. remove_sni_entry F tr label = (Inl e, tr') \<longrightarrow>
      installed tr' = installed tr \<and> same_entries (source tr') (source tr))"
  by (intro conjI allI impI)
    (erule reload_error_keeps add_sni_entry_error_keeps remove_sni_entry_error_keeps)+

text \<open>
  An entry added to a running group under its tenant's name is looked up by that name and
  not by its server name: after a successful addition a client that asks for the server
  name, which no earlier entry covers, gets no certificate.
\<close>

lemma added_entry_is_keyed_by_label:
  assumes "source tr = MultiSource es" "0 < receivers tr"
    and "add_sni_entry F tr label sni cfg = (Inr prev, tr')"
    and "sni_route (map (\<lambda>(l, s, c). (l, ())) es) sni = None" "label \<noteq> sni" "\<not> is_wild label"
  shows "\<exists>r. installed tr' = MultiCert r \<and> resolve r (Some sni) = None \<and> resolve r (Some label) \<noteq> None"
proof -
  obtain r where i: "installed tr' = MultiCert r"
    and route: "\<forall>n. map_option (\<lambda>_. ()) (resolve r (Some n)) =
      sni_route (map (\<lambda>(l, s, c). (l, ())) (es @ [(label, sni, cfg)])) n"
    using build_multi_routes [OF add_sni_entry_ok [OF assms(3,1,2)]] by blast
  have "sni_route (map (\<lambda>(l, s, c). (l, ())) (es @ [(label, sni, cfg)])) sni = None"
    using assms(4-6) by (auto simp: sni_route_def map_add_def split: option.splits if_splits)
  moreover have "sni_route (map (\<lambda>(l, s, c). (l, ())) (es @ [(label, sni, cfg)])) label = Some ()"
    using assms(6) by (auto simp: sni_route_def map_add_def split: option.splits)
  ultimately show ?thesis using route [rule_format, of sni] route [rule_format, of label] i by auto
qed

end
