(* ===== verification/Audit_Channel.thy ===== *)
theory Audit_Channel
  imports Rotation Config
begin

text \<open>
  The audit channel of a tenant (\<open>qgateway-core/src/audit.rs\<close>): handles that emit events
  without blocking, the background task that batches them into the log and performs
  rotations, the rotation handle and the threshold monitor.

  The state of the task and of what it shares is one record; producers and the task take
  turns, one await-free stretch of code at a time. What a step takes from outside (entropy,
  clocks, random ids, which system calls fail) is the record \<open>env\<close>.
\<close>

subsection \<open>State\<close>

record rotation_request =
  archive_path :: string
  new_label :: string
  rr_ack :: bool

type_synonym signer_factory = "nat \<Rightarrow> signer result"

text \<open>
  \<open>ch_queue\<close> is the bounded queue of events and \<open>ch_senders\<close> its live senders, one of them kept
  by the channel itself while \<open>ch_handle\<close>; \<open>ch_rot\<close> is the rotation queue of capacity one;
  \<open>ch_done\<close> says that the task returned and dropped its receivers.
\<close>

record channel =
  ch_log :: audit_log
  ch_path :: string
  ch_fs :: filesystem
  ch_queue :: "audit_event list"
  ch_capacity :: usize
  ch_senders :: nat
  ch_handle :: bool
  ch_pending :: "audit_event list"
  ch_batch :: usize
  ch_rot :: "rotation_request option"
  ch_rot_senders :: nat
  ch_factory :: "signer_factory option"
  ch_entries_since :: u64
  ch_segment_open :: int
  ch_audit_events :: u64
  ch_audit_failures :: u64
  ch_audit_rotations :: u64
  ch_acks :: "(string + unit) list"
  ch_done :: bool

record env =
  env_entropy :: nat
  env_clock :: "nat \<Rightarrow> timestamp"
  env_rnd :: log_id
  env_factory :: nat
  env_save :: save_io
  env_archive :: save_io
  env_unix :: int

definition spawn_inner :: "audit_log \<Rightarrow> string \<Rightarrow> filesystem \<Rightarrow> usize \<Rightarrow> usize \<Rightarrow> signer_factory option \<Rightarrow> int \<Rightarrow> channel" where
  "spawn_inner l path fs cap batch_size factory now = \<lparr>
     ch_log = l, ch_path = path, ch_fs = fs, ch_queue = [], ch_capacity = cap,
     ch_senders = 1, ch_handle = True, ch_pending = [], ch_batch = batch_size, ch_rot = None,
     ch_rot_senders = 1, ch_factory = factory, ch_entries_since = 0, ch_segment_open = now,
     ch_audit_events = 0, ch_audit_failures = 0, ch_audit_rotations = 0, ch_acks = [], ch_done = False \<rparr>"

definition spawn :: "audit_log \<Rightarrow> string \<Rightarrow> filesystem \<Rightarrow> usize \<Rightarrow> usize \<Rightarrow> int \<Rightarrow> channel" where
  "spawn l path fs cap batch_size now = spawn_inner l path fs cap batch_size None now"

definition spawn_with_rotation :: "audit_log \<Rightarrow> string \<Rightarrow> filesystem \<Rightarrow> usize \<Rightarrow> usize \<Rightarrow> signer_factory \<Rightarrow> int \<Rightarrow> channel" where
  "spawn_with_rotation l path fs cap batch_size f now = spawn_inner l path fs cap batch_size (Some f) now"

subsection \<open>Producers\<close>

definition emit :: "channel \<Rightarrow> audit_event \<Rightarrow> channel" where
  "emit ch ev =
     (if ch_done ch then ch\<lparr> ch_audit_failures := ch_audit_failures ch + 1 \<rparr>
      else if length (ch_queue ch) \<ge> ch_capacity ch then ch\<lparr> ch_audit_failures := ch_audit_failures ch + 1 \<rparr>
      else ch\<lparr> ch_queue := ch_queue ch @ [ev], ch_audit_events := ch_audit_events ch + 1 \<rparr>)"

definition get_handle :: "channel \<Rightarrow> error + channel" where
  "get_handle ch =
     (if ch_handle ch then Inr (ch\<lparr> ch_senders := ch_senders ch + 1 \<rparr>)
      else Inl (Panic ''audit channel handle() called after shutdown''))"

definition drop_handle :: "channel \<Rightarrow> channel" where
  "drop_handle ch = ch\<lparr> ch_senders := ch_senders ch - 1 \<rparr>"

definition request_rotation_silent :: "channel \<Rightarrow> string \<Rightarrow> string \<Rightarrow> channel" where
  "request_rotation_silent ch path lbl =
     (if ch_done ch \<or> ch_rot ch \<noteq> None then ch
      else ch\<lparr> ch_rot := Some \<lparr> archive_path = path, new_label = lbl, rr_ack = False \<rparr> \<rparr>)"

text \<open>\<open>rotate\<close> up to its first await: \<open>Inr False\<close> means that it still waits for the slot.\<close>

definition rotate_send :: "channel \<Rightarrow> string \<Rightarrow> string \<Rightarrow> (string + bool) \<times> channel" where
  "rotate_send ch path lbl =
     (if ch_done ch then (Inl ''audit channel closed'', ch)
      else if ch_rot ch \<noteq> None then (Inr False, ch)
      else (Inr True, ch\<lparr> ch_rot := Some \<lparr> archive_path = path, new_label = lbl, rr_ack = True \<rparr> \<rparr>))"

text \<open>The part of \<open>shutdown\<close> and \<open>shutdown_async\<close> before they wait for the task.\<close>

definition shutdown_begin :: "channel \<Rightarrow> channel" where
  "shutdown_begin ch =
     (if ch_handle ch then ch\<lparr> ch_handle := False, ch_senders := ch_senders ch - 1 \<rparr> else ch)"

definition entries_in_current_segment :: "channel \<Rightarrow> u64" where
  "entries_in_current_segment ch = ch_entries_since ch"

definition seconds_since_segment_open :: "channel \<Rightarrow> int \<Rightarrow> nat" where
  "seconds_since_segment_open ch now = nat (max (now - ch_segment_open ch) 0)"

subsection \<open>Flushing\<close>

fun append_all :: "'a log_crates_scheme \<Rightarrow> nat \<Rightarrow> (nat \<Rightarrow> timestamp) \<Rightarrow> audit_log \<Rightarrow> audit_event list \<Rightarrow> unit result \<times> audit_log" where
  "append_all C e clock l [] = (Inr (), l)"
| "append_all C e clock l (ev # evs) =
     (case al_append C e (clock e) l ev of
        (Inl err, l') \<Rightarrow> (Inl err, l')
      | (Inr _, l') \<Rightarrow> append_all C (Suc e) clock l' evs)"

text \<open>Draining drops what is left of the batch when it returns early.\<close>

definition flush :: "'a log_crates_scheme \<Rightarrow> env \<Rightarrow> channel \<Rightarrow> channel" where
  "flush C E ch =
     (if ch_pending ch = [] then ch
      else case append_all C (env_entropy E) (env_clock E) (ch_log ch) (ch_pending ch) of
             (Inl _, l) \<Rightarrow> ch\<lparr> ch_log := l, ch_pending := [], ch_audit_failures := ch_audit_failures ch + 1 \<rparr>
           | (Inr _, l) \<Rightarrow>
               (case save C (env_save E) (ch_fs ch) (ch_path ch) l of
                  (Inl _, fs) \<Rightarrow> ch\<lparr> ch_log := l, ch_fs := fs, ch_pending := [], ch_audit_failures := ch_audit_failures ch + 1 \<rparr>
                | (Inr _, fs) \<Rightarrow> ch\<lparr> ch_log := l, ch_fs := fs, ch_pending := [] \<rparr>))"

subsection \<open>Rotation\<close>

text \<open>
  The preparation on a snapshot: it reads the live log and returns the sealed log and its
  successor. The factory is called twice, first for the new log.
\<close>

definition prepare_rotation :: "'a log_crates_scheme \<Rightarrow> env \<Rightarrow> audit_log \<Rightarrow> filesystem \<Rightarrow> rotation_request \<Rightarrow> signer_factory option \<Rightarrow> (string + audit_log \<times> audit_log)" where
  "prepare_rotation C E l fs req factory =
     and_then (ensure (fs (archive_path req) = None) ''archive_path already exists; refusing to overwrite'') (\<lambda>_.
     and_then (ok_or ''channel was spawned without a SignerFactory; rotation unsupported'' factory) (\<lambda>f.
     and_then (map_err (\<lambda>_. ''signer factory failed'') (f (env_factory E))) (\<lambda>new_signer.
     and_then (map_err (\<lambda>_. ''snapshot current log'') (save_to C l)) (\<lambda>snapshot.
     and_then (map_err (\<lambda>_. ''read rotation snapshot'') (read_from C snapshot)) (\<lambda>candidate.
     and_then (map_err (\<lambda>_. ''snapshot signer'') (f (Suc (env_factory E)))) (\<lambda>s.
     case bind_signer C candidate s of
       (Inl _, _) \<Rightarrow> Inl ''bind snapshot signer''
     | (Inr _, candidate') \<Rightarrow>
         map_err (\<lambda>_. ''rotate_to'')
           (rotate_to C (env_entropy E) (Suc (env_entropy E)) (env_clock E (env_entropy E)) (env_rnd E)
              candidate' new_signer (new_label req) [])))))))"

definition publish_archive :: "'a log_crates_scheme \<Rightarrow> save_io \<Rightarrow> filesystem \<Rightarrow> string \<Rightarrow> audit_log \<Rightarrow> (string + unit) \<times> filesystem" where
  "publish_archive C io fs path sealed_old =
     (case and_then (ensure (tmp_ok io) ''stage archive'') (\<lambda>_.
           and_then (map_err (\<lambda>_. ''write archive'') (save_to C sealed_old)) (\<lambda>bytes.
           and_then (ensure (write_ok io) ''write archive'') (\<lambda>_.
           and_then (ensure (sync_ok io) ''sync archive'') (\<lambda>_.
           and_then (ensure (persist_ok io \<and> fs path = None) ''publish archive'') (\<lambda>_. Inr bytes))))) of
        Inl err \<Rightarrow> (Inl err, fs)
      | Inr bytes \<Rightarrow>
          (ensure (dirsync_ok io) ''sync archive directory'',
           fs(path \<mapsto> \<lparr> is_file = True, contents = bytes, permissions = private_mode \<rparr>)))"

definition perform_rotation :: "'a log_crates_scheme \<Rightarrow> env \<Rightarrow> channel \<Rightarrow> rotation_request \<Rightarrow> (string + unit) \<times> channel" where
  "perform_rotation C E ch req =
     (case prepare_rotation C E (ch_log ch) (ch_fs ch) req (ch_factory ch) of
        Inl err \<Rightarrow> (Inl err, ch)
      | Inr (sealed_old, new_open) \<Rightarrow>
          (case publish_archive C (env_archive E) (ch_fs ch) (archive_path req) sealed_old of
             (Inl err, fs) \<Rightarrow> (Inl err, ch\<lparr> ch_fs := fs \<rparr>)
           | (Inr _, fs) \<Rightarrow>
               (case save C (env_save E) fs (ch_path ch) new_open of
                  (Inl _, fs') \<Rightarrow> (Inl ''save new log'', ch\<lparr> ch_fs := fs' \<rparr>)
                | (Inr _, fs') \<Rightarrow>
                    (Inr (), ch\<lparr> ch_fs := fs', ch_log := new_open, ch_audit_rotations := ch_audit_rotations ch + 1 \<rparr>))))"

subsection \<open>The background task\<close>

definition store_count :: "channel \<Rightarrow> channel" where
  "store_count ch = ch\<lparr> ch_entries_since := of_nat (length (entries (ch_log ch))) \<rparr>"

text \<open>The branch of the select that serves a rotation request; it ends with \<open>continue\<close>.\<close>

definition serve_rotation :: "'a log_crates_scheme \<Rightarrow> env \<Rightarrow> env \<Rightarrow> rotation_request \<Rightarrow> channel \<Rightarrow> channel" where
  "serve_rotation C E E' req ch =
     (let ch1 = flush C E (ch\<lparr> ch_rot := None, ch_pending := ch_pending ch @ ch_queue ch, ch_queue := [] \<rparr>);
          (outcome, ch2) = perform_rotation C E' ch1 req;
          ch3 = (if is_ok outcome then ch2\<lparr> ch_entries_since := 0, ch_segment_open := env_unix E' \<rparr> else ch2)
      in if rr_ack req then ch3\<lparr> ch_acks := ch_acks ch3 @ [outcome] \<rparr> else ch3)"

text \<open>After the select: fill the batch, and flush it when it is full.\<close>

definition fill_batch :: "channel \<Rightarrow> channel" where
  "fill_batch ch =
     (let n = ch_batch ch - length (ch_pending ch)
      in ch\<lparr> ch_pending := ch_pending ch @ take n (ch_queue ch), ch_queue := drop n (ch_queue ch) \<rparr>)"

definition after_select :: "'a log_crates_scheme \<Rightarrow> env \<Rightarrow> channel \<Rightarrow> channel" where
  "after_select C E ch =
     (let ch1 = fill_batch ch
      in if length (ch_pending ch1) \<ge> ch_batch ch1 then store_count (flush C E ch1) else ch1)"

text \<open>
  One turn of the loop. The select is biased: a rotation request first, then an event, then the
  timer, which is armed when events are pending and has fired when \<open>timer\<close>. With no rotation
  sender left the first branch is always ready and does nothing. A turn in which no branch
  is ready leaves the state alone.
\<close>

definition task_turn :: "'a log_crates_scheme \<Rightarrow> env \<Rightarrow> env \<Rightarrow> bool \<Rightarrow> channel \<Rightarrow> channel" where
  "task_turn C E E' timer ch =
     (if ch_done ch then ch
      else case ch_rot ch of
        Some req \<Rightarrow> serve_rotation C E E' req ch
      | None \<Rightarrow>
          if ch_rot_senders ch = 0 then ch
          else (case ch_queue ch of
             ev # q \<Rightarrow> after_select C E (ch\<lparr> ch_queue := q, ch_pending := ch_pending ch @ [ev] \<rparr>)
           | [] \<Rightarrow>
               if ch_senders ch = 0 then (store_count (flush C E ch))\<lparr> ch_done := True \<rparr>
               else if timer \<and> ch_pending ch \<noteq> [] then after_select C E' (store_count (flush C E ch))
               else ch))"

subsection \<open>The rotation monitor\<close>

definition file_len :: "filesystem \<Rightarrow> string \<Rightarrow> nat option" where
  "file_len fs path = map_option (\<lambda>n. length (contents n)) (fs path)"

definition check_thresholds :: "rotation_policy \<Rightarrow> channel \<Rightarrow> int \<Rightarrow> string option" where
  "check_thresholds p ch now =
     (if (case max_entries p of Some m \<Rightarrow> entries_in_current_segment ch \<ge> m | None \<Rightarrow> False)
      then Some ''max_entries reached''
      else if (case max_age_secs p of Some m \<Rightarrow> seconds_since_segment_open ch now \<ge> unat m | None \<Rightarrow> False)
      then Some ''max_age_secs reached''
      else if (case max_bytes p of
                 Some m \<Rightarrow> (case file_len (ch_fs ch) (ch_path ch) of Some n \<Rightarrow> n \<ge> unat m | None \<Rightarrow> False)
               | None \<Rightarrow> False)
      then Some ''max_bytes reached''
      else None)"

text \<open>\<open>parent().join(name)\<close>: an absolute name replaces the directory.\<close>

definition sibling_path :: "string \<Rightarrow> string \<Rightarrow> string" where
  "sibling_path path name =
     (if starts_with ''/'' name then name
      else rev (dropWhile (\<lambda>c. c \<noteq> CHR ''/'') (rev path)) @ name)"

definition monitor_tick :: "(timestamp \<Rightarrow> string) \<Rightarrow> string \<Rightarrow> rotation_policy \<Rightarrow> timestamp \<Rightarrow> int \<Rightarrow> u64 \<Rightarrow> channel \<Rightarrow> u64 \<times> channel" where
  "monitor_tick fmt_ts tenant p now unix counter ch =
     (if \<not> has_auto_trigger p then (counter, ch)
      else case check_thresholds p ch unix of
        None \<Rightarrow> (counter, ch)
      | Some reason \<Rightarrow>
          (let n = counter + 1;
               archive = sibling_path (ch_path ch) (render_archive_name fmt_ts p tenant n now)
           in (n, request_rotation_silent ch archive (tenant @ ''-'' @ dec_nat (unat n)))))"

subsection \<open>Logs under append and rotation\<close>

text \<open>A log that verifies, can be written and read back, and is signed by a signer that meets its contract.\<close>

definition live_ok :: "'a log_crates_scheme \<Rightarrow> audit_log \<Rightarrow> bool" where
  "live_ok C l \<longleftrightarrow> log_ok C l \<and> log_wf l \<and> (\<forall>s. al_signer l = Some s \<longrightarrow> signer_good C s)"

lemma tree_root_length:
  assumes "blake3_ok C" "log_inv C l" "length (entries l) < 2 ^ 64"
  shows "length (mt_root C (tree l)) = 32"
proof -
  obtain hs where hs: "event_hashes C (entries l) = Inr hs" "tree l = mt_build C hs"
    using assms(2) by (auto simp: log_inv_iff)
  then show ?thesis
    using mt_build_root [of hs C] mth_length [OF assms(1)] event_hashes_length [OF hs(1)] assms(3) by simp
qed

lemma append_live_ok:
  assumes b: "blake3_ok C" and ok: "live_ok C l" and ev: "event_wf ev" and len: "Suc (length (entries l)) < 2 ^ 64"
    and ap: "al_append C e now l ev = (Inr x, l')"
  shows "live_ok C l'"
proof -
  note sh = al_append_shape [OF ap]
  have l': "log_ok C l'" using al_append_ok [OF _ _ ap len] ok by (simp add: live_ok_def)
  have "length (prev_root x) = 32" "length (new_root x) = 32"
    using tree_root_length [OF b, of l] tree_root_length [OF b, of l'] ok l' sh len
    by (simp_all add: live_ok_def log_ok_def)
  then show ?thesis using l' ok sh ev by (simp add: live_ok_def log_wf_def entry_wf_def)
qed

lemma append_all_live:
  assumes b: "blake3_ok C"
  shows "live_ok C l \<Longrightarrow> list_all event_wf evs \<Longrightarrow> length (entries l) + length evs < 2 ^ 64 \<Longrightarrow>
    append_all C e clk l evs = (r, l') \<Longrightarrow>
    live_ok C l' \<and> header l' = header l \<and> al_signer l' = al_signer l \<and>
    (\<exists>xs. entries l' = entries l @ xs \<and> map event xs = take (length xs) evs \<and> (r = Inr () \<longrightarrow> length xs = length evs))"
proof (induction evs arbitrary: e l)
  case Nil
  then show ?case by simp
next
  case (Cons ev evs)
  obtain r1 l1 where a: "al_append C e (clk e) l ev = (r1, l1)" by (meson surj_pair)
  show ?case
  proof (cases r1)
    case (Inl err)
    then show ?thesis using Cons.prems a al_append_Inl [of C e "clk e" l ev err l1] by auto
  next
    case (Inr x)
    note a' = a [unfolded Inr] and sh = al_append_shape [OF a [unfolded Inr]]
    have "live_ok C l1" using append_live_ok [OF b Cons.prems(1) _ _ a'] Cons.prems(2,3) by simp
    then have IH: "live_ok C l' \<and> header l' = header l1 \<and> al_signer l' = al_signer l1 \<and>
        (\<exists>xs. entries l' = entries l1 @ xs \<and> map event xs = take (length xs) evs \<and> (r = Inr () \<longrightarrow> length xs = length evs))"
      using Cons.IH [of l1 "Suc e"] Cons.prems(2,3,4) a' sh by simp
    then obtain xs where "entries l' = entries l1 @ xs" "map event xs = take (length xs) evs" "r = Inr () \<longrightarrow> length xs = length evs"
      by blast
    then have "entries l' = entries l @ (x # xs) \<and> map event (x # xs) = take (length (x # xs)) (ev # evs) \<and>
        (r = Inr () \<longrightarrow> length (x # xs) = length (ev # evs))"
      using sh by simp
    then show ?thesis using IH sh by metis
  qed
qed

lemma append_all_total:
  assumes "cbor_event_total C" "\<And>lid i p eh n. cbor_payload C lid i p eh n \<noteq> None"
  shows "al_signer l = Some s \<Longrightarrow> (\<And>e m. is_ok (s_sign s e m)) \<Longrightarrow> fst (append_all C e clk l evs) = Inr ()"
proof (induction evs arbitrary: e l)
  case (Cons ev evs)
  obtain x l1 where a: "al_append C e (clk e) l ev = (Inr x, l1)"
    using append_total_signer [OF Cons.prems(1) assms Cons.prems(2)] by blast
  then show ?case using Cons al_append_shape(4) [OF a] by simp
qed simp

lemma chain_extend:
  assumes ch: "verify_chain C (ls @ [l]) = Inr ()" and h: "header l' = header l" and e: "entries l' = entries l @ xs"
    and v: "al_verify C l' = Inr ()"
  shows "verify_chain C (ls @ [l']) = Inr ()"
proof (cases "ls = []")
  case True
  then show ?thesis using ch v h by (simp add: verify_chain_iff)
next
  case False
  then have "link_spec C (last ls) l" using ch by (simp add: verify_chain_iff verify_windows_snoc)
  then have "link_spec C (last ls) l'" using link_spec_extend h e v by metis
  then show ?thesis using ch False by (simp add: verify_chain_iff verify_windows_snoc)
qed

lemma rotation_event_wf: "event_wf (close_event C now i n lbl)" "event_wf (open_event C now n p r plbl)"
  by (simp_all add: event_wf_def close_event_def open_event_def build_def builder_defs bt_wf_insert del: bt_insert.simps)

lemma rotate_live_ok:
  assumes b: "blake3_ok C" and ok: "live_ok C l" and s: "signer_ok C s" and len: "Suc (length (entries l)) < 2 ^ 64"
    and rnd: "length rnd = 16" and rot: "rotate_to C e1 e2 now rnd l s lbl hex = Inr (old, new)"
  shows "live_ok C old" "live_ok C new" "map event (entries new) = [event (hd (entries new))]"
    "\<exists>x. entries old = entries l @ [x]"
proof -
  obtain nid l1 x1 x2 where n: "new_id C hex rnd = Inr nid"
    and a1: "al_append C e1 now l (close_event C now (lh_log_id (header l)) nid lbl) = (Inr x1, l1)"
    and a2: "al_append C e2 now \<lparr> header = rotated_header C now l1 s lbl nid, entries = [],
          tree = MerkleTree_new, al_signer = Some s \<rparr>
       (open_event C now nid (lh_log_id (header l1)) (mt_root C (tree l1)) (label (header l1))) = (Inr x2, new)"
    and old: "old = l1\<lparr> al_signer := None \<rparr>"
    by (rule rotate_to_Inr [OF rot])
  have nid: "length nid = 16" using n rnd by (auto simp: new_id_def split: if_splits option.splits)
  note s1 = al_append_shape [OF a1] and s2 = al_append_shape [OF a2]
  have l1: "live_ok C l1" by (rule append_live_ok [OF b ok rotation_event_wf(1) len a1])
  then show "live_ok C old" using old by (simp add: live_ok_def log_ok_sealed log_wf_def)
  have "length (mt_root C (tree l1)) = 32" using tree_root_length [OF b, of l1] l1 s1 len by (simp add: live_ok_def log_ok_def)
  moreover have "length (lh_log_id (header l1)) = 16" using l1 by (simp add: live_ok_def log_wf_def header_wf_def)
  ultimately have "live_ok C \<lparr> header = rotated_header C now l1 s lbl nid, entries = [],
          tree = MerkleTree_new, al_signer = Some s \<rparr>"
    using fresh_log_ok [OF s] s nid
    by (simp add: live_ok_def signer_ok_def log_wf_def header_wf_def rotated_header_def)
  from append_live_ok [OF b this rotation_event_wf(2) _ a2] show "live_ok C new" by simp
  show "map event (entries new) = [event (hd (entries new))]" "\<exists>x. entries old = entries l @ [x]"
    using s1 s2 old by simp_all
qed

subsection \<open>Runs of a channel\<close>

text \<open>
  The state of a run: the paths archived so far, the events accepted so far, the channel. An
  event was accepted when the counter of accepted events moved, a path archived when the
  counter of rotations did. The task takes a turn when the log with everything waiting has
  fewer than \<open>2 ^ 64\<close> entries.
\<close>

type_synonym chan_state = "string list \<times> audit_event list \<times> channel"

definition accepted :: "channel \<Rightarrow> audit_event \<Rightarrow> audit_event list" where
  "accepted ch ev = (if ch_audit_events (emit ch ev) = ch_audit_events ch then [] else [ev])"

definition archived :: "channel \<Rightarrow> channel \<Rightarrow> string list" where
  "archived ch ch' =
     (case ch_rot ch of
        Some req \<Rightarrow> if ch_audit_rotations ch' = ch_audit_rotations ch then [] else [archive_path req]
      | None \<Rightarrow> [])"

definition room :: "channel \<Rightarrow> nat" where
  "room ch = length (entries (ch_log ch)) + length (ch_pending ch) + length (ch_queue ch)"

inductive chan_step :: "'a log_crates_scheme \<Rightarrow> chan_state \<Rightarrow> chan_state \<Rightarrow> bool" for C where
  step_emit: "event_wf ev \<Longrightarrow> chan_step C (as, acc, ch) (as, acc @ accepted ch ev, emit ch ev)"
| step_request: "path \<noteq> ch_path ch \<Longrightarrow> chan_step C (as, acc, ch) (as, acc, request_rotation_silent ch path lbl)"
| step_rotate: "path \<noteq> ch_path ch \<Longrightarrow> chan_step C (as, acc, ch) (as, acc, snd (rotate_send ch path lbl))"
| step_handle: "get_handle ch = Inr ch' \<Longrightarrow> chan_step C (as, acc, ch) (as, acc, ch')"
| step_drop: "chan_step C (as, acc, ch) (as, acc, drop_handle ch)"
| step_shutdown: "chan_step C (as, acc, ch) (as, acc, shutdown_begin ch)"
| step_turn: "length (env_rnd E') = 16 \<Longrightarrow> room ch + 1 < 2 ^ 64 \<Longrightarrow> ch' = task_turn C E E' timer ch \<Longrightarrow>
    chan_step C (as, acc, ch) (as @ archived ch ch', acc, ch')"

text \<open>The events of a chain of segments, without the events that close and open them.\<close>

fun chain_events :: "audit_log list \<Rightarrow> audit_log \<Rightarrow> audit_event list" where
  "chain_events [] l = map event (entries l)"
| "chain_events (s # ss) l =
     butlast (map event (entries s)) @ concat (map (\<lambda>k. butlast (tl (map event (entries k)))) ss) @
     tl (map event (entries l))"

definition signer_total :: "signer \<Rightarrow> bool" where
  "signer_total s \<longleftrightarrow> (\<forall>e m. is_ok (s_sign s e m))"

definition factory_ok :: "'a log_crates_scheme \<Rightarrow> channel \<Rightarrow> bool" where
  "factory_ok C ch \<longleftrightarrow> (\<forall>f i s. ch_factory ch = Some f \<and> f i = Inr s \<longrightarrow> signer_ok C s)"

text \<open>Nothing an append calls fails: the encoders, the bound signer and those of the factory.\<close>

definition channel_total :: "'a log_crates_scheme \<Rightarrow> channel \<Rightarrow> bool" where
  "channel_total C ch \<longleftrightarrow>
     cbor_event_total C \<and> (\<forall>lid i p eh n. cbor_payload C lid i p eh n \<noteq> None) \<and>
     (\<exists>s. al_signer (ch_log ch) = Some s \<and> signer_total s) \<and>
     (\<forall>f i s. ch_factory ch = Some f \<and> f i = Inr s \<longrightarrow> signer_total s)"

definition chan_core :: "'a log_crates_scheme \<Rightarrow> bool \<Rightarrow> audit_event list \<Rightarrow> string list \<Rightarrow> channel \<Rightarrow> bool" where
  "chan_core C tot hist as ch \<longleftrightarrow>
     (\<exists>sealed. map (open_log C (ch_fs ch)) as = map Inr sealed \<and> verify_chain C (sealed @ [ch_log ch]) = Inr () \<and>
        (tot \<longrightarrow> channel_total C ch \<and> chain_events sealed (ch_log ch) @ ch_pending ch @ ch_queue ch = hist)) \<and>
     live_ok C (ch_log ch) \<and> ch_path ch \<notin> set as \<and> factory_ok C ch \<and>
     list_all event_wf (ch_pending ch @ ch_queue ch)"

definition rot_path_ok :: "channel \<Rightarrow> bool" where
  "rot_path_ok ch \<longleftrightarrow> (case ch_rot ch of None \<Rightarrow> True | Some req \<Rightarrow> archive_path req \<noteq> ch_path ch)"

lemma chain_events_extend:
  assumes "sealed = [] \<or> entries l \<noteq> []" "entries l' = entries l @ xs"
  shows "chain_events sealed l' = chain_events sealed l @ map event xs"
  using assms by (cases sealed) auto

lemma chain_events_rotate:
  assumes "sealed = [] \<or> entries l \<noteq> []" "entries old = entries l @ [x]" "map event (entries new) = [o']"
  shows "chain_events (sealed @ [old]) new = chain_events sealed l"
  using assms by (cases sealed) (auto simp: butlast_append)

lemma chain_live_nonempty: "verify_chain C (sealed @ [l]) = Inr () \<Longrightarrow> sealed = [] \<or> entries l \<noteq> []"
  by (cases "sealed = []") (auto simp: verify_chain_iff verify_windows_snoc link_spec_def)

lemma chan_core_cong:
  assumes "chan_core C tot hist as ch" "ch_log ch' = ch_log ch" "ch_fs ch' = ch_fs ch" "ch_path ch' = ch_path ch"
    "ch_factory ch' = ch_factory ch" "ch_pending ch' @ ch_queue ch' = ch_pending ch @ ch_queue ch"
  shows "chan_core C tot hist as ch'"
  using assms(1) unfolding chan_core_def factory_ok_def channel_total_def assms(2-6) .

lemma open_log_frame: "(\<And>q. q \<in> set as \<Longrightarrow> fs' q = fs q) \<Longrightarrow> map (open_log C fs') as = map (open_log C fs) as"
  by (simp add: open_log_def)

lemma flush_frame:
  "ch_queue (flush C E ch) = ch_queue ch" "ch_path (flush C E ch) = ch_path ch" "ch_rot (flush C E ch) = ch_rot ch"
  "ch_factory (flush C E ch) = ch_factory ch" "ch_audit_rotations (flush C E ch) = ch_audit_rotations ch"
  "ch_pending (flush C E ch) = []" "ch_done (flush C E ch) = ch_done ch" "ch_batch (flush C E ch) = ch_batch ch"
  "ch_senders (flush C E ch) = ch_senders ch" "ch_rot_senders (flush C E ch) = ch_rot_senders ch"
  "q \<noteq> ch_path ch \<Longrightarrow> ch_fs (flush C E ch) q = ch_fs ch q"
  by (auto simp: flush_def dest: save_frame split: prod.splits sum.splits)

lemma flush_log:
  "ch_log (flush C E ch) = snd (append_all C (env_entropy E) (env_clock E) (ch_log ch) (ch_pending ch))"
  by (auto simp: flush_def split: prod.splits sum.splits)

lemma chan_core_flush:
  assumes b: "blake3_ok C" and core: "chan_core C tot hist as ch" and room: "room ch < 2 ^ 64"
  shows "chan_core C tot hist as (flush C E ch)"
proof -
  obtain r l where a: "append_all C (env_entropy E) (env_clock E) (ch_log ch) (ch_pending ch) = (r, l)"
    by (meson surj_pair)
  obtain sealed where s: "map (open_log C (ch_fs ch)) as = map Inr sealed" "verify_chain C (sealed @ [ch_log ch]) = Inr ()"
    and tot: "tot \<longrightarrow> channel_total C ch \<and> chain_events sealed (ch_log ch) @ ch_pending ch @ ch_queue ch = hist"
    and rest: "live_ok C (ch_log ch)" "ch_path ch \<notin> set as" "factory_ok C ch" "list_all event_wf (ch_pending ch @ ch_queue ch)"
    using core by (auto simp: chan_core_def)
  obtain xs where l: "live_ok C l" "header l = header (ch_log ch)" "al_signer l = al_signer (ch_log ch)"
    and xs: "entries l = entries (ch_log ch) @ xs" "map event xs = take (length xs) (ch_pending ch)"
      "r = Inr () \<longrightarrow> length xs = length (ch_pending ch)"
    using append_all_live [OF b rest(1) _ _ a] rest(4) room by (auto simp: room_def)
  have lg: "ch_log (flush C E ch) = l" by (simp add: flush_log a)
  have "map (open_log C (ch_fs (flush C E ch))) as = map Inr sealed"
    unfolding s(1) [symmetric] by (rule open_log_frame) (metis flush_frame(11) rest(2))
  moreover have "verify_chain C (sealed @ [l]) = Inr ()"
    using chain_extend [OF s(2) l(2) xs(1)] l(1) by (simp add: live_ok_def log_ok_def)
  moreover have "channel_total C (flush C E ch) \<and> chain_events sealed l @ ch_queue ch = hist" if tot
  proof -
    have t: "channel_total C ch" using tot that by simp
    then have "r = Inr ()"
      using append_all_total [of C "ch_log ch" _ "env_entropy E" "env_clock E" "ch_pending ch"] a
      by (auto simp: channel_total_def signer_total_def)
    then have "map event xs = ch_pending ch" using xs by simp
    then show ?thesis
      using chain_events_extend [OF chain_live_nonempty [OF s(2)] xs(1)] tot that t l(3)
      by (simp add: channel_total_def lg flush_frame)
  qed
  ultimately show ?thesis
    using l(1) rest lg unfolding chan_core_def by (auto simp: flush_frame factory_ok_def)
qed

lemma prepare_rotation_ok:
  assumes c: "cbor_log_ok C" and ok: "live_ok C l"
    and pr: "prepare_rotation C E l fs req factory = Inr (old, new)"
  obtains f s s' where "factory = Some f" "f (env_factory E) = Inr s" "f (Suc (env_factory E)) = Inr s'"
    "s_public_key s' = pubkey (header l)" "fs (archive_path req) = None"
    "rotate_to C (env_entropy E) (Suc (env_entropy E)) (env_clock E (env_entropy E)) (env_rnd E)
       (l\<lparr> al_signer := Some s' \<rparr>) s (new_label req) [] = Inr (old, new)"
proof -
  obtain f s b cand s' where f: "factory = Some f" "f (env_factory E) = Inr s" "f (Suc (env_factory E)) = Inr s'"
    "fs (archive_path req) = None" and b: "save_to C l = Inr b" "read_from C b = Inr cand"
    and bind: "(case bind_signer C cand s' of (Inl _, _) \<Rightarrow> Inl ''bind snapshot signer''
       | (Inr _, cand') \<Rightarrow> map_err (\<lambda>_. ''rotate_to'')
           (rotate_to C (env_entropy E) (Suc (env_entropy E)) (env_clock E (env_entropy E)) (env_rnd E)
              cand' s (new_label req) [])) = Inr (old, new)"
    using pr unfolding prepare_rotation_def by (auto simp: res_simps)
  have "header_ok (header l)" using ok by (auto simp: live_ok_def log_ok_def al_verify_def verify_with_pubkey_def res_simps)
  then have cand: "cand = l\<lparr> al_signer := None \<rparr>"
    using read_from_save_to [OF c _ _ _ b(1)] ok b(2) by (simp add: live_ok_def log_ok_def)
  obtain r cand' where bs: "bind_signer C cand s' = (r, cand')" by (meson surj_pair)
  have "r = Inr () \<and> s_public_key s' = pubkey (header l) \<and> cand' = l\<lparr> al_signer := Some s' \<rparr>"
    using bs bind cand by (auto simp: bind_signer_def split: if_splits sum.splits)
  then show ?thesis using that f bind bs by (auto simp: res_simps)
qed

lemma publish_archive_frame:
  "publish_archive C io fs path l = (r, fs') \<Longrightarrow> q \<noteq> path \<or> fs path \<noteq> None \<Longrightarrow> fs' q = fs q"
  by (auto simp: publish_archive_def res_simps split: sum.splits)

lemma published_reads:
  assumes "cbor_log_ok C" "live_ok C l" "al_signer l = None" "publish_archive C io fs path l = (Inr (), fs')"
  shows "open_log C fs' path = Inr l"
proof -
  obtain b where b: "save_to C l = Inr b" "fs' path = Some \<lparr> is_file = True, contents = b, permissions = private_mode \<rparr>"
    using assms(4) by (auto simp: publish_archive_def res_simps split: sum.splits)
  have "header_ok (header l)" using assms(2) by (auto simp: live_ok_def log_ok_def al_verify_def verify_with_pubkey_def res_simps)
  then show ?thesis
    using read_from_save_to [OF assms(1) _ _ _ b(1)] assms(2,3) b(2) by (simp add: open_log_def live_ok_def log_ok_def)
qed

lemma chan_core_fs:
  assumes "chan_core C tot hist as ch" "\<And>q. q \<in> set as \<Longrightarrow> fs q = ch_fs ch q"
  shows "chan_core C tot hist as (ch\<lparr> ch_fs := fs \<rparr>)"
proof -
  have m: "map (open_log C fs) as = map (open_log C (ch_fs ch)) as" by (rule open_log_frame [OF assms(2)])
  show ?thesis using assms(1) unfolding chan_core_def factory_ok_def channel_total_def by (simp add: m del: map_eq_conv) blast
qed

text \<open>A rotation fails and changes at most files that were absent or the current path, or it commits.\<close>

lemma perform_rotation_cases:
  assumes "perform_rotation C E ch req = (r, ch')"
  obtains
    (failed) fs where "\<not> is_ok r" "ch' = ch\<lparr> ch_fs := fs \<rparr>"
      "\<And>q. q \<noteq> ch_path ch \<Longrightarrow> ch_fs ch q \<noteq> None \<Longrightarrow> fs q = ch_fs ch q"
  | (rotated) old new fs1 fs2 where "r = Inr ()"
      "prepare_rotation C E (ch_log ch) (ch_fs ch) req (ch_factory ch) = Inr (old, new)"
      "publish_archive C (env_archive E) (ch_fs ch) (archive_path req) old = (Inr (), fs1)"
      "save C (env_save E) fs1 (ch_path ch) new = (Inr (), fs2)"
      "ch' = ch\<lparr> ch_fs := fs2, ch_log := new, ch_audit_rotations := ch_audit_rotations ch + 1 \<rparr>"
proof (cases "prepare_rotation C E (ch_log ch) (ch_fs ch) req (ch_factory ch)")
  case (Inl err)
  then show ?thesis using assms failed [of "ch_fs ch"] by (auto simp: perform_rotation_def)
next
  case pr: (Inr on)
  obtain old new where on: "on = (old, new)" by (cases on)
  obtain r1 fs1 where pub: "publish_archive C (env_archive E) (ch_fs ch) (archive_path req) old = (r1, fs1)"
    by (meson surj_pair)
  obtain r2 fs2 where sv: "save C (env_save E) fs1 (ch_path ch) new = (r2, fs2)" by (meson surj_pair)
  have fr1: "fs1 q = ch_fs ch q" if "ch_fs ch q \<noteq> None" for q
    using publish_archive_frame [OF pub, of q] that by metis
  have fr2: "fs2 q = ch_fs ch q" if "q \<noteq> ch_path ch" "ch_fs ch q \<noteq> None" for q
    using fr1 [OF that(2)] save_frame [OF sv that(1)] by simp
  show ?thesis
    using assms pr on pub sv failed [of fs1] failed [of fs2] rotated [of old new fs1 fs2] fr1 fr2
    by (cases r1; cases r2) (auto simp: perform_rotation_def)
qed

lemma rotation_core:
  assumes b: "blake3_ok C" and ok: "live_ok C l" and sg: "signer_ok C s" "signer_ok C s'"
    and pk: "s_public_key s' = pubkey (header l)" and len: "Suc (length (entries l)) < 2 ^ 64" and rnd: "length rnd = 16"
    and ch: "verify_chain C (sealed @ [l]) = Inr ()"
    and rot: "rotate_to C e1 e2 now rnd (l\<lparr> al_signer := Some s' \<rparr>) s lbl [] = Inr (old, new)"
  shows "live_ok C old" "live_ok C new" "al_signer old = None" "al_signer new = Some s"
    "verify_chain C ((sealed @ [old]) @ [new]) = Inr ()"
    "chain_events (sealed @ [old]) new = chain_events sealed l"
proof -
  let ?l = "l\<lparr> al_signer := Some s' \<rparr>"
  have l: "live_ok C ?l" using ok sg(2) pk
    by (simp add: live_ok_def log_ok_def log_inv_iff al_verify_def signer_bound_def log_wf_def signer_ok_def)
  have len': "Suc (length (entries ?l)) < 2 ^ 64" using len by simp
  have lok: "log_ok C ?l" "\<And>s. al_signer ?l = Some s \<Longrightarrow> signer_good C s" using l by (simp_all add: live_ok_def)
  note rl = rotate_live_ok [OF b l sg(1) len' rnd rot] and ro = rotate_to_ok [OF lok sg(1) len' rot]
  show "live_ok C old" "live_ok C new" "al_signer old = None" "al_signer new = Some s" using rl(1,2) ro(6,7) by simp_all
  have "verify_chain C (sealed @ [?l]) = Inr ()"
    using chain_extend [OF ch, of ?l "[]"] l by (simp add: live_ok_def log_ok_def)
  then show "verify_chain C ((sealed @ [old]) @ [new]) = Inr ()"
    using chain_rotate [OF _ lok sg(1) len' rot, of sealed] by simp
  show "chain_events (sealed @ [old]) new = chain_events sealed l"
    using chain_events_rotate [OF chain_live_nonempty [OF ch] _ rl(3)] rl(4) by auto
qed

lemma opened_present: "map (open_log C fs) as = map Inr sealed \<Longrightarrow> q \<in> set as \<Longrightarrow> fs q \<noteq> None"
proof -
  assume m: "map (open_log C fs) as = map Inr sealed" and q: "q \<in> set as"
  then have "open_log C fs q \<in> set (map Inr sealed)" by (metis image_eqI set_map)
  then show ?thesis by (auto simp: open_log_def split: option.splits)
qed

text \<open>What a rotation that was prepared from a channel's state has made of its log.\<close>

lemma prepared_core:
  assumes b: "blake3_ok C" and c: "cbor_log_ok C" and ok: "live_ok C (ch_log ch)" "factory_ok C ch"
    and ch: "verify_chain C (sealed @ [ch_log ch]) = Inr ()" and room: "room ch + 1 < 2 ^ 64" and rnd: "length (env_rnd E) = 16"
    and pr: "prepare_rotation C E (ch_log ch) (ch_fs ch) req (ch_factory ch) = Inr (old, new)"
  obtains f sg where "ch_factory ch = Some f" "f (env_factory E) = Inr sg" "ch_fs ch (archive_path req) = None"
    "live_ok C old" "live_ok C new" "al_signer old = None" "al_signer new = Some sg"
    "verify_chain C ((sealed @ [old]) @ [new]) = Inr ()" "chain_events (sealed @ [old]) new = chain_events sealed (ch_log ch)"
proof -
  obtain f sg sg' where f: "ch_factory ch = Some f" "f (env_factory E) = Inr sg" "f (Suc (env_factory E)) = Inr sg'"
    and pk: "s_public_key sg' = pubkey (header (ch_log ch))" and absent: "ch_fs ch (archive_path req) = None"
    and rot: "rotate_to C (env_entropy E) (Suc (env_entropy E)) (env_clock E (env_entropy E)) (env_rnd E)
       ((ch_log ch)\<lparr> al_signer := Some sg' \<rparr>) sg (new_label req) [] = Inr (old, new)"
    using prepare_rotation_ok [OF c ok(1) pr] by metis
  have sg: "signer_ok C sg" "signer_ok C sg'" using ok(2) f unfolding factory_ok_def by blast+
  have "Suc (length (entries (ch_log ch))) < 2 ^ 64" using room by (simp add: room_def)
  from rotation_core [OF b ok(1) sg pk this rnd ch rot] show ?thesis by (rule that [OF f(1,2) absent])
qed

lemma chan_core_rotation:
  assumes b: "blake3_ok C" and c: "cbor_log_ok C" and core: "chan_core C tot hist as ch"
    and room: "room ch + 1 < 2 ^ 64" and rnd: "length (env_rnd E) = 16" and path: "archive_path req \<noteq> ch_path ch"
    and pr: "perform_rotation C E ch req = (r, ch')"
  shows "chan_core C tot hist (if is_ok r then as @ [archive_path req] else as) ch'"
proof -
  obtain sealed where s: "map (open_log C (ch_fs ch)) as = map Inr sealed" "verify_chain C (sealed @ [ch_log ch]) = Inr ()"
    and tot: "tot \<longrightarrow> channel_total C ch \<and> chain_events sealed (ch_log ch) @ ch_pending ch @ ch_queue ch = hist"
    and rest: "live_ok C (ch_log ch)" "ch_path ch \<notin> set as" "factory_ok C ch" "list_all event_wf (ch_pending ch @ ch_queue ch)"
    using core by (auto simp: chan_core_def)
  note present = opened_present [OF s(1)]
  from pr show ?thesis
  proof (cases rule: perform_rotation_cases)
    case (failed fs)
    then show ?thesis using chan_core_fs [OF core, of fs] present rest(2) by metis
  next
    case (rotated old new fs1 fs2)
    obtain f sg where f: "ch_factory ch = Some f" "f (env_factory E) = Inr sg" and absent: "ch_fs ch (archive_path req) = None"
      and old: "live_ok C old" "al_signer old = None" and new: "live_ok C new" "al_signer new = Some sg"
      and chain: "verify_chain C ((sealed @ [old]) @ [new]) = Inr ()"
      and ev: "chain_events (sealed @ [old]) new = chain_events sealed (ch_log ch)"
      by (rule prepared_core [OF b c rest(1,3) s(2) room rnd rotated(2)])
    have fr: "fs2 q = ch_fs ch q" if "q \<in> set as" for q
      using publish_archive_frame [OF rotated(3), of q] save_frame [OF rotated(4), of q] present [OF that] absent that rest(2)
      by metis
    have "open_log C fs2 (archive_path req) = Inr old"
      using published_reads [OF c old rotated(3)] save_frame [OF rotated(4) path] by (simp add: open_log_def)
    moreover have "map (open_log C fs2) as = map Inr sealed"
      unfolding s(1) [symmetric] by (rule open_log_frame) (rule fr)
    ultimately have "map (open_log C (ch_fs ch')) (as @ [archive_path req]) = map Inr (sealed @ [old])"
      using rotated(5) by (simp del: map_eq_conv)
    moreover have "tot \<longrightarrow> channel_total C ch' \<and> chain_events (sealed @ [old]) (ch_log ch') @ ch_pending ch' @ ch_queue ch' = hist"
      using tot ev new(2) rotated(5) f by (auto simp: channel_total_def)
    ultimately have "chan_core C tot hist (as @ [archive_path req]) ch'"
      using chain new(1) rest path rotated(5) unfolding chan_core_def factory_ok_def
      by (intro exI [of _ "sealed @ [old]"] conjI) simp_all
    then show ?thesis using rotated(1) by simp
  qed
qed

lemma append_all_len:
  "length (entries (snd (append_all C e clk l evs))) \<le> length (entries l) + length evs"
proof (induction evs arbitrary: e l)
  case (Cons ev evs)
  obtain r l1 where a: "al_append C e (clk e) l ev = (r, l1)" by (meson surj_pair)
  show ?case
  proof (cases r)
    case (Inl err)
    then show ?thesis using a al_append_Inl [of C e "clk e" l ev err l1] by simp
  next
    case (Inr x)
    then show ?thesis using a Cons [of "Suc e" l1] al_append_shape(2) [of C e "clk e" l ev x l1] by simp
  qed
qed simp

lemma room_flush: "room (flush C E ch) \<le> room ch"
  using append_all_len [of C "env_entropy E" "env_clock E" "ch_log ch" "ch_pending ch"]
  by (simp add: room_def flush_frame flush_log)

lemma perform_rotation_frame:
  assumes "perform_rotation C E ch req = (r, ch')"
  shows "ch_audit_rotations ch' = ch_audit_rotations ch + (if is_ok r then 1 else 0)" "ch_rot ch' = ch_rot ch"
    "ch_path ch' = ch_path ch"
  using assms by (auto simp: perform_rotation_def split: sum.splits prod.splits)

lemma serve_rotation_core:
  assumes b: "blake3_ok C" and c: "cbor_log_ok C" and core: "chan_core C tot hist as ch"
    and room: "room ch + 1 < 2 ^ 64" and rnd: "length (env_rnd E') = 16" and rot: "ch_rot ch = Some req"
    and path: "archive_path req \<noteq> ch_path ch" and ch': "ch' = serve_rotation C E E' req ch"
  shows "chan_core C tot hist (as @ archived ch ch') ch' \<and> ch_rot ch' = None"
proof -
  let ?ch0 = "ch\<lparr> ch_rot := None, ch_pending := ch_pending ch @ ch_queue ch, ch_queue := [] \<rparr>"
  have c0: "chan_core C tot hist as ?ch0" by (rule chan_core_cong [OF core]) simp_all
  have r0: "room ?ch0 = room ch" by (simp add: room_def)
  let ?ch1 = "flush C E ?ch0"
  have c1: "chan_core C tot hist as ?ch1" by (rule chan_core_flush [OF b c0]) (use r0 room in simp)
  have r1: "room ?ch1 + 1 < 2 ^ 64" using room_flush [of C E ?ch0] r0 room by simp
  obtain r ch2 where p: "perform_rotation C E' ?ch1 req = (r, ch2)" by (meson surj_pair)
  have c2: "chan_core C tot hist (if is_ok r then as @ [archive_path req] else as) ch2"
    by (rule chan_core_rotation [OF b c c1 r1 rnd _ p]) (simp add: flush_frame path)
  note f2 = perform_rotation_frame [OF p]
  have same: "ch_log ch' = ch_log ch2" "ch_fs ch' = ch_fs ch2" "ch_path ch' = ch_path ch2" "ch_factory ch' = ch_factory ch2"
    "ch_pending ch' @ ch_queue ch' = ch_pending ch2 @ ch_queue ch2" "ch_rot ch' = ch_rot ch2"
    "ch_audit_rotations ch' = ch_audit_rotations ch2"
    unfolding ch' serve_rotation_def using p by (simp_all add: Let_def)
  have a: "archived ch ch' = (if is_ok r then [archive_path req] else [])"
    using rot same(7) f2(1) by (simp add: archived_def flush_frame)
  have "chan_core C tot hist (if is_ok r then as @ [archive_path req] else as) ch'"
    by (rule chan_core_cong [OF c2 same(1-5)])
  then show ?thesis using a same(6) f2(2) by (simp add: flush_frame split: if_splits)
qed

lemma store_count_core: "chan_core C tot hist as ch \<Longrightarrow> chan_core C tot hist as (store_count ch)"
  by (erule chan_core_cong) (simp_all add: store_count_def)

lemma after_select_core:
  assumes "blake3_ok C" "chan_core C tot hist as ch" "room ch < 2 ^ 64"
  shows "chan_core C tot hist as (after_select C E ch)" "ch_rot (after_select C E ch) = ch_rot ch"
    "ch_path (after_select C E ch) = ch_path ch" "ch_audit_rotations (after_select C E ch) = ch_audit_rotations ch"
proof -
  have f: "chan_core C tot hist as (fill_batch ch)"
    by (rule chan_core_cong [OF assms(2)]) (simp_all add: fill_batch_def Let_def)
  have r: "room (fill_batch ch) = room ch" by (auto simp: room_def fill_batch_def Let_def)
  have fl: "chan_core C tot hist as (flush C E (fill_batch ch))"
    by (rule chan_core_flush [OF assms(1) f]) (use r assms(3) in simp)
  show "chan_core C tot hist as (after_select C E ch)"
    using f store_count_core [OF fl] by (simp add: after_select_def Let_def)
  show "ch_rot (after_select C E ch) = ch_rot ch" "ch_path (after_select C E ch) = ch_path ch"
    "ch_audit_rotations (after_select C E ch) = ch_audit_rotations ch"
    by (simp_all add: after_select_def Let_def store_count_def flush_frame fill_batch_def)
qed

lemma idle_turn_core:
  assumes b: "blake3_ok C" and core: "chan_core C tot hist as ch" and room: "room ch + 1 < 2 ^ 64"
    and idle: "ch_rot ch = None" "\<not> ch_done ch" "ch_rot_senders ch \<noteq> 0"
  shows "chan_core C tot hist as (task_turn C E E' timer ch) \<and> ch_rot (task_turn C E E' timer ch) = None"
proof (cases "ch_queue ch")
  case (Cons ev q)
  let ?c = "ch\<lparr> ch_queue := q, ch_pending := ch_pending ch @ [ev] \<rparr>"
  have "chan_core C tot hist as ?c" by (rule chan_core_cong [OF core]) (simp_all add: Cons)
  moreover have "room ?c < 2 ^ 64" using room Cons by (simp add: room_def)
  ultimately show ?thesis
    using after_select_core(1,2) [OF b, of tot hist as ?c E] idle Cons by (simp add: task_turn_def)
next
  case Nil
  have fl: "chan_core C tot hist as (store_count (flush C E ch))"
    by (rule store_count_core [OF chan_core_flush [OF b core]]) (use room in simp)
  have rf: "room (store_count (flush C E ch)) < 2 ^ 64"
    using room_flush [of C E ch] room by (simp add: room_def store_count_def)
  have "chan_core C tot hist as ((store_count (flush C E ch))\<lparr> ch_done := True \<rparr>)"
    by (rule chan_core_cong [OF fl]) simp_all
  then show ?thesis
    using after_select_core(1,2) [OF b fl rf, of E'] idle Nil core
    by (simp add: task_turn_def store_count_def flush_frame)
qed

lemma task_turn_core:
  assumes b: "blake3_ok C" and c: "cbor_log_ok C" and core: "chan_core C tot hist as ch" and rp: "rot_path_ok ch"
    and room: "room ch + 1 < 2 ^ 64" and rnd: "length (env_rnd E') = 16" and ch': "ch' = task_turn C E E' timer ch"
  shows "chan_core C tot hist (as @ archived ch ch') ch' \<and> rot_path_ok ch'"
proof (cases "ch_done ch \<or> ch_rot ch = None \<and> ch_rot_senders ch = 0")
  case True
  then have "ch' = ch" using ch' by (auto simp: task_turn_def)
  then show ?thesis using core rp by (simp add: archived_def split: option.splits)
next
  case False
  show ?thesis
  proof (cases "ch_rot ch")
    case (Some req)
    have e: "ch' = serve_rotation C E E' req ch" using ch' False Some by (simp add: task_turn_def)
    have p: "archive_path req \<noteq> ch_path ch" using rp Some by (simp add: rot_path_ok_def)
    from serve_rotation_core [OF b c core room rnd Some p e] show ?thesis by (simp add: rot_path_ok_def)
  next
    case None
    then show ?thesis
      using idle_turn_core [OF b core room None, of E E' timer] False ch' by (simp add: archived_def rot_path_ok_def)
  qed
qed

definition chan_inv :: "'a log_crates_scheme \<Rightarrow> bool \<Rightarrow> audit_event list \<Rightarrow> chan_state \<Rightarrow> bool" where
  "chan_inv C tot base st = (case st of (as, acc, ch) \<Rightarrow> chan_core C tot (base @ acc) as ch \<and> rot_path_ok ch)"

lemma emit_core:
  assumes "chan_core C tot hist as ch" "event_wf ev"
  shows "chan_core C tot (hist @ accepted ch ev) as (emit ch ev)"
proof -
  have "ch_audit_events ch + 1 \<noteq> ch_audit_events ch" by simp
  then show ?thesis
    using assms unfolding chan_core_def factory_ok_def channel_total_def
    by (auto simp: emit_def accepted_def simp del: map_eq_conv)
qed

lemma chan_step_inv:
  assumes "blake3_ok C" "cbor_log_ok C" "chan_step C st st'" "chan_inv C tot base st"
  shows "chan_inv C tot base st'"
  using assms(3,4)
proof cases
  case (step_emit ev as acc ch)
  then show ?thesis
    using assms(4) emit_core [of C tot "base @ acc" as ch ev]
    by (auto simp: chan_inv_def rot_path_ok_def emit_def split: option.splits)
next
  case (step_turn E' ch ch' E timer as acc)
  then show ?thesis
    using assms(4) task_turn_core [OF assms(1,2) _ _ step_turn(4,3,5), of tot "base @ acc" as] by (simp add: chan_inv_def)
qed (use assms(4) in \<open>auto simp: chan_inv_def rot_path_ok_def request_rotation_silent_def rotate_send_def
    get_handle_def drop_handle_def shutdown_begin_def split: if_splits option.splits intro: chan_core_cong\<close>)

lemma chan_run_inv:
  assumes "blake3_ok C" "cbor_log_ok C" "(chan_step C)\<^sup>*\<^sup>* st st'" "chan_inv C tot base st"
  shows "chan_inv C tot base st'"
  using assms(3,4) by (induction rule: rtranclp_induct) (auto intro: chan_step_inv [OF assms(1,2)])

end
