(* ===== verification/Keyfiles.thy ===== *)
theory Keyfiles
  imports Auditlog
begin

text \<open>
  The key files of the audit signer (\<open>qgateway-core/src/auditkey.rs\<close>): generating a key pair
  into two new files, and loading it back with a check that the halves belong together.

  Which system calls fail is the record \<open>key_io\<close>; \<open>k_same\<close> is the outcome of comparing the
  file names and the canonical parent directories, \<open>None\<close> when that fails. Errors are the
  strings of \<open>anyhow\<close>.
\<close>

definition AUDIT_PK_MAGIC :: bytes where "AUDIT_PK_MAGIC = ascii ''AUDITPK0''"
definition AUDIT_SK_MAGIC :: bytes where "AUDIT_SK_MAGIC = ascii ''AUDITSK0''"

record key_io =
  k_stat :: bool
  k_same :: "bool option"
  k_stage :: bool
  k_write :: bool
  k_chmod :: bool
  k_sync :: bool
  k_persist_sk :: bool
  k_persist_pk :: bool
  k_dirsync :: bool

definition public_mode :: nat where "public_mode = 420"

definition new_file :: "bytes \<Rightarrow> nat \<Rightarrow> file_node" where
  "new_file b mode = \<lparr> is_file = True, contents = b, permissions = mode \<rparr>"

definition write_keypair_files :: "key_io \<Rightarrow> filesystem \<Rightarrow> string \<Rightarrow> string \<Rightarrow> bytes \<Rightarrow> bytes \<Rightarrow> (string + unit) \<times> filesystem" where
  "write_keypair_files io fs sk_path pk_path secret public =
     (case and_then (ensure (k_stat io) ''checking'') (\<lambda>_.
           and_then (ensure (fs sk_path = None \<and> fs pk_path = None) ''refusing to overwrite existing key file'') (\<lambda>_.
           and_then (ok_or ''canonicalize'' (k_same io)) (\<lambda>same.
           and_then (ensure (\<not> same) ''secret and public key paths must be different'') (\<lambda>_.
           and_then (ensure (k_stage io) ''tempfile'') (\<lambda>_.
           and_then (ensure (k_write io) ''write'') (\<lambda>_.
           and_then (ensure (k_chmod io) ''set_permissions'') (\<lambda>_.
           and_then (ensure (k_sync io) ''sync_all'') (\<lambda>_.
           ensure (k_persist_sk io) ''publishing secret key'')))))))) of
        Inl err \<Rightarrow> (Inl err, fs)
      | Inr _ \<Rightarrow>
          (let fs1 = fs(sk_path \<mapsto> new_file secret private_mode)
           in if \<not> k_persist_pk io \<or> fs1 pk_path \<noteq> None then (Inl ''publishing public key'', fs1)
              else (ensure (k_dirsync io) ''sync parent'', fs1(pk_path \<mapsto> new_file public public_mode))))"

definition key_generate :: "'a crates_scheme \<Rightarrow> nat \<Rightarrow> key_io \<Rightarrow> filesystem \<Rightarrow> string \<Rightarrow> string \<Rightarrow> (string + keypair) \<times> filesystem" where
  "key_generate C e io fs sk_path pk_path =
     (case KeyPair_generate C e of
        Inl _ \<Rightarrow> (Inl ''ML-DSA-87 keygen'', fs)
      | Inr kp \<Rightarrow>
          (case write_keypair_files io fs sk_path pk_path (AUDIT_SK_MAGIC @ kp_sk kp) (AUDIT_PK_MAGIC @ kp_pk kp) of
             (Inl err, fs') \<Rightarrow> (Inl err, fs')
           | (Inr _, fs') \<Rightarrow> (Inr kp, fs')))"

definition read_file :: "filesystem \<Rightarrow> string \<Rightarrow> bytes option" where
  "read_file fs path = (case fs path of Some n \<Rightarrow> if is_file n then Some (contents n) else None | None \<Rightarrow> None)"

definition load_pub :: "filesystem \<Rightarrow> string \<Rightarrow> string + public_key" where
  "load_pub fs pk_path =
     and_then (ok_or ''reading audit public-key file'' (read_file fs pk_path)) (\<lambda>blob.
     and_then (ensure (length blob = 8 + PUBLIC_KEY_LEN) ''audit public-key file has invalid length'') (\<lambda>_.
     and_then (ensure (take 8 blob = AUDIT_PK_MAGIC) ''audit public-key file has bad magic'') (\<lambda>_.
     map_err (\<lambda>_. ''decoding audit public key'') (PublicKey_from_bytes (take PUBLIC_KEY_LEN (drop 8 blob))))))"

definition key_load :: "'a crates_scheme \<Rightarrow> filesystem \<Rightarrow> string \<Rightarrow> string \<Rightarrow> string + keypair" where
  "key_load C fs sk_path pk_path =
     and_then (ok_or ''reading audit secret-key file'' (read_file fs sk_path)) (\<lambda>blob.
     and_then (ensure (length blob = 8 + SECRET_KEY_LEN) ''audit secret key file has invalid length'') (\<lambda>_.
     and_then (ensure (take 8 blob = AUDIT_SK_MAGIC) ''audit secret key file has bad magic'') (\<lambda>_.
     and_then (map_err (\<lambda>_. ''decoding audit ML-DSA-87 SK'') (SecretKey_from_bytes (take SECRET_KEY_LEN (drop 8 blob)))) (\<lambda>sk.
     and_then (load_pub fs pk_path) (\<lambda>pk.
     and_then (map_err (\<lambda>_. ''derive_public'') (derive_public C sk)) (\<lambda>derived.
     and_then (ensure (derived = pk) ''audit public key does not match secret key'') (\<lambda>_.
     Inr (KeyPair_from_parts pk sk))))))))"

subsection \<open>Facts\<close>

lemma magic_lengths [simp]: "length AUDIT_PK_MAGIC = 8" "length AUDIT_SK_MAGIC = 8"
  by (simp_all add: AUDIT_PK_MAGIC_def AUDIT_SK_MAGIC_def)

lemma write_keypair_frame:
  assumes "write_keypair_files io fs sk_path pk_path secret public = (r, fs')"
  shows "fs p \<noteq> None \<Longrightarrow> fs' p = fs p"
    and "fs' sk_path \<noteq> fs sk_path \<Longrightarrow> fs' sk_path = Some (new_file secret private_mode)"
    and "r = Inr () \<Longrightarrow> sk_path \<noteq> pk_path \<and> fs' sk_path = Some (new_file secret private_mode) \<and>
           fs' pk_path = Some (new_file public public_mode)"
  using assms
  by (auto simp: write_keypair_files_def Let_def res_simps split: sum.splits if_splits)

lemma key_load_sound:
  "key_load C fs sk_path pk_path = Inr kp \<Longrightarrow>
   keypair_matches C kp \<and> length (kp_sk kp) = SECRET_KEY_LEN \<and> length (kp_pk kp) = PUBLIC_KEY_LEN \<and> mldsa_sk_parses C (kp_sk kp)"
  by (auto simp: key_load_def load_pub_def res_simps derive_public_def keypair_matches_def KeyPair_from_parts_def split: if_splits)

lemma load_pub_new:
  assumes "fs pk_path = Some (new_file (AUDIT_PK_MAGIC @ pk) m)" "length pk = PUBLIC_KEY_LEN"
  shows "load_pub fs pk_path = Inr pk"
  using assms by (simp add: load_pub_def read_file_def new_file_def PublicKey_from_bytes_def)

lemma key_load_new:
  assumes ok: "mldsa_ok C" and g: "KeyPair_generate C e = Inr kp"
    and sk: "fs sk_path = Some (new_file (AUDIT_SK_MAGIC @ kp_sk kp) m)"
    and pk: "fs pk_path = Some (new_file (AUDIT_PK_MAGIC @ kp_pk kp) m')"
  shows "key_load C fs sk_path pk_path = Inr kp"
proof -
  have kp: "length (kp_pk kp) = PUBLIC_KEY_LEN" "length (kp_sk kp) = SECRET_KEY_LEN"
    "mldsa_sk_parses C (kp_sk kp)" "mldsa_get_public_key C (kp_sk kp) = kp_pk kp"
    using g mldsa_keygen_lengths [OF ok, of e]
    by (auto simp: KeyPair_generate_def key_lens split: option.splits)
  then show ?thesis
    using sk load_pub_new [of fs pk_path "kp_pk kp" m'] pk
    by (simp add: key_load_def read_file_def new_file_def SecretKey_from_bytes_def derive_public_def KeyPair_from_parts_def)
qed

end
