(* ===== verification/Channel_Theorems.thy ===== *)
theory Channel_Theorems
  imports Audit_Channel Keyfiles Instances
begin

text \<open>
  The properties of the audit channel over all interleavings of its producers and its task,
  with a concrete run: one event emitted on a fresh log and written by the task; and the
  property of the key files the channel's signer is loaded from.
\<close>

definition demo_env :: env where
  "demo_env = \<lparr> env_entropy = 0, env_clock = (\<lambda>i. 9), env_rnd = replicate 16 2, env_factory = 0,
     env_save = demo_io, env_archive = demo_io, env_unix = 0 \<rparr>"

definition demo_factory :: signer_factory where
  "demo_factory i = Inr demo_signer"

definition demo_files :: filesystem where
  "demo_files = [''a.qa'' \<mapsto> \<lparr> is_file = True, contents = MAGIC @ [1], permissions = private_mode \<rparr>]"

definition demo_channel :: channel where
  "demo_channel = spawn_inner demo_log0 ''a.qa'' demo_files 4 1 (Some demo_factory) 0"

definition demo_emitted :: channel where
  "demo_emitted = emit demo_channel demo_event"

definition demo_written :: channel where
  "demo_written = task_turn toy_log demo_env demo_env False demo_emitted"

lemma demo_blake: "blake3_ok toy_log"
  by simp

lemma demo_live: "live_ok toy_log demo_log0"
  by (simp add: live_ok_def log_wf_def)
    (simp add: demo_log0_def header_wf_def demo_header_def)

lemma demo_chain0: "verify_chain toy_log [demo_log0] = Inr ()"
  using demo_log0_ok by (simp add: verify_chain_iff log_ok_def) (simp add: demo_log0_def demo_header_def)

lemma demo_factory_ok: "\<forall>f i s. Some demo_factory = Some f \<and> f i = Inr s \<longrightarrow> signer_ok toy_log s"
  by (auto simp: demo_factory_def)

lemma demo_signer_total: "signer_total demo_signer"
  by (simp add: signer_total_def demo_sign)

lemma demo_channel_total: "channel_total toy_log demo_channel"
proof -
  have "cbor_payload toy_log lid i p eh n \<noteq> None" for lid i p eh n by (simp add: toy_log_def)
  moreover have "al_signer (ch_log demo_channel) = Some demo_signer"
    by (simp add: demo_channel_def spawn_inner_def demo_log0_def)
  ultimately show ?thesis
    using demo_signer_total
    by (auto simp: channel_total_def demo_channel_def spawn_inner_def demo_factory_def)
qed

lemma demo_run: "(chan_step toy_log)\<^sup>*\<^sup>* ([], [], demo_channel) ([], [demo_event], demo_written)"
proof -
  have ev: "event_wf demo_event"
    by (simp add: event_wf_def demo_event_def build_def builder_defs)
  have "accepted demo_channel demo_event = [demo_event]"
    by (simp add: accepted_def emit_def demo_channel_def spawn_inner_def)
  then have 1: "chan_step toy_log ([], [], demo_channel) ([], [demo_event], demo_emitted)"
    using step_emit [OF ev, of toy_log "[]" "[]" demo_channel] by (simp add: demo_emitted_def)
  have "room demo_emitted + 1 < 2 ^ 64"
    by (simp add: room_def demo_emitted_def emit_def demo_channel_def spawn_inner_def demo_log0_def)
  moreover have "archived demo_emitted demo_written = []"
    by (simp add: archived_def demo_emitted_def emit_def demo_channel_def spawn_inner_def)
  moreover have "length (env_rnd demo_env) = 16" by (simp add: demo_env_def)
  ultimately have 2: "chan_step toy_log ([], [demo_event], demo_emitted) ([], [demo_event], demo_written)"
    using step_turn [of demo_env demo_emitted demo_written toy_log demo_env False "[]" "[demo_event]"]
    by (simp add: demo_written_def)
  show ?thesis using 1 2 by (meson converse_rtranclp_into_rtranclp rtranclp.rtrancl_refl)
qed

lemma spawn_inv:
  assumes "live_ok C l" "verify_chain C [l] = Inr ()"
    and "\<forall>f i s. factory = Some f \<and> f i = Inr s \<longrightarrow> signer_ok C s"
    and "tot \<longrightarrow> channel_total C (spawn_inner l path fs cap batch factory now)"
  shows "chan_inv C tot (map event (entries l)) ([], [], spawn_inner l path fs cap batch factory now)"
  using assms unfolding chan_inv_def chan_core_def factory_ok_def rot_path_ok_def
  by (simp add: spawn_inner_def)

subsection \<open>Invariants of all runs\<close>

text \<open>
  C3. Whatever the interleaving of emitted events, rotation requests, handles dropped and turns
  of the task, and whatever fails underneath: the archives that were published, read back
  from disk in order, followed by the live log, form a verified chain.
\<close>

theorem channel_keeps_chain_verified:
  assumes "blake3_ok C" "cbor_log_ok C" "live_ok C l" "verify_chain C [l] = Inr ()"
    and "\<forall>f i s. factory = Some f \<and> f i = Inr s \<longrightarrow> signer_ok C s"
    and "(chan_step C)\<^sup>*\<^sup>* ([], [], spawn_inner l path fs cap batch factory now) (as, acc, ch)"
  shows "\<exists>sealed. map (open_log C (ch_fs ch)) as = map Inr sealed \<and>
    verify_chain C (sealed @ [ch_log ch]) = Inr ()"
proof -
  have "chan_inv C False (map event (entries l)) (as, acc, ch)"
    by (rule chan_run_inv [OF assms(1,2,6) spawn_inv [OF assms(3-5)]]) simp
  then show ?thesis by (auto simp: chan_inv_def chan_core_def)
qed

theorem channel_keeps_chain_verified_witness: "verify_chain toy_log [ch_log demo_written] = Inr ()"
  using channel_keeps_chain_verified [OF demo_blake toy_cbor_log_ok demo_live demo_chain0 demo_factory_ok
      demo_run [unfolded demo_channel_def]] by simp

text \<open>
  C4. When the encoders and the signers do not fail, no accepted event is lost, duplicated or
  reordered: at every moment of every run the events in the archives on disk, the live log,
  the batch and the queue are, in this order and without the events that close and open the
  segments, the events the log started with followed by all events accepted so far.
\<close>

theorem accepted_events_are_kept_in_order:
  assumes "blake3_ok C" "cbor_log_ok C" "live_ok C l" "verify_chain C [l] = Inr ()"
    and "\<forall>f i s. factory = Some f \<and> f i = Inr s \<longrightarrow> signer_ok C s"
    and "channel_total C (spawn_inner l path fs cap batch factory now)"
    and "(chan_step C)\<^sup>*\<^sup>* ([], [], spawn_inner l path fs cap batch factory now) (as, acc, ch)"
  shows "\<exists>sealed. map (open_log C (ch_fs ch)) as = map Inr sealed \<and>
    chain_events sealed (ch_log ch) @ ch_pending ch @ ch_queue ch = map event (entries l) @ acc"
proof -
  have "chan_inv C True (map event (entries l)) (as, acc, ch)"
    by (rule chan_run_inv [OF assms(1,2,7) spawn_inv [OF assms(3-5)]]) (simp add: assms(6))
  then show ?thesis by (auto simp: chan_inv_def chan_core_def)
qed

theorem accepted_events_are_kept_in_order_witness:
  "map event (entries (ch_log demo_written)) @ ch_pending demo_written @ ch_queue demo_written = [demo_event]"
  using accepted_events_are_kept_in_order [OF demo_blake toy_cbor_log_ok demo_live demo_chain0 demo_factory_ok
      demo_channel_total [unfolded demo_channel_def] demo_run [unfolded demo_channel_def]]
  by (simp add: demo_log0_def)

subsection \<open>Shutting down\<close>

fun turns :: "'a log_crates_scheme \<Rightarrow> (env \<times> env \<times> bool) list \<Rightarrow> channel \<Rightarrow> channel" where
  "turns C [] ch = ch"
| "turns C ((E, E', timer) # es) ch = turns C es (task_turn C E E' timer ch)"

definition closing :: "channel \<Rightarrow> bool" where
  "closing ch \<longleftrightarrow> ch_senders ch = 0 \<and> ch_rot ch = None \<and> 0 < ch_rot_senders ch \<and>
     (ch_done ch \<longrightarrow> ch_pending ch = [] \<and> ch_queue ch = [])"

lemma after_select_frame:
  "ch_senders (after_select C E ch) = ch_senders ch" "ch_rot (after_select C E ch) = ch_rot ch"
  "ch_rot_senders (after_select C E ch) = ch_rot_senders ch" "ch_done (after_select C E ch) = ch_done ch"
  "length (ch_queue (after_select C E ch)) \<le> length (ch_queue ch)"
  by (auto simp: after_select_def Let_def store_count_def flush_frame fill_batch_def)

lemma closing_turn:
  assumes "closing ch"
  shows "closing (task_turn C E E' timer ch)"
    "ch_done (task_turn C E E' timer ch) \<or> length (ch_queue (task_turn C E E' timer ch)) < length (ch_queue ch)"
proof -
  have "closing (task_turn C E E' timer ch) \<and>
    (ch_done (task_turn C E E' timer ch) \<or> length (ch_queue (task_turn C E E' timer ch)) < length (ch_queue ch))"
  proof (cases "ch_queue ch")
    case Nil
    then show ?thesis using assms by (auto simp: closing_def task_turn_def store_count_def flush_frame)
  next
    case (Cons ev q)
    let ?c = "ch\<lparr> ch_queue := q, ch_pending := ch_pending ch @ [ev] \<rparr>"
    have nd: "\<not> ch_done ch" using assms Cons by (auto simp: closing_def)
    have "task_turn C E E' timer ch = after_select C E ?c"
      using assms Cons nd by (simp add: closing_def task_turn_def)
    then show ?thesis
      using after_select_frame [of C E ?c] assms Cons nd by (simp add: closing_def)
  qed
  then show "closing (task_turn C E E' timer ch)"
    "ch_done (task_turn C E E' timer ch) \<or> length (ch_queue (task_turn C E E' timer ch)) < length (ch_queue ch)" by auto
qed

lemma done_turn: "ch_done ch \<Longrightarrow> turns C es ch = ch"
  by (induction C es ch rule: turns.induct) (auto simp: task_turn_def)



text \<open>
  With no rotation sender left the biased select always takes its first branch, which does
  nothing: the task makes no progress and queued events are never written.
\<close>

lemma no_rotation_sender_no_progress:
  assumes "ch_rot ch = None" "ch_rot_senders ch = 0"
  shows "turns C es ch = ch"
  using assms by (induction C es ch rule: turns.induct) (auto simp: task_turn_def)

subsection \<open>Key files\<close>

definition demo_key_io :: key_io where
  "demo_key_io = \<lparr> k_stat = True, k_same = Some False, k_stage = True, k_write = True, k_chmod = True, k_sync = True,
     k_persist_sk = True, k_persist_pk = True, k_dirsync = True \<rparr>"

text \<open>
  Generating the key files never changes a file that exists, whatever fails, and creates
  the secret one readable by its owner only; when it succeeds, loading the two files gives
  the generated pair. A pair that loads always has matching halves.
\<close>

lemma key_files_round_trip:
  assumes "mldsa_ok C" "key_generate C e io fs sk_path pk_path = (r, fs')"
  shows "(\<forall>p n. fs p = Some n \<longrightarrow> fs' p = Some n) \<and>
    (\<forall>n. fs sk_path = None \<and> fs' sk_path = Some n \<longrightarrow> permissions n = private_mode) \<and>
    (\<forall>kp. r = Inr kp \<longrightarrow> key_load C fs' sk_path pk_path = Inr kp) \<and>
    (\<forall>fs kp. key_load C fs sk_path pk_path = Inr kp \<longrightarrow> keypair_good C kp)"
proof -
  have sound: "keypair_good C kp" if "key_load C gs sk_path pk_path = Inr kp" for gs kp
    using key_load_sound [OF that] assms(1) by (simp add: keypair_good_def)
  show ?thesis
  proof (cases "KeyPair_generate C e")
    case (Inl err)
    then show ?thesis using assms(2) sound by (auto simp: key_generate_def)
  next
    case (Inr kp)
    let ?sk = "AUDIT_SK_MAGIC @ kp_sk kp" and ?pk = "AUDIT_PK_MAGIC @ kp_pk kp"
    obtain w where w: "write_keypair_files io fs sk_path pk_path ?sk ?pk = (w, fs')"
      and r: "r = (case w of Inl err \<Rightarrow> Inl err | Inr _ \<Rightarrow> Inr kp)"
      using assms(2) Inr by (auto simp: key_generate_def split: prod.splits sum.splits)
    note f = write_keypair_frame [OF w]
    have "\<forall>p n. fs p = Some n \<longrightarrow> fs' p = Some n" using f(1) by (metis option.distinct(1))
    moreover have "\<forall>n. fs sk_path = None \<and> fs' sk_path = Some n \<longrightarrow> permissions n = private_mode"
      using f(2) by (auto simp: new_file_def)
    moreover have "key_load C fs' sk_path pk_path = Inr k" if "r = Inr k" for k
    proof -
      have "w = Inr ()" "k = kp" using r that by (cases w; simp)+
      then show ?thesis using key_load_new [OF assms(1) Inr] f(3) by metis
    qed
    ultimately show ?thesis using sound by blast
  qed
qed

end
