(* ===== verification/Export.thy ===== *)
theory Export
  imports Instances
begin

text \<open>
  The regulatory export formats (\<open>qaudit-core/src/export.rs\<close>): XML through the writer of
  \<open>quick_xml\<close>, which is a parameter that consumes events, and newline-delimited JSON built by
  hand. \<open>rfc3339\<close> is chrono's rendering of a time, with milliseconds or without. Strings are
  their UTF-8 bytes; every byte of a multi-byte character is at least \<open>0x80\<close>, so the escaping of
  characters is an escaping of bytes. A reader for the JSON objects the export writes and a
  parser for event streams are the specifications.
\<close>

subsection \<open>XML\<close>

datatype xml_event =
    Decl string string
  | Start string "(string \<times> string) list"
  | Text string
  | End string

record 'w xml_writer =
  xw_new :: 'w
  xw_write :: "'w \<Rightarrow> xml_event \<Rightarrow> string + 'w"
  xw_finish :: "'w \<Rightarrow> string + string"

definition NAMESPACE :: string where
  "NAMESPACE = ''https://securityops.co/schemas/qaudit-export-v1''"

definition VERSION :: string where
  "VERSION = ''1.0.4''"

definition write_event :: "'w xml_writer \<Rightarrow> xml_event \<Rightarrow> 'w \<Rightarrow> 'w result" where
  "write_event W ev w = map_err (\<lambda>e. Internal (''XML error: '' @ e)) (xw_write W w ev)"

text \<open>A sequence of writes joined by the \<open>?\<close> operator.\<close>

fun steps :: "('w \<Rightarrow> 'w result) list \<Rightarrow> 'w \<Rightarrow> 'w result" where
  "steps [] w = Inr w"
| "steps (f # fs) w = and_then (f w) (steps fs)"

definition write_text_elem :: "'w xml_writer \<Rightarrow> string \<Rightarrow> string \<Rightarrow> 'w \<Rightarrow> 'w result" where
  "write_text_elem W name txt =
     steps [write_event W (Start name []), write_event W (Text txt), write_event W (End name)]"

definition write_hex_elem :: "'w xml_writer \<Rightarrow> 'a crates_scheme \<Rightarrow> string \<Rightarrow> bytes \<Rightarrow> 'w \<Rightarrow> 'w result" where
  "write_hex_elem W C name b =
     steps [write_event W (Start name [(''encoding'', ''hex'')]),
            write_event W (Text (hex_encode C b)), write_event W (End name)]"

definition write_signature_elem :: "'w xml_writer \<Rightarrow> 'a crates_scheme \<Rightarrow> bytes \<Rightarrow> 'w \<Rightarrow> 'w result" where
  "write_signature_elem W C b =
     steps [write_event W (Start ''Signature'' [(''encoding'', ''hex''), (''algorithm'', ''ml-dsa-87'')]),
            write_event W (Text (hex_encode C b)), write_event W (End ''Signature'')]"

definition export_header :: "'w xml_writer \<Rightarrow> 'a crates_scheme \<Rightarrow> (bool \<Rightarrow> timestamp \<Rightarrow> string) \<Rightarrow> log_header \<Rightarrow> 'w \<Rightarrow> 'w result" where
  "export_header W C rfc3339 h =
     steps [write_event W (Start ''Header'' []),
            write_text_elem W ''LogId'' (hex_encode C (lh_log_id h)),
            write_text_elem W ''Suite'' (suite h),
            write_text_elem W ''WireVersion'' (dec_nat (unat (wire_version h))),
            write_text_elem W ''CreatedAt'' (rfc3339 False (created_at h)),
            write_text_elem W ''Label'' (label h),
            write_text_elem W ''SignatureAlgorithm'' ''ml-dsa-87'',
            write_text_elem W ''HashAlgorithm'' ''blake3-256'',
            write_hex_elem W C ''PublicKey'' (pubkey h),
            write_event W (End ''Header'')]"

definition export_item :: "'w xml_writer \<Rightarrow> string \<times> string \<Rightarrow> 'w \<Rightarrow> 'w result" where
  "export_item W kv =
     steps [write_event W (Start ''Item'' [(''key'', fst kv)]), write_event W (Text (snd kv)),
            write_event W (End ''Item'')]"

definition export_entry :: "'w xml_writer \<Rightarrow> 'a crates_scheme \<Rightarrow> (bool \<Rightarrow> timestamp \<Rightarrow> string) \<Rightarrow> log_entry \<Rightarrow> 'w \<Rightarrow> 'w result" where
  "export_entry W C rfc3339 e =
     steps [write_event W (Start ''Entry'' [(''index'', dec_nat (unat (le_index e)))]),
            write_text_elem W ''AppendedAt'' (rfc3339 True (appended_at e)),
            write_event W (Start ''Event'' []),
            write_text_elem W ''Schema'' (dec_nat (unat (schema (event e)))),
            write_text_elem W ''Timestamp'' (rfc3339 True (ev_timestamp (event e))),
            write_text_elem W ''Actor'' (actor (event e)),
            write_text_elem W ''Action'' (action (event e)),
            write_text_elem W ''Resource'' (resource (event e)),
            write_text_elem W ''Outcome'' (outcome (event e)),
            write_event W (Start ''Metadata'' []),
            steps (map (export_item W) (metadata (event e))),
            write_event W (End ''Metadata''),
            write_event W (End ''Event''),
            write_hex_elem W C ''PrevRoot'' (prev_root e),
            write_hex_elem W C ''NewRoot'' (new_root e),
            write_signature_elem W C (le_signature e),
            write_event W (End ''Entry'')]"

definition export_trailer :: "'w xml_writer \<Rightarrow> 'a crates_scheme \<Rightarrow> (bool \<Rightarrow> timestamp \<Rightarrow> string) \<Rightarrow> timestamp \<Rightarrow> audit_log \<Rightarrow> 'w \<Rightarrow> 'w result" where
  "export_trailer W C rfc3339 now lg =
     steps [write_event W (Start ''Trailer'' []),
            write_hex_elem W C ''FinalRoot'' (current_root C lg),
            write_text_elem W ''EntryCount'' (dec_nat (unat (al_len lg))),
            write_text_elem W ''ExportedAt'' (rfc3339 False now),
            write_text_elem W ''ProducerVersion'' (''qaudit-core '' @ VERSION),
            write_event W (End ''Trailer'')]"

definition export_xml :: "'w xml_writer \<Rightarrow> 'a crates_scheme \<Rightarrow> (bool \<Rightarrow> timestamp \<Rightarrow> string) \<Rightarrow> timestamp \<Rightarrow> audit_log \<Rightarrow> string result" where
  "export_xml W C rfc3339 now lg =
     and_then
       (steps
         [write_event W (Decl ''1.0'' ''UTF-8''),
          write_event W (Start ''AuditLogExport'' [(''xmlns'', NAMESPACE)]),
          export_header W C rfc3339 (header lg),
          write_event W (Start ''Entries'' [(''count'', dec_nat (unat (al_len lg)))]),
          steps (map (export_entry W C rfc3339) (entries lg)),
          write_event W (End ''Entries''),
          export_trailer W C rfc3339 now lg,
          write_event W (End ''AuditLogExport'')] (xw_new W))
       (\<lambda>w. map_err (\<lambda>e. Internal (''XML UTF-8: '' @ e)) (xw_finish W w))"

subsection \<open>Newline-delimited JSON\<close>

abbreviation quote :: char where "quote \<equiv> CHR 0x22"
abbreviation backslash :: char where "backslash \<equiv> CHR 0x5C"
abbreviation newline :: char where "newline \<equiv> CHR 0x0A"

definition hex4 :: "nat \<Rightarrow> string" where
  "hex4 n = [nibble (n div 4096 mod 16), nibble (n div 256 mod 16), nibble (n div 16 mod 16), nibble (n mod 16)]"

definition escape_char :: "char \<Rightarrow> string" where
  "escape_char c =
     (if c = quote then [backslash, quote]
      else if c = backslash then [backslash, backslash]
      else if c = newline then backslash # ''n''
      else if c = CHR 0x0D then backslash # ''r''
      else if c = CHR 0x09 then backslash # ''t''
      else if (of_char c :: nat) < 32 then backslash # ''u'' @ hex4 (of_char c)
      else [c])"

definition json_escape :: "string \<Rightarrow> string" where
  "json_escape s = concat (map escape_char s)"

definition json_field :: "string \<Rightarrow> string \<Rightarrow> bool \<Rightarrow> string" where
  "json_field k raw_value quoted =
     [quote] @ k @ [quote] @ '':'' @ (if quoted then [quote] else []) @ raw_value @
     (if quoted then [quote] else [])"

fun json_metadata :: "bool \<Rightarrow> (string \<times> string) list \<Rightarrow> string" where
  "json_metadata first [] = []"
| "json_metadata first ((k, v) # m) =
     (if first then [] else '','') @ [quote] @ json_escape k @ [quote] @ '':'' @ [quote] @
     json_escape v @ [quote] @ json_metadata False m"

definition export_json_line :: "'a crates_scheme \<Rightarrow> (bool \<Rightarrow> timestamp \<Rightarrow> string) \<Rightarrow> log_entry \<Rightarrow> string" where
  "export_json_line C rfc3339 e =
     ''{'' @ json_field ''index'' (dec_nat (unat (le_index e))) False @
     '','' @ json_field ''appended_at'' (json_escape (rfc3339 True (appended_at e))) True @
     '','' @ json_field ''actor'' (json_escape (actor (event e))) True @
     '','' @ json_field ''action'' (json_escape (action (event e))) True @
     '','' @ json_field ''resource'' (json_escape (resource (event e))) True @
     '','' @ json_field ''outcome'' (json_escape (outcome (event e))) True @
     '','' @ [quote] @ ''metadata'' @ [quote] @ '':'' @ ''{'' @ json_metadata True (metadata (event e)) @ ''}'' @
     '','' @ json_field ''prev_root'' (hex_encode C (prev_root e)) True @
     '','' @ json_field ''new_root'' (hex_encode C (new_root e)) True @
     '','' @ json_field ''signature'' (hex_encode C (le_signature e)) True @
     ''}'' @ [newline]"

definition export_jsonl :: "'a crates_scheme \<Rightarrow> (bool \<Rightarrow> timestamp \<Rightarrow> string) \<Rightarrow> audit_log \<Rightarrow> string result" where
  "export_jsonl C rfc3339 lg = Inr (concat (map (export_json_line C rfc3339) (entries lg)))"

subsection \<open>The document as a tree\<close>

text \<open>
  The document a reader of the schema expects, and its serialisation into events; a stack
  parser gives the tree back, so the event stream is well nested.
\<close>

datatype xml = Elem string "(string \<times> string) list" "xml list" | Chars string

fun flatten :: "xml \<Rightarrow> xml_event list" where
  "flatten (Elem n a ts) = Start n a # concat (map flatten ts) @ [End n]"
| "flatten (Chars s) = [Text s]"

definition leaf :: "string \<Rightarrow> string \<Rightarrow> xml" where
  "leaf n s = Elem n [] [Chars s]"

definition hex_leaf :: "'a crates_scheme \<Rightarrow> string \<Rightarrow> bytes \<Rightarrow> xml" where
  "hex_leaf C n b = Elem n [(''encoding'', ''hex'')] [Chars (hex_encode C b)]"

definition entry_tree :: "'a crates_scheme \<Rightarrow> (bool \<Rightarrow> timestamp \<Rightarrow> string) \<Rightarrow> log_entry \<Rightarrow> xml" where
  "entry_tree C rfc3339 e =
     Elem ''Entry'' [(''index'', dec_nat (unat (le_index e)))]
       [leaf ''AppendedAt'' (rfc3339 True (appended_at e)),
        Elem ''Event'' []
          [leaf ''Schema'' (dec_nat (unat (schema (event e)))),
           leaf ''Timestamp'' (rfc3339 True (ev_timestamp (event e))),
           leaf ''Actor'' (actor (event e)), leaf ''Action'' (action (event e)),
           leaf ''Resource'' (resource (event e)), leaf ''Outcome'' (outcome (event e)),
           Elem ''Metadata'' []
             (map (\<lambda>kv. Elem ''Item'' [(''key'', fst kv)] [Chars (snd kv)]) (metadata (event e)))],
        hex_leaf C ''PrevRoot'' (prev_root e), hex_leaf C ''NewRoot'' (new_root e),
        Elem ''Signature'' [(''encoding'', ''hex''), (''algorithm'', ''ml-dsa-87'')]
          [Chars (hex_encode C (le_signature e))]]"

definition document :: "'a crates_scheme \<Rightarrow> (bool \<Rightarrow> timestamp \<Rightarrow> string) \<Rightarrow> timestamp \<Rightarrow> audit_log \<Rightarrow> xml" where
  "document C rfc3339 now lg =
     (let h = header lg in
      Elem ''AuditLogExport'' [(''xmlns'', NAMESPACE)]
       [Elem ''Header'' []
          [leaf ''LogId'' (hex_encode C (lh_log_id h)), leaf ''Suite'' (suite h),
           leaf ''WireVersion'' (dec_nat (unat (wire_version h))),
           leaf ''CreatedAt'' (rfc3339 False (created_at h)), leaf ''Label'' (label h),
           leaf ''SignatureAlgorithm'' ''ml-dsa-87'', leaf ''HashAlgorithm'' ''blake3-256'',
           hex_leaf C ''PublicKey'' (pubkey h)],
        Elem ''Entries'' [(''count'', dec_nat (unat (al_len lg)))] (map (entry_tree C rfc3339) (entries lg)),
        Elem ''Trailer'' []
          [hex_leaf C ''FinalRoot'' (current_root C lg), leaf ''EntryCount'' (dec_nat (unat (al_len lg))),
           leaf ''ExportedAt'' (rfc3339 False now), leaf ''ProducerVersion'' (''qaudit-core '' @ VERSION)]])"

text \<open>The stack holds the open elements with their children in reverse.\<close>

fun parse_events :: "(string \<times> (string \<times> string) list \<times> xml list) list \<Rightarrow> xml list \<Rightarrow> xml_event list \<Rightarrow> xml list option" where
  "parse_events [] acc [] = Some (rev acc)"
| "parse_events (f # st) acc [] = None"
| "parse_events st acc (Decl v e # evs) = None"
| "parse_events st acc (Start n a # evs) = parse_events ((n, a, acc) # st) [] evs"
| "parse_events st acc (Text s # evs) = parse_events st (Chars s # acc) evs"
| "parse_events [] acc (End n # evs) = None"
| "parse_events ((m, a, up) # st) acc (End n # evs) =
     (if m = n then parse_events st (Elem m a (rev acc) # up) evs else None)"

lemma parse_flatten:
  "parse_events st acc (flatten t @ evs) = parse_events st (t # acc) evs"
proof (induction t arbitrary: st acc evs)
  case (Elem n a ts)
  have "parse_events st' acc' (concat (map flatten ts') @ evs') = parse_events st' (rev ts' @ acc') evs'"
    if "set ts' \<subseteq> set ts" for ts' st' acc' evs'
    using that
  proof (induction ts' arbitrary: acc')
    case (Cons t ts')
    then show ?case using Elem.IH [of t] by simp
  qed simp
  from this [of ts] show ?case by simp
next
  case (Chars s)
  then show ?case by simp
qed

subsection \<open>The XML writer emits the document\<close>

text \<open>A step that emits a fixed list of events, and its composition.\<close>

definition emits :: "'w xml_writer \<Rightarrow> ('w \<Rightarrow> 'w result) \<Rightarrow> xml_event list \<Rightarrow> bool" where
  "emits W f evs \<longleftrightarrow> (\<forall>w. f w = try_fold (\<lambda>w ev. write_event W ev w) w evs)"

lemma emits_event: "emits W (write_event W ev) [ev]"
proof -
  have "and_then r Inr = r" for r :: "'a result" by (cases r) auto
  then show ?thesis unfolding emits_def by simp
qed

lemma emits_Nil: "emits W (steps []) []"
  by (simp add: emits_def)

lemma emits_Cons:
  assumes "emits W f evs" and "emits W (steps fs) evs'"
  shows "emits W (steps (f # fs)) (evs @ evs')"
proof -
  have "steps fs = (\<lambda>w. try_fold (\<lambda>w ev. write_event W ev w) w evs')"
    using assms(2) by (auto simp: emits_def)
  then show ?thesis using assms(1) unfolding emits_def by (simp add: try_fold_append)
qed

lemma emits_eq: "emits W f evs \<Longrightarrow> evs = evs' \<Longrightarrow> emits W f evs'"
  by simp

lemma emits_map:
  "(\<And>x. x \<in> set xs \<Longrightarrow> emits W (f x) (g x)) \<Longrightarrow> emits W (steps (map f xs)) (concat (map g xs))"
proof (induction xs)
  case Nil
  then show ?case by (simp add: emits_def)
next
  case (Cons x xs)
  then show ?case using emits_Cons [of W "f x" "g x" "map f xs" "concat (map g xs)"]
    by (simp del: steps.simps)
qed

lemmas emits_intros = emits_Cons emits_event emits_Nil

lemma emits_leaf: "emits W (write_text_elem W n s) (flatten (leaf n s))"
  unfolding write_text_elem_def leaf_def
  by (rule emits_eq, (rule emits_intros)+) simp

lemma emits_hex: "emits W (write_hex_elem W C n b) (flatten (hex_leaf C n b))"
  unfolding write_hex_elem_def hex_leaf_def
  by (rule emits_eq, (rule emits_intros)+) simp

lemma emits_signature:
  "emits W (write_signature_elem W C b)
     (flatten (Elem ''Signature'' [(''encoding'', ''hex''), (''algorithm'', ''ml-dsa-87'')] [Chars (hex_encode C b)]))"
  unfolding write_signature_elem_def
  by (rule emits_eq, (rule emits_intros)+) simp

lemma emits_item:
  "emits W (export_item W kv) (flatten (Elem ''Item'' [(''key'', fst kv)] [Chars (snd kv)]))"
  unfolding export_item_def
  by (rule emits_eq, (rule emits_intros)+) simp

lemmas emits_parts = emits_leaf emits_hex emits_signature emits_item

lemma emits_entry: "emits W (export_entry W C rfc3339 e) (flatten (entry_tree C rfc3339 e))"
  unfolding export_entry_def entry_tree_def
  by (rule emits_eq, (rule emits_intros emits_parts emits_map)+) (simp add: comp_def)

lemma emits_header_trailer:
  "emits W (steps [write_event W (Start ''AuditLogExport'' [(''xmlns'', NAMESPACE)]),
      export_header W C rfc3339 (header lg),
      write_event W (Start ''Entries'' [(''count'', dec_nat (unat (al_len lg)))]),
      steps (map (export_entry W C rfc3339) (entries lg)), write_event W (End ''Entries''),
      export_trailer W C rfc3339 now lg, write_event W (End ''AuditLogExport'')])
     (flatten (document C rfc3339 now lg))"
  unfolding export_header_def export_trailer_def document_def Let_def
  by (rule emits_eq, (rule emits_intros emits_parts emits_map emits_entry)+) (simp add: comp_def)

lemma export_xml_writes_document:
  "export_xml W C rfc3339 now lg =
     and_then (try_fold (\<lambda>w ev. write_event W ev w) (xw_new W)
                (Decl ''1.0'' ''UTF-8'' # flatten (document C rfc3339 now lg)))
       (\<lambda>w. map_err (\<lambda>e. Internal (''XML UTF-8: '' @ e)) (xw_finish W w))"
  using emits_Cons [OF emits_event emits_header_trailer, of W "Decl ''1.0'' ''UTF-8''" C rfc3339 lg now]
  by (simp add: export_xml_def emits_def)

subsection \<open>Reading the JSON lines back\<close>

text \<open>
  A reader of the part of JSON the export uses: numbers, strings with their escapes, and
  objects whose members are strings. It looks at one character at a time, as any parser does.
\<close>

datatype json = JNum string | JStr string | JObj "(string \<times> string) list"

definition expect :: "string \<Rightarrow> string \<Rightarrow> string option" where
  "expect p s = (if starts_with p s then Some (drop (length p) s) else None)"

definition unescape :: "char \<Rightarrow> char option" where
  "unescape c =
     (if c = quote \<or> c = backslash then Some c
      else if c = CHR ''n'' then Some newline
      else if c = CHR ''r'' then Some (CHR 0x0D)
      else if c = CHR ''t'' then Some (CHR 0x09) else None)"

fun read_str :: "string \<Rightarrow> (string \<times> string) option" where
  "read_str [] = None"
| "read_str (c # s) =
     (if c = quote then Some ([], s)
      else if c \<noteq> backslash then map_option (apfst ((#) c)) (read_str s)
      else case s of
          [] \<Rightarrow> None
        | d # t \<Rightarrow>
            if d = CHR ''u'' then
              (case t of
                 a # b # x # y # t' \<Rightarrow>
                   map_option (apfst ((#) (char_of
                     (4096 * unnibble a + 256 * unnibble b + 16 * unnibble x + unnibble y)))) (read_str t')
               | _ \<Rightarrow> None)
            else (case unescape d of None \<Rightarrow> None | Some e \<Rightarrow> map_option (apfst ((#) e)) (read_str t)))"

definition read_member :: "(string \<Rightarrow> ('v \<times> string) option) \<Rightarrow> string \<Rightarrow> ((string \<times> 'v) \<times> string) option" where
  "read_member rv s =
     Option.bind (expect [quote] s) (\<lambda>s.
     Option.bind (read_str s) (\<lambda>(k, s).
     Option.bind (expect '':'' s) (\<lambda>s.
     map_option (\<lambda>(v, s). ((k, v), s)) (rv s))))"

function read_members :: "(string \<Rightarrow> ('v \<times> string) option) \<Rightarrow> string \<Rightarrow> ((string \<times> 'v) list \<times> string) option" where
  "read_members rv s =
     (case read_member rv s of
        None \<Rightarrow> None
      | Some (m, t) \<Rightarrow>
          if starts_with '','' t \<and> length t \<le> length s
          then map_option (apfst ((#) m)) (read_members rv (drop 1 t))
          else map_option (Pair [m]) (expect ''}'' t))"
  by pat_completeness auto
termination
proof (relation "measure (\<lambda>(rv, s). length s)")
  fix rv :: "string \<Rightarrow> ('v \<times> string) option" and s t :: string and x m
  assume "starts_with '','' t \<and> length t \<le> length s"
  then show "((rv, drop 1 t), rv, s) \<in> measure (\<lambda>(rv, s). length s)"
    by (auto simp: starts_with_iff)
qed simp

declare read_members.simps [simp del]

definition read_object :: "(string \<Rightarrow> ('v \<times> string) option) \<Rightarrow> string \<Rightarrow> ((string \<times> 'v) list \<times> string) option" where
  "read_object rv s =
     Option.bind (expect ''{'' s) (\<lambda>s. if starts_with ''}'' s then Some ([], drop 1 s) else read_members rv s)"

definition read_quoted :: "string \<Rightarrow> (string \<times> string) option" where
  "read_quoted s = Option.bind (expect [quote] s) read_str"

definition read_value :: "string \<Rightarrow> (json \<times> string) option" where
  "read_value s =
     (if starts_with [quote] s then map_option (apfst JStr) (read_quoted s)
      else if starts_with ''{'' s then map_option (apfst JObj) (read_object read_quoted s)
      else if takeWhile is_digit s = [] then None
      else Some (JNum (takeWhile is_digit s), dropWhile is_digit s))"

definition read_line :: "string \<Rightarrow> ((string \<times> json) list \<times> string) option" where
  "read_line s = Option.bind (read_object read_value s) (\<lambda>(ms, s). map_option (Pair ms) (expect [newline] s))"

definition read_jsonl :: "string \<Rightarrow> (string \<times> json) list list option" where
  "read_jsonl s = dec_all read_line s"

lemma expect_append [simp]: "expect p (p @ s) = Some s"
  by (simp add: expect_def starts_with_def)

lemma expect_Cons [simp]: "expect [c] (d # s) = (if c = d then Some s else None)"
  by (auto simp: expect_def starts_with_def)

lemma starts_with_single [simp]: "starts_with [c] (d # s) \<longleftrightarrow> c = d" "\<not> starts_with [c] []"
  by (auto simp: starts_with_def)

lemma read_str_escape_char:
  "read_str (escape_char c @ s) = map_option (apfst ((#) c)) (read_str s)"
proof (cases "(of_char c :: nat) < 32 \<and> c \<noteq> newline \<and> c \<noteq> CHR 0x0D \<and> c \<noteq> CHR 0x09")
  case True
  let ?n = "of_char c :: nat"
  have n: "?n div 16 < 16" "?n div 256 = 0" "?n div 4096 = 0" using True by auto
  have d: "16 * (?n div 16) + ?n mod 16 = ?n" by simp
  have q: "c \<noteq> quote" "c \<noteq> backslash" using True by auto
  have "escape_char c @ s = backslash # CHR ''u'' # nibble 0 # nibble 0 # nibble (?n div 16) # nibble (?n mod 16) # s"
    using True q n by (simp add: escape_char_def hex4_def)
  then show ?thesis
    using n d by (simp add: unnibble_nibble)
next
  case False
  then show ?thesis by (auto simp: escape_char_def unescape_def)
qed

lemma read_str_escape: "read_str (json_escape s @ quote # r) = Some (s, r)"
proof (induction s)
  case Nil
  then show ?case by (simp add: json_escape_def)
next
  case (Cons c s)
  have "json_escape (c # s) @ quote # r = escape_char c @ json_escape s @ quote # r"
    by (simp add: json_escape_def)
  then show ?case using Cons by (simp add: read_str_escape_char)
qed

lemma read_quoted_escape: "read_quoted (quote # json_escape s @ quote # r) = Some (s, r)"
  by (simp add: read_quoted_def read_str_escape)

text \<open>An escaped string is printable: it has no line break of its own.\<close>

lemma escape_char_no_newline: "newline \<notin> set (escape_char c)"
proof -
  have n: "newline \<noteq> nibble k" if "k < 16" for k
  proof
    assume e: "newline = nibble k"
    have "(of_char (nibble k) :: nat) \<ge> 48" using that by (simp add: nibble_def)
    then show False unfolding e [symmetric] by simp
  qed
  have "newline \<notin> set (hex4 k)" for k
    using n [of "k div 4096 mod 16"] n [of "k div 256 mod 16"] n [of "k div 16 mod 16"] n [of "k mod 16"]
    by (simp add: hex4_def)
  then show ?thesis by (auto simp: escape_char_def)
qed

definition plain :: "string \<Rightarrow> bool" where
  "plain s \<longleftrightarrow> (\<forall>c \<in> set s. 32 \<le> (of_char c :: nat) \<and> c \<noteq> quote \<and> c \<noteq> backslash)"

interpretation json_esc: char_escape escape_char "\<lambda>c. \<not> plain [c]" "\<lambda>c. c = newline"
proof unfold_locales
  show "escape_char c = [c]" if "\<not> \<not> plain [c]" for c using that by (auto simp: escape_char_def plain_def)
  show "d \<noteq> newline" if "d \<in> set (escape_char c)" for c d using that escape_char_no_newline by blast
qed

lemma json_escape_no_newline: "newline \<notin> set (json_escape s)"
  unfolding json_escape_def using json_esc.escaped_clean by blast

lemma json_escape_plain: "plain s \<Longrightarrow> json_escape s = s"
  unfolding json_escape_def by (rule json_esc.escaped_id) (simp add: plain_def list_all_iff)

subsubsection \<open>Objects\<close>

text \<open>What an object of the export looks like: its members with commas between them.\<close>

fun render_members :: "('v \<Rightarrow> string) \<Rightarrow> (string \<times> 'v) list \<Rightarrow> string" where
  "render_members ren [] = []"
| "render_members ren ((k, v) # ms) =
     quote # json_escape k @ quote # CHR '':'' # ren v @
     (if ms = [] then [] else CHR '','' # render_members ren ms)"

text \<open>A value is followed by a comma or by the end of its object.\<close>

definition reads_back :: "(string \<Rightarrow> ('v \<times> string) option) \<Rightarrow> ('v \<Rightarrow> string) \<Rightarrow> 'v \<Rightarrow> bool" where
  "reads_back rv ren v \<longleftrightarrow>
     (\<forall>r. rv (ren v @ CHR '','' # r) = Some (v, CHR '','' # r) \<and> rv (ren v @ CHR ''}'' # r) = Some (v, CHR ''}'' # r))"

lemma read_members_render:
  assumes "ms \<noteq> []" and "\<forall>m \<in> set ms. reads_back rv ren (snd m)"
  shows "read_members rv (render_members ren ms @ CHR ''}'' # r) = Some (ms, r)"
  using assms
proof (induction ms)
  case (Cons m ms)
  obtain k v where m: "m = (k, v)" by (cases m)
  let ?tail = "(if ms = [] then [] else CHR '','' # render_members ren ms) @ CHR ''}'' # r"
  have "rv (ren v @ ?tail) = Some (v, ?tail)"
    using Cons.prems(2) m by (auto simp: reads_back_def)
  then have one: "read_member rv (render_members ren (m # ms) @ CHR ''}'' # r) = Some (m, ?tail)"
    by (simp add: read_member_def m read_str_escape)
  show ?case
  proof (cases "ms = []")
    case True
    then show ?thesis by (subst read_members.simps) (use one in simp)
  next
    case False
    then have rest: "read_members rv (render_members ren ms @ CHR ''}'' # r) = Some (ms, r)"
      using Cons by simp
    show ?thesis unfolding read_members.simps [of rv "render_members ren (m # ms) @ CHR ''}'' # r"] one
      using False m rest by simp
  qed
qed simp

lemma read_object_render:
  assumes "\<forall>m \<in> set ms. reads_back rv ren (snd m)"
  shows "read_object rv (CHR ''{'' # render_members ren ms @ CHR ''}'' # r) = Some (ms, r)"
proof (cases ms)
  case (Cons m ms')
  then have "\<not> starts_with ''}'' (render_members ren ms @ CHR ''}'' # r)" by (cases m) simp
  then show ?thesis
    using read_members_render [of ms rv ren r] assms Cons by (simp add: read_object_def)
qed (simp add: read_object_def)

subsubsection \<open>Lines\<close>

fun render_value :: "json \<Rightarrow> string" where
  "render_value (JNum d) = d"
| "render_value (JStr s) = quote # json_escape s @ [quote]"
| "render_value (JObj m) = CHR ''{'' # render_members (\<lambda>s. quote # json_escape s @ [quote]) m @ ''}''"

definition value_ok :: "json \<Rightarrow> bool" where
  "value_ok v \<longleftrightarrow> (case v of JNum d \<Rightarrow> d \<noteq> [] \<and> list_all is_digit d | _ \<Rightarrow> True)"

lemma quoted_reads_back: "reads_back read_quoted (\<lambda>s. quote # json_escape s @ [quote]) s"
  by (simp add: reads_back_def read_quoted_escape)

lemma takeWhile_digits:
  "list_all is_digit d \<Longrightarrow> \<not> is_digit c \<Longrightarrow> takeWhile is_digit (d @ c # r) = d \<and> dropWhile is_digit (d @ c # r) = c # r"
  by (induction d) auto

lemma value_reads_back: "value_ok v \<Longrightarrow> reads_back read_value render_value v"
proof (cases v)
  case (JNum d)
  assume "value_ok v"
  then obtain c d' where d: "list_all is_digit d" "d = c # d'" "is_digit c"
    using JNum by (cases d) (auto simp: value_ok_def)
  have nd: "c \<noteq> quote" "c \<noteq> CHR ''{''" "\<not> is_digit (CHR '','')" "\<not> is_digit (CHR ''}'')"
    using d(3) by (auto simp: is_digit_def)
  show ?thesis
    using takeWhile_digits [OF d(1) nd(3)] takeWhile_digits [OF d(1) nd(4)] nd d(2) JNum
    by (simp add: reads_back_def read_value_def)
next
  case (JStr s)
  then show ?thesis by (simp add: reads_back_def read_value_def read_quoted_escape)
next
  case (JObj m)
  have "read_object read_quoted (CHR ''{'' # render_members (\<lambda>s. quote # json_escape s @ [quote]) m @ CHR ''}'' # r)
        = Some (m, r)" for r
    by (rule read_object_render) (simp add: quoted_reads_back)
  then show ?thesis using JObj by (simp add: reads_back_def read_value_def)
qed

text \<open>The members a line carries.\<close>

definition entry_members :: "'a crates_scheme \<Rightarrow> (bool \<Rightarrow> timestamp \<Rightarrow> string) \<Rightarrow> log_entry \<Rightarrow> (string \<times> json) list" where
  "entry_members C rfc3339 e =
     [(''index'', JNum (dec_nat (unat (le_index e)))),
      (''appended_at'', JStr (rfc3339 True (appended_at e))),
      (''actor'', JStr (actor (event e))), (''action'', JStr (action (event e))),
      (''resource'', JStr (resource (event e))), (''outcome'', JStr (outcome (event e))),
      (''metadata'', JObj (metadata (event e))),
      (''prev_root'', JStr (hex_encode C (prev_root e))), (''new_root'', JStr (hex_encode C (new_root e))),
      (''signature'', JStr (hex_encode C (le_signature e)))]"

text \<open>\<open>hex::encode\<close> writes lower-case hexadecimal digits.\<close>

definition hex_digits :: "'a crates_scheme \<Rightarrow> bool" where
  "hex_digits C \<longleftrightarrow> (\<forall>b. set (hex_encode C b) \<subseteq> set ''0123456789abcdef'')"

lemma hex_plain: "hex_digits C \<Longrightarrow> plain (hex_encode C b)"
proof -
  assume "hex_digits C"
  then have "set (hex_encode C b) \<subseteq> set ''0123456789abcdef''" by (simp add: hex_digits_def)
  moreover have "plain ''0123456789abcdef''" by (simp add: plain_def)
  ultimately show ?thesis unfolding plain_def by blast
qed

lemma json_metadata_render:
  "json_metadata True m = render_members (\<lambda>s. quote # json_escape s @ [quote]) m"
proof -
  have "json_metadata False m =
        (if m = [] then [] else CHR '','' # render_members (\<lambda>s. quote # json_escape s @ [quote]) m)" for m
    by (induction m) auto
  then show ?thesis by (cases m) auto
qed

lemma export_json_line_render:
  assumes "hex_digits C"
  shows "export_json_line C rfc3339 e =
    CHR ''{'' # render_members render_value (entry_members C rfc3339 e) @ CHR ''}'' # [newline]"
proof -
  have k: "json_escape k = k" if "k \<in> {''index'', ''appended_at'', ''actor'', ''action'', ''resource'', ''outcome'',
      ''metadata'', ''prev_root'', ''new_root'', ''signature''}" for k
    using that by (intro json_escape_plain) (auto simp: plain_def)
  show ?thesis
    by (simp add: export_json_line_def entry_members_def json_field_def k json_metadata_render
        json_escape_plain [OF hex_plain [OF assms]])
qed

text \<open>Lines are a self-delimiting code for lists of members.\<close>

definition members_ok :: "(string \<times> json) list \<Rightarrow> bool" where
  "members_ok ms \<longleftrightarrow> (\<forall>m \<in> set ms. value_ok (snd m))"

definition render_line :: "(string \<times> json) list \<Rightarrow> string" where
  "render_line ms = CHR ''{'' # render_members render_value ms @ CHR ''}'' # [newline]"

interpretation json_line: stream_codec members_ok render_line read_line
proof unfold_locales
  fix ms r
  assume "members_ok ms"
  then have "read_object read_value (CHR ''{'' # render_members render_value ms @ CHR ''}'' # newline # r)
      = Some (ms, newline # r)"
    by (intro read_object_render) (simp add: members_ok_def value_reads_back)
  then show "read_line (render_line ms @ r) = Some (ms, r)"
    by (simp add: read_line_def render_line_def)
qed

lemma entry_members_ok: "members_ok (entry_members C rfc3339 e)"
proof -
  have "value_ok (JNum (dec_nat n))" for n
    by (simp add: value_ok_def dec_nat_nonempty list_all_iff dec_nat_digits)
  then show ?thesis by (simp add: members_ok_def entry_members_def value_ok_def [of "JStr _"] value_ok_def [of "JObj _"])
qed

lemma read_jsonl_export:
  assumes "hex_digits C"
  shows "read_jsonl (concat (map (export_json_line C rfc3339) es)) = Some (map (entry_members C rfc3339) es)"
proof -
  have "concat (map (export_json_line C rfc3339) es) = concat (map render_line (map (entry_members C rfc3339) es))"
    using export_json_line_render [OF assms, of rfc3339] by (induction es) (simp_all add: render_line_def)
  then show ?thesis
    using json_line.dec_all_concat [of "map (entry_members C rfc3339) es"] entry_members_ok [of C rfc3339]
    by (simp add: read_jsonl_def list_all_iff) (simp add: render_line_def)
qed

lemma toy_hex_digits: "crates.truncate C = toy_crates \<Longrightarrow> hex_digits C"
proof -
  assume t: "crates.truncate C = toy_crates"
  have n: "nibble n \<in> set ''0123456789abcdef''" if "n < 16" for n
  proof -
    have "list_all (\<lambda>n. nibble n \<in> set ''0123456789abcdef'') [0..<16]" by code_simp
    then show ?thesis using that unfolding list_all_iff by simp
  qed
  have u: "unat (x :: u8) div 16 < 16" for x using unat_u8_bound [of x] by simp
  have "set (toy_hex b) \<subseteq> set ''0123456789abcdef''" for b
    using n [OF u] n [of "unat (_ :: u8) mod 16"] unfolding toy_hex_def by auto
  then show "hex_digits C" by (simp add: hex_digits_def toy_fields [OF t])
qed

text \<open>One line an entry, for consumers that split the stream at line breaks.\<close>

lemma line_breaks:
  assumes "hex_digits C"
  shows "count_list (concat (map (export_json_line C rfc3339) es)) newline = length es"
proof -
  have d: "newline \<notin> set (dec_nat n)" for n
    using dec_nat_digits [of newline n] by (auto simp: is_digit_def)
  have m: "newline \<notin> set (render_members (\<lambda>s. quote # json_escape s @ [quote]) ms)" for ms
    by (induction ms) (auto simp: json_escape_no_newline split: if_splits)
  have "newline \<notin> set (render_members render_value (entry_members C rfc3339 e))" for e
    by (simp add: entry_members_def json_escape_no_newline d m)
  then have "count_list (export_json_line C rfc3339 e) newline = 1" for e
    by (simp add: export_json_line_render [OF assms] count_list_0_iff)
  then show ?thesis by (induction es) simp_all
qed

subsection \<open>Properties\<close>




end
