(* ===== verification/Metrics.thy ===== *)
theory Metrics
  imports Export
begin

text \<open>
  Counters and their Prometheus exposition (\<open>qgateway-core/src/metrics.rs\<close>). Every counter is an
  atomic \<open>u64\<close>, so an increment wraps; a registry pairs the counters of a tenant with its name. A
  duration is a number of nanoseconds. \<open>Display\<close> of an \<open>f64\<close> prints the shortest decimal that
  reads back: for a number of microseconds below \<open>10 ^ 15\<close>, divided by a million, that is the exact
  decimal; above, it is the parameter \<open>f64_display\<close>.
\<close>

type_synonym duration = nat

definition HANDSHAKE_BUCKETS_US :: "u64 list" where
  "HANDSHAKE_BUCKETS_US =
     [500, 1000, 2000, 5000, 10000, 20000, 50000, 100000, 250000, 500000, 1000000]"

record daemon_metrics =
  sighup_cycles_total :: u64
  sighup_failed_total :: u64
  tenants_added_total :: u64
  tenants_add_failed_total :: u64
  tenants_removed_total :: u64
  tenants_remove_failed_total :: u64
  limits_hot_applied_total :: u64
  config_changed_hot_total :: u64
  config_changed_cold_total :: u64

record metrics =
  sessions_opened :: u64
  sessions_closed :: u64
  sessions_failed :: u64
  sessions_active :: u64
  bytes_c2s :: u64
  bytes_s2c :: u64
  audit_events :: u64
  audit_failures :: u64
  audit_rotations :: u64
  admission_rejected_quota :: u64
  admission_rejected_rate :: u64
  hsm_sessions_opened :: u64
  hsm_sessions_failed :: u64
  hsm_sign_ops :: u64
  hsm_sign_failures :: u64
  handshake_count :: u64
  handshake_sum_us :: u64
  handshake_buckets :: "u64 list"

record metrics_registry =
  inner :: metrics
  reg_tenant :: string

definition DaemonMetrics_default :: daemon_metrics where
  "DaemonMetrics_default = \<lparr> sighup_cycles_total = 0, sighup_failed_total = 0, tenants_added_total = 0, tenants_add_failed_total = 0, tenants_removed_total = 0, tenants_remove_failed_total = 0, limits_hot_applied_total = 0, config_changed_hot_total = 0, config_changed_cold_total = 0 \<rparr>"

definition Metrics_default :: metrics where
  "Metrics_default = \<lparr> sessions_opened = 0, sessions_closed = 0, sessions_failed = 0, sessions_active = 0, bytes_c2s = 0, bytes_s2c = 0, audit_events = 0, audit_failures = 0, audit_rotations = 0, admission_rejected_quota = 0, admission_rejected_rate = 0, hsm_sessions_opened = 0, hsm_sessions_failed = 0, hsm_sign_ops = 0, hsm_sign_failures = 0, handshake_count = 0, handshake_sum_us = 0,
     handshake_buckets = replicate (length HANDSHAKE_BUCKETS_US + 1) 0 \<rparr>"

definition MetricsRegistry_new :: "string \<Rightarrow> metrics_registry" where
  "MetricsRegistry_new name = \<lparr> inner = Metrics_default, reg_tenant = name \<rparr>"

definition as_micros :: "duration \<Rightarrow> nat" where
  "as_micros d = d div 1000"

text \<open>The index of the bucket the loop stops at.\<close>

fun bucket_index :: "u64 list \<Rightarrow> u64 \<Rightarrow> nat \<Rightarrow> nat" where
  "bucket_index [] us i = i"
| "bucket_index (bound # bs) us i = (if us \<le> bound then i else bucket_index bs us (Suc i))"

definition micros_u64 :: "duration \<Rightarrow> u64" where
  "micros_u64 d = of_nat (min (as_micros d) (2 ^ 64 - 1))"

definition observe_handshake :: "duration \<Rightarrow> metrics \<Rightarrow> metrics" where
  "observe_handshake d m =
     (let us = micros_u64 d; i = bucket_index HANDSHAKE_BUCKETS_US us 0 in
      m\<lparr> handshake_count := handshake_count m + 1,
         handshake_sum_us := handshake_sum_us m + us,
         handshake_buckets := (handshake_buckets m)[i := handshake_buckets m ! i + 1] \<rparr>)"

subsection \<open>Rendering\<close>

definition escape_label :: "string \<Rightarrow> string" where
  "escape_label s =
     replace_char newline (backslash # ''n'')
       (replace_char quote [backslash, quote] (replace_char backslash [backslash, backslash] s))"

definition nl :: string where "nl = [newline]"

definition sample :: "string \<Rightarrow> string \<Rightarrow> string \<Rightarrow> string" where
  "sample name tenant v = name @ ''{tenant='' @ [quote] @ tenant @ [quote] @ ''} '' @ v @ nl"

definition emit_counter :: "metrics_registry list \<Rightarrow> string \<Rightarrow> string \<Rightarrow> (metrics \<Rightarrow> u64) \<Rightarrow> string" where
  "emit_counter regs name help f =
     ''# HELP '' @ name @ '' '' @ help @ nl @ ''# TYPE '' @ name @ '' counter'' @ nl @
     concat (map (\<lambda>r. sample name (escape_label (reg_tenant r)) (dec_nat (unat (f (inner r))))) regs)"

definition emit_gauge :: "metrics_registry list \<Rightarrow> string \<Rightarrow> string \<Rightarrow> (metrics \<Rightarrow> u64) \<Rightarrow> string" where
  "emit_gauge regs name help f =
     ''# HELP '' @ name @ '' '' @ help @ nl @ ''# TYPE '' @ name @ '' gauge'' @ nl @
     concat (map (\<lambda>r. sample name (escape_label (reg_tenant r)) (dec_nat (unat (f (inner r))))) regs)"

definition emit_daemon_counter :: "string \<Rightarrow> string \<Rightarrow> u64 \<Rightarrow> string" where
  "emit_daemon_counter name help v =
     ''# HELP '' @ name @ '' '' @ help @ nl @ ''# TYPE '' @ name @ '' counter'' @ nl @
     name @ '' '' @ dec_nat (unat v) @ nl"

text \<open>\<open>bound_us as f64 / 1_000_000.0\<close>, displayed.\<close>

definition six_digits :: "nat \<Rightarrow> string" where
  "six_digits n = drop 1 (dec_nat (1000000 + n))"

definition seconds :: "(u64 \<Rightarrow> string) \<Rightarrow> u64 \<Rightarrow> string" where
  "seconds f64_display us =
     (if unat us < 10 ^ 15
      then dec_nat (unat us div 1000000) @
        (let f = rev (dropWhile (\<lambda>c. c = CHR ''0'') (rev (six_digits (unat us mod 1000000))))
         in if f = [] then [] else CHR ''.'' # f)
      else f64_display us)"

text \<open>The running sums of the buckets, with the one of \<open>+Inf\<close> last.\<close>

fun cumulate :: "u64 \<Rightarrow> u64 list \<Rightarrow> u64 list" where
  "cumulate c [] = []"
| "cumulate c (b # bs) = (let c' = sat_add_u64 c b in c' # cumulate c' bs)"

definition render_histogram :: "(u64 \<Rightarrow> string) \<Rightarrow> metrics_registry \<Rightarrow> string" where
  "render_histogram f64_display r =
     (let tenant = escape_label (reg_tenant r); m = inner r;
          cs = cumulate 0 (handshake_buckets m);
          les = map (seconds f64_display) HANDSHAKE_BUCKETS_US @ [''+Inf''] in
      concat (map (\<lambda>(le, c).
        ''qgateway_handshake_seconds_bucket{tenant='' @ [quote] @ tenant @ [quote] @ '',le='' @ [quote] @ le @ [quote] @
        ''} '' @ dec_nat (unat c) @ nl) (zip les cs)) @
      sample ''qgateway_handshake_seconds_sum'' tenant (seconds f64_display (handshake_sum_us m)) @
      sample ''qgateway_handshake_seconds_count'' tenant (dec_nat (unat (handshake_count m))))"

definition render_prometheus :: "(u64 \<Rightarrow> string) \<Rightarrow> metrics_registry list \<Rightarrow> string" where
  "render_prometheus f64_display regs =
     emit_counter regs ''qgateway_sessions_opened_total'' ''Total CSPQ sessions successfully opened.'' sessions_opened @
     emit_counter regs ''qgateway_sessions_closed_total'' ''Total CSPQ sessions cleanly closed.'' sessions_closed @
     emit_counter regs ''qgateway_sessions_failed_total'' ''Total handshakes that failed.'' sessions_failed @
     emit_gauge regs ''qgateway_sessions_active'' ''Currently open CSPQ sessions.'' sessions_active @
     emit_counter regs ''qgateway_bytes_c2s_total'' (''Plaintext bytes forwarded client '' @ [CHR 0xE2, CHR 0x86, CHR 0x92] @ '' server.'') bytes_c2s @
     emit_counter regs ''qgateway_bytes_s2c_total'' (''Plaintext bytes forwarded server '' @ [CHR 0xE2, CHR 0x86, CHR 0x92] @ '' client.'') bytes_s2c @
     emit_counter regs ''qgateway_audit_events_total'' ''Audit events emitted to qaudit.'' audit_events @
     emit_counter regs ''qgateway_audit_failures_total'' ''Audit events that failed to be appended.'' audit_failures @
     emit_counter regs ''qgateway_audit_rotations_total'' ''Audit log rotations completed successfully.'' audit_rotations @
     emit_counter regs ''qgateway_admission_rejected_quota_total'' ''Inbound connections rejected by admission control due to per-tenant concurrency quota.'' admission_rejected_quota @
     emit_counter regs ''qgateway_admission_rejected_rate_total'' ''Inbound connections rejected by admission control due to per-source-IP rate limit.'' admission_rejected_rate @
     emit_counter regs ''qgateway_hsm_sessions_opened_total'' ''PKCS#11 sessions opened successfully (startup + per-rotation).'' hsm_sessions_opened @
     emit_counter regs ''qgateway_hsm_sessions_failed_total'' ''PKCS#11 session-open failures (load, slot, login, or key lookup errors).'' hsm_sessions_failed @
     emit_counter regs ''qgateway_hsm_sign_ops_total'' ''PKCS#11 C_Sign calls completed successfully (audit signatures).'' hsm_sign_ops @
     emit_counter regs ''qgateway_hsm_sign_failures_total'' ''PKCS#11 C_Sign failures (token disconnected, mechanism unsupported, etc.).'' hsm_sign_failures @
     ''# HELP qgateway_handshake_seconds Handshake duration (seconds).'' @ nl @
     ''# TYPE qgateway_handshake_seconds histogram'' @ nl @
     concat (map (render_histogram f64_display) regs)"

definition render_daemon_metrics :: "daemon_metrics \<Rightarrow> string" where
  "render_daemon_metrics d =
     emit_daemon_counter ''qgateway_sighup_cycles_total'' ''Total SIGHUP cycles that passed config validation.'' (sighup_cycles_total d) @
     emit_daemon_counter ''qgateway_sighup_failed_total'' ''Total SIGHUP cycles where Config::load failed validation.'' (sighup_failed_total d) @
     emit_daemon_counter ''qgateway_tenants_added_total'' ''Total tenants successfully added at runtime via SIGHUP.'' (tenants_added_total d) @
     emit_daemon_counter ''qgateway_tenants_add_failed_total'' ''Total tenant ADD failures during SIGHUP apply.'' (tenants_add_failed_total d) @
     emit_daemon_counter ''qgateway_tenants_removed_total'' ''Total tenants successfully removed at runtime via SIGHUP.'' (tenants_removed_total d) @
     emit_daemon_counter ''qgateway_tenants_remove_failed_total'' ''Total tenant REMOVE failures during SIGHUP apply (drain timeout, etc.).'' (tenants_remove_failed_total d) @
     emit_daemon_counter ''qgateway_limits_hot_applied_total'' ''Total successful hot-applies of [tenants.limits] via SIGHUP.'' (limits_hot_applied_total d) @
     emit_daemon_counter ''qgateway_config_changed_hot_total'' ''Total tenant-config diff entries classified as Hot (limits-only today).'' (config_changed_hot_total d) @
     emit_daemon_counter ''qgateway_config_changed_cold_total'' ''Total tenant-config diff entries classified as Cold (require restart).'' (config_changed_cold_total d)"

subsection \<open>The histogram\<close>

text \<open>How many of the observed durations a predicate on microseconds selects.\<close>

definition tally :: "(u64 \<Rightarrow> bool) \<Rightarrow> duration list \<Rightarrow> nat" where
  "tally P ds = length (filter (\<lambda>d. P (micros_u64 d)) ds)"

definition observe_all :: "duration list \<Rightarrow> metrics" where
  "observe_all ds = foldl (\<lambda>m d. observe_handshake d m) Metrics_default ds"

lemma tally_le: "tally P ds \<le> length ds"
  by (simp add: tally_def)

lemma tally_split: "tally (\<lambda>u. f u \<le> (Suc i :: nat)) ds = tally (\<lambda>u. f u \<le> i) ds + tally (\<lambda>u. f u = Suc i) ds"
  by (induction ds) (auto simp: tally_def le_Suc_eq)

lemma tally_sum: "tally (\<lambda>u. f u \<le> (i :: nat)) ds = (\<Sum>j\<le>i. tally (\<lambda>u. f u = j) ds)"
proof (induction i)
  case (Suc i)
  then show ?case by (simp add: tally_split)
qed simp

lemma bucket_index_bounds: "i \<le> bucket_index bs us i \<and> bucket_index bs us i \<le> i + length bs"
proof (induction bs arbitrary: i)
  case (Cons b bs)
  have "Suc i \<le> bucket_index bs us (Suc i) \<and> bucket_index bs us (Suc i) \<le> Suc i + length bs"
    by (rule Cons.IH)
  then show ?case by simp
qed simp

lemma bucket_index_le:
  "sorted bs \<Longrightarrow> j < length bs \<Longrightarrow> bucket_index bs us i \<le> i + j \<longleftrightarrow> us \<le> bs ! j"
proof (induction bs arbitrary: i j)
  case (Cons b bs)
  show ?case
  proof (cases j)
    case 0
    then show ?thesis using bucket_index_bounds [of "Suc i" bs us] by auto
  next
    case (Suc k)
    have "us \<le> b \<Longrightarrow> us \<le> bs ! k"
      using Cons.prems Suc by (auto intro: order_trans)
    then show ?thesis using Cons.IH [of k "Suc i"] Cons.prems Suc by auto
  qed
qed simp

lemma observe_all_buckets:
  "length (handshake_buckets (observe_all ds)) = 12 \<and>
   (\<forall>i<12. handshake_buckets (observe_all ds) ! i = of_nat (tally (\<lambda>u. bucket_index HANDSHAKE_BUCKETS_US u 0 = i) ds))"
proof (induction ds rule: rev_induct)
  case Nil
  then show ?case by (simp add: observe_all_def Metrics_default_def HANDSHAKE_BUCKETS_US_def tally_def nth_replicate del: replicate.simps)
next
  case (snoc d ds)
  have e: "observe_all (ds @ [d]) = observe_handshake d (observe_all ds)" by (simp add: observe_all_def)
  show ?case using snoc unfolding e
    by (auto simp: observe_handshake_def Let_def nth_list_update tally_def)
qed

lemma observe_all_count: "handshake_count (observe_all ds) = of_nat (length ds)"
  by (induction ds rule: rev_induct) (simp_all add: observe_all_def Metrics_default_def observe_handshake_def Let_def)

lemma length_cumulate [simp]: "length (cumulate c bs) = length bs"
  by (induction bs arbitrary: c) (auto simp: Let_def)

lemma unat_cumulate_nth:
  "unat c + sum_list (map unat bs) < 2 ^ 64 \<Longrightarrow> i < length bs \<Longrightarrow>
   unat (cumulate c bs ! i) = unat c + (\<Sum>j\<le>i. unat (bs ! j))"
proof (induction bs arbitrary: c i)
  case (Cons b bs)
  have c: "unat (sat_add_u64 c b) = unat c + unat b"
    using Cons.prems(1) by (simp add: unat_sat_add_u64)
  show ?case
  proof (cases i)
    case 0
    then show ?thesis using c by (simp add: Let_def)
  next
    case (Suc k)
    then show ?thesis
      using Cons.IH [of "sat_add_u64 c b" k] Cons.prems c
      by (simp add: Let_def sum.atMost_Suc_shift del: sum.atMost_Suc)
  qed
qed simp

lemma sum_upto_12: "(\<Sum>j\<le>11. f j) = (\<Sum>j<12. f j)" for f :: "nat \<Rightarrow> nat"
  by (rule sum.cong) auto

lemma cumulate_observed:
  assumes n: "length ds < 2 ^ 64" and i: "i < 12"
  shows "cumulate 0 (handshake_buckets (observe_all ds)) ! i =
         of_nat (tally (\<lambda>u. bucket_index HANDSHAKE_BUCKETS_US u 0 \<le> i) ds)"
proof -
  let ?idx = "\<lambda>u. bucket_index HANDSHAKE_BUCKETS_US u 0" and ?b = "handshake_buckets (observe_all ds)"
  have b: "unat (?b ! j) = tally (\<lambda>u. ?idx u = j) ds" if "j < 12" for j
    using observe_all_buckets [of ds] that n tally_le [of "\<lambda>u. ?idx u = j" ds]
    by (simp add: unat_of_nat)
  have s: "(\<Sum>j\<le>k. unat (?b ! j)) = tally (\<lambda>u. ?idx u \<le> k) ds" if "k < 12" for k
    using b that by (simp add: tally_sum)
  have "sum_list (map unat ?b) = (\<Sum>j\<le>11. unat (?b ! j))"
    using observe_all_buckets [of ds] by (simp add: sum_list_sum_nth atLeast0LessThan sum_upto_12)
  also have "\<dots> \<le> length ds" by (simp add: s tally_le)
  finally have "unat (cumulate 0 ?b ! i) = tally (\<lambda>u. ?idx u \<le> i) ds"
    using unat_cumulate_nth [of 0 ?b i] i observe_all_buckets [of ds] n s [OF i] by simp
  then show ?thesis by (metis of_nat_unat ucast_id)
qed

text \<open>
  Whatever handshake durations were observed (fewer than \<open>2 ^ 64\<close>), the cumulative bucket
  lines of the exposition show, for every bound, how many durations were at most that bound,
  and the line for infinity shows the handshake count.
\<close>

lemma histogram_counts_durations:
  assumes "length ds < 2 ^ 64"
  shows "cumulate 0 (handshake_buckets (observe_all ds)) =
    map (\<lambda>b. of_nat (tally (\<lambda>u. u \<le> b) ds)) HANDSHAKE_BUCKETS_US @ [handshake_count (observe_all ds)]"
    (is "?l = ?r")
proof (rule nth_equalityI)
  show len: "length ?l = length ?r"
    using observe_all_buckets [of ds] by (simp add: HANDSHAKE_BUCKETS_US_def)
  fix i assume "i < length ?l"
  then have i: "i < 12" using observe_all_buckets [of ds] by simp
  have B: "length HANDSHAKE_BUCKETS_US = 11" "sorted HANDSHAKE_BUCKETS_US"
    by (simp_all add: HANDSHAKE_BUCKETS_US_def)
  show "?l ! i = ?r ! i"
  proof (cases "i < 11")
    case True
    then have "(bucket_index HANDSHAKE_BUCKETS_US u 0 \<le> i) = (u \<le> HANDSHAKE_BUCKETS_US ! i)" for u
      using bucket_index_le [OF B(2), of i u 0] B(1) by simp
    then show ?thesis using True B(1) cumulate_observed [OF assms i] by (simp add: nth_append)
  next
    case False
    then have e: "i = 11" using i by simp
    have "bucket_index HANDSHAKE_BUCKETS_US u 0 \<le> 11" for u
      using bucket_index_bounds [of 0 HANDSHAKE_BUCKETS_US u] B(1) by simp
    then have "tally (\<lambda>u. bucket_index HANDSHAKE_BUCKETS_US u 0 \<le> 11) ds = length ds"
      by (simp add: tally_def)
    then show ?thesis using e B(1) cumulate_observed [OF assms i] by (simp add: nth_append observe_all_count)
  qed
qed

subsection \<open>Labels\<close>

text \<open>The three replacements together are one pass over the characters.\<close>

definition escape_label_char :: "char \<Rightarrow> string" where
  "escape_label_char c =
     (if c = backslash then [backslash, backslash] else if c = quote then [backslash, quote]
      else if c = newline then backslash # ''n'' else [c])"

lemma escape_label_one_pass: "escape_label s = concat (map escape_label_char s)"
proof (induction s)
  case (Cons c s)
  have "escape_label (c # s) = escape_label_char c @ escape_label s"
    by (simp add: escape_label_def replace_char_def escape_label_char_def)
  then show ?case using Cons by simp
qed (simp add: escape_label_def replace_char_def)

interpretation label_esc: char_escape escape_label_char "\<lambda>c. c \<in> {backslash, quote, newline}" "\<lambda>c. c = newline"
  by unfold_locales (auto simp: escape_label_char_def split: if_splits)

lemma escape_label_one_line: "newline \<notin> set (escape_label s)"
  unfolding escape_label_one_pass using label_esc.escaped_clean by blast

lemma read_escape_label: "read_str (escape_label s @ quote # r) = Some (s, r)"
proof (induction s)
  case (Cons c s)
  then show ?case unfolding escape_label_one_pass
    by (simp add: escape_label_char_def unescape_def)
qed (simp add: escape_label_one_pass)

text \<open>A scraper's view of a sample: the metric, the label it carries and the value.\<close>

definition read_sample :: "string \<Rightarrow> ((string \<times> string \<times> string) \<times> string) option" where
  "read_sample s =
     Option.bind (expect (''{tenant='' @ [quote]) (dropWhile (\<lambda>c. c \<noteq> CHR ''{'') s)) (\<lambda>t.
     Option.bind (read_str t) (\<lambda>(tenant, t).
     Option.bind (expect ''} '' t) (\<lambda>t.
     map_option (Pair (takeWhile (\<lambda>c. c \<noteq> CHR ''{'') s, tenant, takeWhile is_digit t))
       (expect nl (dropWhile is_digit t)))))"

definition sample_ok :: "string \<times> string \<times> string \<Rightarrow> bool" where
  "sample_ok x \<longleftrightarrow> CHR ''{'' \<notin> set (fst x) \<and> list_all is_digit (snd (snd x))"

definition sample_of :: "string \<times> string \<times> string \<Rightarrow> string" where
  "sample_of x = sample (fst x) (escape_label (fst (snd x))) (snd (snd x))"

interpretation sample_line: stream_codec sample_ok sample_of read_sample
proof unfold_locales
  fix x r
  assume "sample_ok x"
  moreover obtain name tenant v where x: "x = (name, tenant, v)" by (cases x)
  ultimately have n: "CHR ''{'' \<notin> set name" and v: "list_all is_digit v" by (simp_all add: sample_ok_def)
  let ?rest = "''{tenant='' @ [quote] @ escape_label tenant @ quote # ''} '' @ v @ nl @ r"
  have s: "sample_of x @ r = name @ ?rest" by (simp add: sample_of_def sample_def x)
  have tw: "takeWhile (\<lambda>c. c \<noteq> CHR ''{'') (name @ ?rest) = name"
    "dropWhile (\<lambda>c. c \<noteq> CHR ''{'') (name @ ?rest) = ?rest"
    using n by (subst takeWhile_append2 dropWhile_append2; fastforce)+
  have d: "takeWhile is_digit (v @ nl @ r) = v \<and> dropWhile is_digit (v @ nl @ r) = nl @ r"
    using takeWhile_digits [OF v, of newline r] by (simp add: nl_def is_digit_def)
  have e: "expect (''{tenant='' @ [quote]) ?rest = Some (escape_label tenant @ quote # ''} '' @ v @ nl @ r)"
    using expect_append [of "''{tenant='' @ [quote]" "escape_label tenant @ quote # ''} '' @ v @ nl @ r"] by simp
  show "read_sample (sample_of x @ r) = Some (x, r)"
    unfolding read_sample_def s tw e using d expect_append [of "''} ''"]
    by (simp add: read_escape_label x)
qed

lemma samples_read_back:
  assumes "CHR ''{'' \<notin> set name"
  shows "dec_all read_sample
      (concat (map (\<lambda>r. sample name (escape_label (reg_tenant r)) (dec_nat (unat (f (inner r))))) regs))
    = Some (map (\<lambda>r. (name, reg_tenant r, dec_nat (unat (f (inner r))))) regs)"
proof -
  let ?xs = "map (\<lambda>r. (name, reg_tenant r, dec_nat (unat (f (inner r))))) regs"
  have "list_all (\<lambda>x. sample_ok x \<and> sample_of x \<noteq> []) ?xs"
    using assms by (simp add: list_all_iff sample_ok_def dec_nat_digits) (simp add: sample_of_def sample_def)
  then show ?thesis using sample_line.dec_all_concat [of ?xs] by (simp add: comp_def sample_of_def)
qed

text \<open>
  Whatever characters the tenant names hold, a scraper that reads the samples of a counter
  gets, tenant by tenant, the name of that tenant and the value of its own counter: no name can
  forge another tenant's label.
\<close>

lemma counter_samples_read_back:
  assumes "CHR ''{'' \<notin> set name"
  shows "\<exists>body. emit_counter regs name help f =
      ''# HELP '' @ name @ '' '' @ help @ nl @ ''# TYPE '' @ name @ '' counter'' @ nl @ body \<and>
    dec_all read_sample body = Some (map (\<lambda>r. (name, reg_tenant r, dec_nat (unat (f (inner r))))) regs)"
  unfolding emit_counter_def using samples_read_back [OF assms, of f regs] by simp

end
