(* ===== verification/Proxy.thy ===== *)
theory Proxy
  imports Metrics Record_Layer Audit_Channel
begin

text \<open>
  The bidirectional pump between a local stream and a CSPQ session
  (\<open>qgateway-core/src/proxy.rs\<close>). The local side is a script of the results of its reads; a script
  that ends stands for a read that never completes. A socket that fails after some bytes is the
  number of bytes it still takes (\<open>None\<close>: it never fails). The reading half of the session is the
  list of the bytes that arrive before the peer closes.

  The counters \<open>audit_events\<close>, \<open>audit_failures\<close> and \<open>audit_rotations\<close> of the registry are those
  of the audit channel, where they are fields of \<open>channel\<close>.
\<close>

datatype direction = AppToPeer | PeerToBackend

fun direction_debug :: "direction \<Rightarrow> string" where
  "direction_debug AppToPeer = ''AppToPeer''"
| "direction_debug PeerToBackend = ''PeerToBackend''"

datatype byte_bucket = C2s | S2c

fun terror_text :: "terror \<Rightarrow> string" where
  "terror_text (TIo e) = ''io: '' @ e"
| "terror_text (Protocol e) = ''protocol: '' @ e"
| "terror_text (Crypto e) = ''crypto: '' @ e"
| "terror_text (UntrustedPeer p) = ''untrusted peer identity '' @ p"
| "terror_text NonceOverflow = ''nonce counter overflow''"
| "terror_text (UnsupportedSuite s) = ''unsupported suite 0x'' @ hex4 (unat s)"
| "terror_text (FrameTooLarge got mx) = ''frame too large: '' @ dec_nat got @ '' bytes, max '' @ dec_nat mx"
| "terror_text (Identity e) = ''identity file: '' @ e"
| "terror_text (MlDsa e) = ''ml-dsa: '' @ e"
| "terror_text (TPanic e) = e"

fun bump :: "byte_bucket \<Rightarrow> u64 \<Rightarrow> metrics \<Rightarrow> metrics" where
  "bump C2s n m = m\<lparr> bytes_c2s := bytes_c2s m + n \<rparr>"
| "bump S2c n m = m\<lparr> bytes_s2c := bytes_s2c m + n \<rparr>"

subsection \<open>The pumps\<close>

datatype local_read = LData bytes | LFail string

text \<open>What a pump task comes to: it waits for ever, or returns, or panics.\<close>

datatype task = Stays | Returns "string + u64" | Panics string

text \<open>A write of the session on a socket that takes \<open>room\<close> more bytes.\<close>

definition sock_send :: "(cspq_writer \<Rightarrow> unit tresult \<times> cspq_writer) \<Rightarrow> nat option \<Rightarrow> cspq_writer \<Rightarrow> unit tresult \<times> nat option \<times> cspq_writer" where
  "sock_send f sock w =
     (case f w of
        (Inl e, w') \<Rightarrow> (Inl e, sock, w')
      | (Inr _, w') \<Rightarrow>
          (case sock of
             None \<Rightarrow> (Inr (), None, w')
           | Some k \<Rightarrow>
               let sent = drop (length (w_inner w)) (w_inner w') in
               if length sent \<le> k then (Inr (), Some (k - length sent), w')
               else (Inl (TIo ''broken pipe''), Some 0, w'\<lparr> w_inner := w_inner w @ take k sent \<rparr>)))"

definition script_size :: "local_read list \<Rightarrow> nat" where
  "script_size sc = sum_list (map (\<lambda>r. case r of LData bs \<Rightarrow> Suc (length bs) | LFail e \<Rightarrow> Suc 0) sc)"

function pump_local_to_cspq :: "'a aead_crates_scheme \<Rightarrow> byte_bucket \<Rightarrow> local_read list \<Rightarrow> nat option \<Rightarrow> cspq_writer \<Rightarrow> metrics \<Rightarrow> u64 \<Rightarrow> task \<times> cspq_writer \<times> metrics" where
  "pump_local_to_cspq C b [] sock w m tot = (Stays, w, m)"
| "pump_local_to_cspq C b (LFail e # sc) sock w m tot = (Returns (Inl e), w, m)"
| "pump_local_to_cspq C b (LData bs # sc) sock w m tot =
     (let n = min (length bs) MAX_PLAINTEXT in
      if n = 0 then
        (case sock_send (w_send_eof C) sock w of
           (Inl e, _, w') \<Rightarrow> (Returns (Inl (terror_text e)), w', m)
         | (Inr _, _, w') \<Rightarrow> (Returns (Inr tot), w', m))
      else
        (case sock_send (\<lambda>w. w_send_record C w (take n bs)) sock w of
           (Inl e, _, w') \<Rightarrow> (Returns (Inl (terror_text e)), w', m)
         | (Inr _, sock', w') \<Rightarrow>
             pump_local_to_cspq C b (if n < length bs then LData (drop n bs) # sc else sc) sock' w'
               (bump b (of_nat n) m) (sat_add_u64 tot (of_nat n))))"
  by pat_completeness auto

termination
  by (relation "measure (\<lambda>(C, b, sc, sock, w, m, tot). script_size sc)")
     (auto simp: script_size_def MAX_PLAINTEXT_def)

declare pump_local_to_cspq.simps(3) [simp del]

record local_out =
  lo_written :: bytes
  lo_room :: "nat option"
  lo_shut :: bool

definition local_write :: "local_out \<Rightarrow> bytes \<Rightarrow> (string + unit) \<times> local_out" where
  "local_write lo p =
     (case lo_room lo of
        None \<Rightarrow> (Inr (), lo\<lparr> lo_written := lo_written lo @ p \<rparr>)
      | Some k \<Rightarrow>
          if length p \<le> k then (Inr (), lo\<lparr> lo_written := lo_written lo @ p, lo_room := Some (k - length p) \<rparr>)
          else (Inl ''broken pipe'', lo\<lparr> lo_written := lo_written lo @ take k p, lo_room := Some 0 \<rparr>))"

lemma r_recv_record_shorter:
  "r_recv_record C r = (Inr p, r') \<Longrightarrow> length (r_inner r') < length (r_inner r)"
  by (auto simp: r_recv_record_def dest!: read_frame_split split: sum.splits prod.splits)

function pump_cspq_to_local :: "'a aead_crates_scheme \<Rightarrow> byte_bucket \<Rightarrow> cspq_reader \<Rightarrow> local_out \<Rightarrow> metrics \<Rightarrow> u64 \<Rightarrow> (string + u64) \<times> cspq_reader \<times> local_out \<times> metrics" where
  "pump_cspq_to_local C b r lo m tot =
     (case r_recv_record C r of
        (Inl e, r') \<Rightarrow> (Inl (terror_text e), r', lo, m)
      | (Inr pt, r') \<Rightarrow>
          if pt = [] then (Inr tot, r', lo\<lparr> lo_shut := True \<rparr>, m)
          else (case local_write lo pt of
                  (Inl e, lo') \<Rightarrow> (Inl e, r', lo', m)
                | (Inr _, lo') \<Rightarrow>
                    pump_cspq_to_local C b r' lo' (bump b (of_nat (length pt)) m)
                      (sat_add_u64 tot (of_nat (length pt)))))"
  by pat_completeness auto
termination
  by (relation "measure (\<lambda>(C, b, r, lo, m, tot). length (r_inner r))")
     (simp_all, metis r_recv_record_shorter)

declare pump_cspq_to_local.simps [simp del]

subsection \<open>The session\<close>

definition arrow :: string where
  "arrow = [CHR 0xE2, CHR 0x86, CHR 0x92]"

record select_state =
  up_done :: bool
  down_done :: bool
  bytes_up :: u64
  bytes_down :: u64
  shutdown_reason :: "string option"
  up_abort :: bool
  down_abort :: bool

definition select_init :: select_state where
  "select_init = \<lparr> up_done = False, down_done = False, bytes_up = 0, bytes_down = 0,
     shutdown_reason = None, up_abort = False, down_abort = False \<rparr>"

text \<open>The result of joining a task: \<open>JCancelled\<close> is that of a task that was aborted.\<close>

datatype join = JOk u64 | JErr string | JPanic string | JCancelled

definition get_or_insert :: "string \<Rightarrow> select_state \<Rightarrow> select_state" where
  "get_or_insert e s =
     (case shutdown_reason s of None \<Rightarrow> s\<lparr> shutdown_reason := Some e \<rparr> | Some _ \<Rightarrow> s)"

definition on_up :: "join \<Rightarrow> select_state \<Rightarrow> select_state" where
  "on_up r s =
     (let s1 = (case r of
          JOk n \<Rightarrow> s\<lparr> bytes_up := n \<rparr>
        | JErr e \<Rightarrow> get_or_insert (''local'' @ arrow @ ''cspq: '' @ e) s
        | JPanic e \<Rightarrow> get_or_insert (''local'' @ arrow @ ''cspq panic: '' @ e) s
        | JCancelled \<Rightarrow> get_or_insert (''local'' @ arrow @ ''cspq cancelled'') s);
          s2 = s1\<lparr> up_done := True \<rparr>
      in if shutdown_reason s2 \<noteq> None \<and> \<not> down_done s2 then s2\<lparr> down_abort := True \<rparr> else s2)"

definition on_down :: "join \<Rightarrow> select_state \<Rightarrow> select_state" where
  "on_down r s =
     (let s1 = (case r of
          JOk n \<Rightarrow> s\<lparr> bytes_down := n \<rparr>
        | JErr e \<Rightarrow> get_or_insert (''cspq'' @ arrow @ ''local: '' @ e) s
        | JPanic e \<Rightarrow> get_or_insert (''cspq'' @ arrow @ ''local panic: '' @ e) s
        | JCancelled \<Rightarrow> get_or_insert (''cspq'' @ arrow @ ''local cancelled'') s);
          s2 = s1\<lparr> down_done := True \<rparr>
      in if shutdown_reason s2 \<noteq> None \<and> \<not> up_done s2 then s2\<lparr> up_abort := True \<rparr> else s2)"

text \<open>How a task that comes to \<open>t\<close> can be joined, given whether it was aborted before.\<close>

fun joins :: "task \<Rightarrow> bool \<Rightarrow> join \<Rightarrow> bool" where
  "joins (Returns (Inr n)) aborted (JOk k) \<longleftrightarrow> k = n"
| "joins (Returns (Inl e)) aborted (JErr e') \<longleftrightarrow> e' = e"
| "joins (Panics e) aborted (JPanic e') \<longleftrightarrow> e' = e"
| "joins t aborted JCancelled \<longleftrightarrow> aborted"
| "joins t aborted j \<longleftrightarrow> False"

text \<open>One turn of the select loop, for the outcomes of the two tasks.\<close>

inductive select_step :: "task \<Rightarrow> task \<Rightarrow> select_state \<Rightarrow> select_state \<Rightarrow> bool" for pu pd where
  up: "\<not> up_done s \<Longrightarrow> joins pu (up_abort s) j \<Longrightarrow> select_step pu pd s (on_up j s)"
| down: "\<not> down_done s \<Longrightarrow> joins pd (down_abort s) j \<Longrightarrow> select_step pu pd s (on_down j s)"

inductive_cases select_stepE: "select_step pu pd s s'"

definition buckets_of :: "direction \<Rightarrow> byte_bucket \<times> byte_bucket" where
  "buckets_of d = (case d of AppToPeer \<Rightarrow> (C2s, S2c) | PeerToBackend \<Rightarrow> (S2c, C2s))"

definition session_event :: "'a crates_scheme \<Rightarrow> string \<Rightarrow> public_key \<Rightarrow> string \<Rightarrow> direction \<Rightarrow> event_builder" where
  "session_event C act peer tenant d =
     set_meta ''direction'' (direction_debug d) (set_meta ''tenant'' tenant
       (set_resource (''cspq://'' @ hex_encode C (take 16 peer)) (set_action act (set_actor ''svc:qgateway'' builder))))"

definition open_session_event :: "'a crates_scheme \<Rightarrow> timestamp \<Rightarrow> public_key \<Rightarrow> string \<Rightarrow> direction \<Rightarrow> string \<Rightarrow> duration \<Rightarrow> audit_event" where
  "open_session_event C now peer tenant d addr elapsed =
     build now (set_meta ''handshake_us'' (dec_nat (as_micros elapsed)) (set_meta ''tcp_peer'' addr
       (session_event C ''session.open'' peer tenant d)))"

definition close_session_event :: "'a crates_scheme \<Rightarrow> timestamp \<Rightarrow> public_key \<Rightarrow> string \<Rightarrow> direction \<Rightarrow> duration \<Rightarrow> select_state \<Rightarrow> audit_event" where
  "close_session_event C now peer tenant d elapsed s =
     build now (set_meta ''shutdown_reason'' (unwrap_or ''clean'' (shutdown_reason s))
       (set_meta ''duration_ms'' (dec_nat (elapsed div 1000000))
       (set_meta ''bytes_down'' (dec_nat (unat (bytes_down s)))
       (set_meta ''bytes_up'' (dec_nat (unat (bytes_up s)))
       (session_event C ''session.close'' peer tenant d)))))"

text \<open>\<open>run_session\<close> up to its loop, and after it.\<close>

definition session_begin :: "'a crates_scheme \<Rightarrow> timestamp \<Rightarrow> public_key \<Rightarrow> string \<Rightarrow> direction \<Rightarrow> string \<Rightarrow> duration \<Rightarrow> metrics \<times> channel \<Rightarrow> metrics \<times> channel" where
  "session_begin C now peer tenant d addr elapsed =
     (\<lambda>(m, ch).
       (observe_handshake elapsed (m\<lparr> sessions_opened := sessions_opened m + 1, sessions_active := sessions_active m + 1 \<rparr>),
        emit ch (open_session_event C now peer tenant d addr elapsed)))"

definition session_end :: "'a crates_scheme \<Rightarrow> timestamp \<Rightarrow> public_key \<Rightarrow> string \<Rightarrow> direction \<Rightarrow> duration \<Rightarrow> select_state \<Rightarrow> metrics \<times> channel \<Rightarrow> (u64 \<times> u64) \<times> metrics \<times> channel" where
  "session_end C now peer tenant d elapsed s =
     (\<lambda>(m, ch).
       ((bytes_up s, bytes_down s),
        m\<lparr> sessions_active := sessions_active m - 1, sessions_closed := sessions_closed m + 1 \<rparr>,
        emit ch (close_session_event C now peer tenant d elapsed s)))"

subsection \<open>Byte totals\<close>

definition sat_total :: "u64 \<Rightarrow> nat \<Rightarrow> u64" where
  "sat_total a n = of_nat (min (unat a + n) (2 ^ 64 - 1))"

lemma sat_total_0 [simp]: "sat_total a 0 = a"
proof -
  have "unat a < 2 ^ 64" using unsigned_less [of a] by simp
  then have "min (unat a + 0) (2 ^ 64 - 1) = unat a" by simp
  then show ?thesis by (simp add: sat_total_def)
qed

lemma unat_sat_total: "unat (sat_total a n) = min (unat a + n) (2 ^ 64 - 1)"
  by (simp add: sat_total_def unat_of_nat min_def)

lemma sat_total_add: "k < 2 ^ 64 \<Longrightarrow> sat_total (sat_add_u64 a (of_nat k)) n = sat_total a (k + n)"
proof -
  assume "k < 2 ^ 64"
  then have "unat (of_nat k :: u64) = k" by (simp add: unat_of_nat)
  moreover have "min (min (a' + k) M + n) M = min (a' + (k + n)) M" for a' M :: nat by simp
  ultimately show ?thesis by (simp only: sat_total_def unat_sat_add_u64)
qed

lemma bump_add: "bump b x (bump b y m) = bump b (y + x) m"
  by (cases b) simp_all

lemma bump_0 [simp]: "bump b 0 m = m"
  by (cases b) simp_all

lemma piece_bound: "length p \<le> MAX_PLAINTEXT \<Longrightarrow> length p < 2 ^ 64"
  by (simp add: MAX_PLAINTEXT_def)

subsection \<open>From the local stream to the session\<close>

text \<open>What the local side delivers before its end of stream; \<open>None\<close>: it fails or stays open.\<close>

fun sc_data :: "local_read list \<Rightarrow> bytes option" where
  "sc_data [] = None"
| "sc_data (LFail e # sc) = None"
| "sc_data (LData bs # sc) = (if bs = [] then Some [] else map_option ((@) bs) (sc_data sc))"

lemma sc_data_cut:
  assumes "bs \<noteq> []"
  shows "sc_data (LData bs # sc) =
    map_option ((@) (take n bs)) (sc_data (if n < length bs then LData (drop n bs) # sc else sc))"
proof (cases "n < length bs")
  case True
  then show ?thesis using assms by (simp add: option.map_comp comp_def flip: append_assoc)
qed (use assms in simp)

lemma script_size_cut:
  "n \<noteq> 0 \<Longrightarrow> script_size (if n < length bs then LData (drop n bs) # sc else sc) < script_size (LData bs # sc)"
  by (cases "n < length bs") (simp_all add: script_size_def)

lemma sock_send_None: "sock_send f None w = (case f w of (r, w') \<Rightarrow> (r, None, w'))"
  by (auto simp: sock_send_def split: prod.splits sum.splits)

lemma w_send_eof_record: "w_send_eof C w = w_send_record C w []"
  by (simp add: w_send_eof_def w_send_record_def)

lemma pump_up_records:
  "pump_local_to_cspq C b sc None w m tot = (Returns (Inr t), w', m') \<Longrightarrow>
   \<exists>ps. [] \<notin> set ps \<and> list_all (\<lambda>p. length p \<le> MAX_PLAINTEXT) ps \<and> send_all C w (ps @ [[]]) = (Inr (), w') \<and>
     sc_data sc = Some (concat ps) \<and> t = sat_total tot (length (concat ps)) \<and>
     m' = bump b (of_nat (length (concat ps))) m"
proof (induction "script_size sc" arbitrary: sc w m tot rule: less_induct)
  case less
  note ret = less.prems
  obtain bs sc0 where sc: "sc = LData bs # sc0"
    using ret by (cases sc rule: sc_data.cases) auto
  define n where "n = min (length bs) MAX_PLAINTEXT"
  show ?case
  proof (cases "bs = []")
    case True
    have "w_send_record C w [] = (Inr (), w') \<and> t = tot \<and> m' = m"
      using ret True sc
      by (auto simp: pump_local_to_cspq.simps(3) sock_send_None w_send_eof_record split: prod.splits sum.splits)
    then show ?thesis using True sc by (intro exI [of _ "[]"]) simp
  next
    case False
    then have n: "n \<noteq> 0" "n \<le> MAX_PLAINTEXT" by (auto simp: n_def MAX_PLAINTEXT_def)
    let ?sc = "if n < length bs then LData (drop n bs) # sc0 else sc0" and ?p = "take n bs"
    obtain w1 where s: "w_send_record C w ?p = (Inr (), w1)"
      and rec: "pump_local_to_cspq C b ?sc None w1 (bump b (of_nat n) m) (sat_add_u64 tot (of_nat n)) = (Returns (Inr t), w', m')"
      using ret n(1) unfolding sc pump_local_to_cspq.simps(3) sock_send_None n_def [symmetric]
      by (auto simp: Let_def split: prod.splits sum.splits)
    obtain ps where ps: "[] \<notin> set ps" "list_all (\<lambda>p. length p \<le> MAX_PLAINTEXT) ps"
      "send_all C w1 (ps @ [[]]) = (Inr (), w')" "sc_data ?sc = Some (concat ps)"
      "t = sat_total (sat_add_u64 tot (of_nat n)) (length (concat ps))"
      "m' = bump b (of_nat (length (concat ps))) (bump b (of_nat n) m)"
      using less.hyps [OF _ rec] script_size_cut [OF n(1)] sc by blast
    have len: "length ?p = n" "?p \<noteq> []" using n(1) False by (auto simp: n_def)
    have "n < 2 ^ 64" using n(2) by (simp add: MAX_PLAINTEXT_def)
    then show ?thesis
      using ps s len n(2) sc_data_cut [OF False, of sc0 n] sc
      by (intro exI [of _ "?p # ps"]) (simp add: sat_total_add bump_add)
  qed
qed

lemma send_one:
  assumes ok: "aead_ok C" "aead_total C" and c: "unat (counter (w_send w)) + 1 < 2 ^ 64" and pf: "length (prefix (w_send w)) = 4"
    and p: "length p \<le> MAX_PLAINTEXT"
  obtains w1 where "w_send_record C w p = (Inr (), w1)" "unat (counter (w_send w1)) = Suc (unat (counter (w_send w)))"
    "length (prefix (w_send w1)) = 4"
proof -
  have nm: "counter (w_send w) \<noteq> u64_max" using c unat_u64_max by auto
  then obtain c d where s: "seal C (w_send w) p = (Inr c, d)"
    using seal_total [OF ok(2) _ pf p] by fastforce
  then have "\<exists>w1. w_send_record C w p = (Inr (), w1) \<and> unat (counter (w_send w1)) = Suc (unat (counter (w_send w))) \<and>
      length (prefix (w_send w1)) = 4"
    unfolding w_send_record_Inr [OF ok(1)] using p counter_step [OF nm] pf by (auto simp: seal_Inr)
  then show ?thesis using that by blast
qed

lemma pump_up_returns:
  assumes ok: "aead_ok C" "aead_total C"
  shows "sc_data sc = Some d \<Longrightarrow> unat (counter (w_send w)) + length d + 1 < 2 ^ 64 \<Longrightarrow> length (prefix (w_send w)) = 4 \<Longrightarrow>
    \<exists>t w' m'. pump_local_to_cspq C b sc None w m tot = (Returns (Inr t), w', m')"
proof (induction "script_size sc" arbitrary: sc d w m tot rule: less_induct)
  case less
  obtain bs sc0 where sc: "sc = LData bs # sc0"
    using less.prems(1) by (cases sc rule: sc_data.cases) auto
  define n where "n = min (length bs) MAX_PLAINTEXT"
  have c: "unat (counter (w_send w)) + 1 < 2 ^ 64" using less.prems(2) by simp
  show ?case
  proof (cases "bs = []")
    case True
    obtain w1 where "w_send_record C w [] = (Inr (), w1)" by (rule send_one [OF ok c less.prems(3), of "[]"]) simp_all
    then show ?thesis using sc True
      by (auto simp: pump_local_to_cspq.simps(3) sock_send_None w_send_eof_record)
  next
    case False
    then have n: "n \<noteq> 0" "n \<le> MAX_PLAINTEXT" by (auto simp: n_def MAX_PLAINTEXT_def)
    let ?sc = "if n < length bs then LData (drop n bs) # sc0 else sc0"
    obtain w1 where s: "w_send_record C w (take n bs) = (Inr (), w1)"
      "unat (counter (w_send w1)) = Suc (unat (counter (w_send w)))" "length (prefix (w_send w1)) = 4"
      using send_one [OF ok c less.prems(3), of "take n bs"] n(2) by (auto simp: min_le_iff_disj)
    obtain d1 where d1: "sc_data ?sc = Some d1" "d = take n bs @ d1"
      using less.prems(1) unfolding sc sc_data_cut [OF False, of sc0 n] map_option_eq_Some by blast
    have "length (take n bs) \<ge> 1" using n(1) False by (simp add: Suc_le_eq)
    then have "unat (counter (w_send w1)) + length d1 + 1 < 2 ^ 64"
      using less.prems(2) unfolding d1(2) s(2) length_append by linarith
    then obtain t w' m' where
      "pump_local_to_cspq C b ?sc None w1 (bump b (of_nat n) m) (sat_add_u64 tot (of_nat n)) = (Returns (Inr t), w', m')"
      using less.hyps [OF _ d1(1) _ s(3)] script_size_cut [OF n(1), of bs sc0] sc by blast
    then show ?thesis using n(1) s(1) unfolding sc pump_local_to_cspq.simps(3) sock_send_None n_def [symmetric]
      by (simp add: Let_def)
  qed
qed

subsection \<open>From the session to the local stream\<close>

text \<open>
  The bytes that a list of records puts on the wire: what one pump sends, the other reads.
\<close>

lemma send_all_Cons_Inr:
  assumes "aead_ok C"
  shows "send_all C w (p # ps) = (Inr (), w') \<longleftrightarrow>
    (\<exists>c d. length p \<le> MAX_PLAINTEXT \<and> seal C (w_send w) p = (Inr c, d) \<and>
       send_all C (w\<lparr> w_send := d, w_inner := w_inner w @ frame_of c \<rparr>) ps = (Inr (), w'))"
proof -
  obtain r w1 where r: "w_send_record C w p = (r, w1)" by (meson surj_pair)
  show ?thesis
  proof
    assume a: "send_all C w (p # ps) = (Inr (), w')"
    then have "r = Inr ()" "send_all C w1 ps = (Inr (), w')" using r by (auto split: sum.splits)
    then show "\<exists>c d. length p \<le> MAX_PLAINTEXT \<and> seal C (w_send w) p = (Inr c, d) \<and>
       send_all C (w\<lparr> w_send := d, w_inner := w_inner w @ frame_of c \<rparr>) ps = (Inr (), w')"
      using r w_send_record_Inr [OF assms, of w p w1] by blast
  next
    assume "\<exists>c d. length p \<le> MAX_PLAINTEXT \<and> seal C (w_send w) p = (Inr c, d) \<and>
       send_all C (w\<lparr> w_send := d, w_inner := w_inner w @ frame_of c \<rparr>) ps = (Inr (), w')"
    then obtain w2 where "w_send_record C w p = (Inr (), w2)" "send_all C w2 ps = (Inr (), w')"
      using w_send_record_Inr [OF assms, of w p] by blast
    then show "send_all C w (p # ps) = (Inr (), w')" by simp
  qed
qed

lemma pump_down_record:
  assumes "aead_ok C" "seal C (r_recv r) p = (Inr c, d)" "length p \<le> MAX_PLAINTEXT" "r_inner r = frame_of c @ rest"
    and "lo_room lo = None"
  shows "pump_cspq_to_local C b r lo m tot =
    (if p = [] then (Inr tot, r\<lparr> r_inner := rest, r_recv := d \<rparr>, lo\<lparr> lo_shut := True \<rparr>, m)
     else pump_cspq_to_local C b (r\<lparr> r_inner := rest, r_recv := d \<rparr>) (lo\<lparr> lo_written := lo_written lo @ p \<rparr>)
            (bump b (of_nat (length p)) m) (sat_add_u64 tot (of_nat (length p))))"
  using recv_sent [OF assms(1-3) _ assms(4)] assms(5)
  by (subst pump_cspq_to_local.simps) (simp add: local_write_def)

lemma pump_down_delivers:
  assumes ok: "aead_ok C"
  shows "send_all C w (ps @ [[]]) = (Inr (), w') \<Longrightarrow> [] \<notin> set ps \<Longrightarrow>
    \<exists>sent. w_inner w' = w_inner w @ sent \<and>
      (\<forall>r rest lo m tot. r_recv r = w_send w \<and> r_inner r = sent @ rest \<and> lo_room lo = None \<longrightarrow>
         pump_cspq_to_local C b r lo m tot =
           (Inr (sat_total tot (length (concat ps))), r\<lparr> r_inner := rest, r_recv := w_send w' \<rparr>,
            lo\<lparr> lo_written := lo_written lo @ concat ps, lo_shut := True \<rparr>, bump b (of_nat (length (concat ps))) m))"
proof (induction ps arbitrary: w)
  case Nil
  then obtain c d where s: "seal C (w_send w) [] = (Inr c, d)"
    and w': "w' = w\<lparr> w_send := d, w_inner := w_inner w @ frame_of c \<rparr>"
    using send_all_Cons_Inr [OF ok, of w "[]" "[]" w'] by auto
  then show ?case using pump_down_record [OF ok, of _ "[]" c d] by auto
next
  case (Cons p ps)
  then obtain c d where len: "length p \<le> MAX_PLAINTEXT" and s: "seal C (w_send w) p = (Inr c, d)"
    and rest: "send_all C (w\<lparr> w_send := d, w_inner := w_inner w @ frame_of c \<rparr>) (ps @ [[]]) = (Inr (), w')"
    unfolding append_Cons send_all_Cons_Inr [OF ok] by blast
  obtain sent where sent: "w_inner w' = (w_inner w @ frame_of c) @ sent"
    and IH: "\<And>r rest lo m tot. r_recv r = d \<and> r_inner r = sent @ rest \<and> lo_room lo = None \<Longrightarrow>
         pump_cspq_to_local C b r lo m tot =
           (Inr (sat_total tot (length (concat ps))), r\<lparr> r_inner := rest, r_recv := w_send w' \<rparr>,
            lo\<lparr> lo_written := lo_written lo @ concat ps, lo_shut := True \<rparr>, bump b (of_nat (length (concat ps))) m)"
    using Cons.IH [OF rest] Cons.prems(2) by auto
  have "p \<noteq> []" using Cons.prems(2) by auto
  then have "pump_cspq_to_local C b r lo m tot =
           (Inr (sat_total tot (length (concat (p # ps)))), r\<lparr> r_inner := rest, r_recv := w_send w' \<rparr>,
            lo\<lparr> lo_written := lo_written lo @ concat (p # ps), lo_shut := True \<rparr>,
            bump b (of_nat (length (concat (p # ps)))) m)"
    if "r_recv r = w_send w" "r_inner r = (frame_of c @ sent) @ rest" "lo_room lo = None" for r rest lo m tot
    using that pump_down_record [OF ok, of r p c d "sent @ rest" lo b m tot] s len
      IH [of "r\<lparr> r_inner := sent @ rest, r_recv := d \<rparr>" rest "lo\<lparr> lo_written := lo_written lo @ p \<rparr>"]
    by (simp add: sat_total_add [OF piece_bound [OF len]] bump_add)
  then show ?case using sent by (intro exI [of _ "frame_of c @ sent"]) simp
qed

text \<open>
  A stream that ends before the end marker is complete is an error, and what was delivered by
  then is a leading part of what was sent.
\<close>

lemma read_frame_cut:
  assumes k: "k < length (frame_of c)" and c: "length c \<le> min mx MAX_FRAME"
  shows "\<exists>e. read_frame (take k (frame_of c)) mx = Inl e"
proof (rule ccontr)
  assume "\<nexists>e. read_frame (take k (frame_of c)) mx = Inl e"
  then obtain b r where x: "read_frame (take k (frame_of c)) mx = Inr (b, r)"
    by (cases "read_frame (take k (frame_of c)) mx") auto
  have "frame_of c @ [] = frame_of b @ (r @ drop k (frame_of c))"
    using read_frame_split [OF x] append_take_drop_id [of k "frame_of c"] by (metis append.assoc append_Nil2)
  then have "[] = r @ drop k (frame_of c)"
    using frame_codec.enc_prefix_free [OF c read_frame_bound [OF x]] by blast
  then show False using k by simp
qed

lemma recv_cut:
  assumes "aead_ok C" "seal C d p = (Inr c, d')" "length p \<le> MAX_PLAINTEXT" "k < length (frame_of c)"
    and "r_inner r = take k (frame_of c)"
  shows "\<exists>e. r_recv_record C r = (Inl e, r)"
proof -
  have "length c \<le> min (MAX_PLAINTEXT + TAG_LEN + 64) MAX_FRAME"
    using seal_length [OF assms(1,2)] assms(3) by (simp add: record_consts)
  from read_frame_cut [OF assms(4) this] obtain e where
    "read_frame (r_inner r) (MAX_PLAINTEXT + TAG_LEN + 64) = Inl e" using assms(5) by auto
  then show ?thesis by (simp add: r_recv_record_def)
qed

lemma pump_down_stops: "r_recv_record C r = (Inl e, r') \<Longrightarrow> pump_cspq_to_local C b r lo m tot = (Inl (terror_text e), r', lo, m)"
  by (subst pump_cspq_to_local.simps) simp

lemma send_all_extends:
  assumes "aead_ok C" "send_all C w ps = (Inr (), w')"
  obtains sent where "w_inner w' = w_inner w @ sent"
  using send_all_recv_n [OF assms] by blast

text \<open>A record that is cut off ends the pump with what was written before.\<close>

lemma pump_down_cut:
  assumes "aead_ok C" "seal C (w_send w) p = (Inr c, d)" "length p \<le> MAX_PLAINTEXT" "k < length (frame_of c)"
    and "r_recv r = w_send w" "r_inner r = take k (frame_of c)"
  shows "\<exists>e r' m' j. pump_cspq_to_local C b r lo m tot = (Inl e, r', lo\<lparr> lo_written := lo_written lo @ take j xs \<rparr>, m')"
proof -
  obtain e where "r_recv_record C r = (Inl e, r)" using recv_cut [OF assms(1-4)] assms(5,6) by blast
  then have "pump_cspq_to_local C b r lo m tot = (Inl (terror_text e), r, lo\<lparr> lo_written := lo_written lo @ take 0 xs \<rparr>, m)"
    using pump_down_stops [of C r e r] by simp
  then show ?thesis by blast
qed

lemma pump_down_truncated:
  assumes ok: "aead_ok C"
  shows "send_all C w (ps @ [[]]) = (Inr (), w') \<Longrightarrow> [] \<notin> set ps \<Longrightarrow> w_inner w' = w_inner w @ sent \<Longrightarrow>
    k < length sent \<Longrightarrow> r_recv r = w_send w \<Longrightarrow> r_inner r = take k sent \<Longrightarrow> lo_room lo = None \<Longrightarrow>
    \<exists>e r' m' j. pump_cspq_to_local C b r lo m tot = (Inl e, r', lo\<lparr> lo_written := lo_written lo @ take j (concat ps) \<rparr>, m')"
proof (induction ps arbitrary: w sent k r lo m tot)
  case Nil
  then obtain c d where s: "seal C (w_send w) [] = (Inr c, d)" and sent: "sent = frame_of c"
    using send_all_Cons_Inr [OF ok, of w "[]" "[]" w'] by auto
  show ?case using Nil.prems(4-6) sent by (intro pump_down_cut [OF ok s]) simp_all
next
  case (Cons p ps)
  obtain c d where len: "length p \<le> MAX_PLAINTEXT" and s: "seal C (w_send w) p = (Inr c, d)"
    and rest: "send_all C (w\<lparr> w_send := d, w_inner := w_inner w @ frame_of c \<rparr>) (ps @ [[]]) = (Inr (), w')"
    using Cons.prems(1) unfolding append_Cons send_all_Cons_Inr [OF ok] by blast
  obtain sent1 where s1: "w_inner w' = (w_inner w @ frame_of c) @ sent1"
    using send_all_extends [OF ok rest] by auto
  then have sent: "sent = frame_of c @ sent1" using Cons.prems(3) by simp
  show ?case
  proof (cases "k < length (frame_of c)")
    case True
    then show ?thesis using Cons.prems(5,6) sent by (intro pump_down_cut [OF ok s len True]) simp_all
  next
    case False
    let ?k = "k - length (frame_of c)"
    have r: "r_inner r = frame_of c @ take ?k sent1" using False Cons.prems(6) sent by simp
    have "p \<noteq> []" using Cons.prems(2) by auto
    then have e: "pump_cspq_to_local C b r lo m tot = pump_cspq_to_local C b (r\<lparr> r_inner := take ?k sent1, r_recv := d \<rparr>)
        (lo\<lparr> lo_written := lo_written lo @ p \<rparr>) (bump b (of_nat (length p)) m) (sat_add_u64 tot (of_nat (length p)))"
      using pump_down_record [OF ok, of r p c d "take ?k sent1" lo b m tot] s len r Cons.prems(5,7) by simp
    have "?k < length sent1" using Cons.prems(4) False sent by simp
    then obtain x r' m' j where
      "pump_cspq_to_local C b (r\<lparr> r_inner := take ?k sent1, r_recv := d \<rparr>)
        (lo\<lparr> lo_written := lo_written lo @ p \<rparr>) (bump b (of_nat (length p)) m) (sat_add_u64 tot (of_nat (length p))) =
       (Inl x, r', lo\<lparr> lo_written := (lo_written lo @ p) @ take j (concat ps) \<rparr>, m')"
      using Cons.IH [OF rest, of sent1 ?k "r\<lparr> r_inner := take ?k sent1, r_recv := d \<rparr>" "lo\<lparr> lo_written := lo_written lo @ p \<rparr>"
          "bump b (of_nat (length p)) m" "sat_add_u64 tot (of_nat (length p))"] Cons.prems(2,7) s1 by auto
    moreover have "p @ take j (concat ps) = take (length p + j) (concat (p # ps))" by simp
    ultimately show ?thesis using e by (metis append.assoc)
  qed
qed

subsection \<open>The select loop\<close>

definition undone :: "select_state \<Rightarrow> nat" where
  "undone s = (if up_done s then 0 else 1) + (if down_done s then 0 else 1)"

lemma get_or_insert_fields [simp]:
  "up_done (get_or_insert e s) = up_done s" "down_done (get_or_insert e s) = down_done s"
  "up_abort (get_or_insert e s) = up_abort s" "down_abort (get_or_insert e s) = down_abort s"
  "bytes_up (get_or_insert e s) = bytes_up s" "bytes_down (get_or_insert e s) = bytes_down s"
  "\<exists>r. shutdown_reason (get_or_insert e s) = Some r"
  by (auto simp: get_or_insert_def split: option.splits)

lemma get_or_insert_reason [simp]: "shutdown_reason (get_or_insert e s) \<noteq> None"
  by (auto simp: get_or_insert_def split: option.splits)

lemma on_up_fields [simp]:
  "up_done (on_up j s)" "down_done (on_up j s) = down_done s" "up_abort (on_up j s) = up_abort s"
  "bytes_down (on_up j s) = bytes_down s" "bytes_up (on_up j s) = (case j of JOk n \<Rightarrow> n | _ \<Rightarrow> bytes_up s)"
  "shutdown_reason (on_up j s) = None \<longleftrightarrow> shutdown_reason s = None \<and> (\<exists>n. j = JOk n)"
  "down_abort (on_up j s) \<longleftrightarrow> down_abort s \<or> (shutdown_reason (on_up j s) \<noteq> None \<and> \<not> down_done s)"
  by (cases j; simp add: on_up_def Let_def)+

lemma on_down_fields [simp]:
  "down_done (on_down j s)" "up_done (on_down j s) = up_done s" "down_abort (on_down j s) = down_abort s"
  "bytes_up (on_down j s) = bytes_up s" "bytes_down (on_down j s) = (case j of JOk n \<Rightarrow> n | _ \<Rightarrow> bytes_down s)"
  "shutdown_reason (on_down j s) = None \<longleftrightarrow> shutdown_reason s = None \<and> (\<exists>n. j = JOk n)"
  "up_abort (on_down j s) \<longleftrightarrow> up_abort s \<or> (shutdown_reason (on_down j s) \<noteq> None \<and> \<not> up_done s)"
  by (cases j; simp add: on_down_def Let_def)+

lemma select_step_undone: "select_step pu pd s s' \<Longrightarrow> undone s = Suc (undone s')"
  by (erule select_stepE) (simp_all add: undone_def)

text \<open>
  What a reachable state knows: a done arm was joined with a result of its task, the reason is
  unset exactly while every done arm returned normally, and from the moment it is set the other
  task is aborted.
\<close>

definition failed :: "task \<Rightarrow> bool" where
  "failed t \<longleftrightarrow> (\<exists>e. t = Returns (Inl e)) \<or> (\<exists>e. t = Panics e)"

definition select_inv :: "task \<Rightarrow> task \<Rightarrow> select_state \<Rightarrow> bool" where
  "select_inv pu pd s \<longleftrightarrow>
     (if shutdown_reason s = None
      then (if up_done s then pu = Returns (Inr (bytes_up s)) else bytes_up s = 0) \<and>
           (if down_done s then pd = Returns (Inr (bytes_down s)) else bytes_down s = 0) \<and>
           \<not> up_abort s \<and> \<not> down_abort s
      else (up_done s \<or> down_done s) \<and> (up_done s \<or> up_abort s) \<and> (down_done s \<or> down_abort s) \<and>
           (failed pu \<or> failed pd))"

lemma select_inv_init: "select_inv pu pd select_init"
  by (simp add: select_inv_def select_init_def)

lemma joins_JOk: "joins t a (JOk n) \<longleftrightarrow> t = Returns (Inr n)"
  by (cases t rule: task.exhaust) (auto split: sum.splits elim: joins.elims)

lemma joins_JErr: "joins t a (JErr e) \<longleftrightarrow> t = Returns (Inl e)"
  by (cases t rule: task.exhaust) (auto elim: joins.elims)

lemma joins_JPanic: "joins t a (JPanic e) \<longleftrightarrow> t = Panics e"
  by (cases t rule: task.exhaust) (auto elim: joins.elims)

lemma joins_JCancelled: "joins t a JCancelled \<longleftrightarrow> a"
  by (auto elim: joins.elims)

lemmas joins_iff = joins_JOk joins_JErr joins_JPanic joins_JCancelled

lemma select_inv_step: "select_step pu pd s s' \<Longrightarrow> select_inv pu pd s \<Longrightarrow> select_inv pu pd s'"
proof (erule select_stepE)
  fix j assume "select_inv pu pd s" "\<not> up_done s" "joins pu (up_abort s) j" "s' = on_up j s"
  then show ?thesis by (cases j) (auto simp: select_inv_def failed_def joins_iff split: if_splits)
next
  fix j assume "select_inv pu pd s" "\<not> down_done s" "joins pd (down_abort s) j" "s' = on_down j s"
  then show ?thesis by (cases j) (auto simp: select_inv_def failed_def joins_iff split: if_splits)
qed

lemma select_run_inv: "(select_step pu pd)\<^sup>*\<^sup>* select_init s \<Longrightarrow> select_inv pu pd s"
  by (induction rule: rtranclp_induct) (auto intro: select_inv_init select_inv_step)

lemma joinable: "t \<noteq> Stays \<Longrightarrow> \<exists>j. joins t a j"
proof (cases t)
  case (Returns r)
  then show ?thesis by (cases r) (use joins_JErr joins_JOk in blast)+
next
  case (Panics e)
  then show ?thesis using joins_JPanic by blast
qed simp

lemma select_progress:
  assumes inv: "select_inv pu pd s" and f: "failed pu \<or> failed pd \<or> (pu \<noteq> Stays \<and> pd \<noteq> Stays)"
    and "\<not> (up_done s \<and> down_done s)"
  shows "\<exists>s'. select_step pu pd s s'"
proof -
  have "(\<not> up_done s \<and> (\<exists>j. joins pu (up_abort s) j)) \<or> (\<not> down_done s \<and> (\<exists>j. joins pd (down_abort s) j))"
  proof (cases "shutdown_reason s = None")
    case True
    then have "(\<not> up_done s \<and> pu \<noteq> Stays) \<or> (\<not> down_done s \<and> pd \<noteq> Stays)"
      using inv f assms(3) by (auto simp: select_inv_def failed_def)
    then show ?thesis using joinable by blast
  next
    case False
    then have "(\<not> up_done s \<and> up_abort s) \<or> (\<not> down_done s \<and> down_abort s)"
      using inv assms(3) by (auto simp: select_inv_def)
    then show ?thesis using joins_JCancelled by blast
  qed
  then show ?thesis using select_step.up select_step.down by blast
qed

lemma select_run_length: "(select_step pu pd ^^ n) s s' \<Longrightarrow> undone s = n + undone s'"
proof (induction n arbitrary: s')
  case (Suc n)
  then obtain s1 where "(select_step pu pd ^^ n) s s1" "select_step pu pd s1 s'" by auto
  then show ?case using Suc.IH select_step_undone by fastforce
qed auto

end
