(* ===== verification/Sessions.thy ===== *)
theory Sessions
  imports Proxy Handshake Sni Admission
begin

text \<open>
  The accept loops and session handlers of the gateway (\<open>qgateway-core/src/gateway.rs\<close>). A tenant
  at run time is a record of its counters, its audit channel, its admission controller and its
  live sessions; connections, session set-ups, ends of sessions and changes of limits arrive in
  any order as events. What a connection meets outside (dialling, the bytes of the peer, the TLS
  handshake, the clock) is the record \<open>session_env\<close>; set-up runs the CSPQ handshake of
  \<open>Handshake\<close> on the bytes received.
\<close>

definition build_admission :: "tenant_limits option \<Rightarrow> hot_admission" where
  "build_admission limits =
     (let (mc, rl) = (case limits of
          Some l \<Rightarrow> (max_concurrent l, map_option rate_limit_from (rate_limit_per_source l))
        | None \<Rightarrow> (None, None))
      in HotAdmission_new mc rl)"

fun record_admission_reject :: "reject_reason \<Rightarrow> metrics \<Rightarrow> metrics" where
  "record_admission_reject Quota m = m\<lparr> admission_rejected_quota := admission_rejected_quota m + 1 \<rparr>"
| "record_admission_reject Rate m = m\<lparr> admission_rejected_rate := admission_rejected_rate m + 1 \<rparr>"

subsection \<open>Setting a session up\<close>

record session_env =
  sv_dial_ok :: bool
  sv_tls_ok :: bool
  sv_entropy :: nat
  sv_bytes :: bytes
  sv_addr :: string
  sv_elapsed :: duration
  sv_now :: timestamp

text \<open>\<open>handle_serve_tcp_session\<close> up to \<open>run_session\<close>; \<open>tls\<close> says whether the tenant terminates TLS.\<close>

definition setup_serve_tcp :: "'a hs_crates_scheme \<Rightarrow> keypair \<Rightarrow> peer_policy \<Rightarrow> serve_tcp_tenant \<Rightarrow> bool \<Rightarrow> session_env \<Rightarrow> metrics \<Rightarrow> (string + cspq_stream) \<times> metrics" where
  "setup_serve_tcp C identity policy t tls v m =
     (if \<not> sv_dial_ok v then (Inl (''dialing peer '' @ st_peer_pq t), m)
      else case fst (connect C (sv_entropy v) identity policy (sv_bytes v)) of
        Inl e \<Rightarrow> (Inl (''CSPQ handshake to peer failed: '' @ terror_text e), m\<lparr> sessions_failed := sessions_failed m + 1 \<rparr>)
      | Inr cspq \<Rightarrow> if tls \<and> \<not> sv_tls_ok v then (Inl ''TLS handshake failed'', m) else (Inr cspq, m))"

text \<open>\<open>handle_serve_pq_session\<close> up to \<open>run_session\<close>: the handshake comes before the backend is dialled.\<close>

definition setup_serve_pq :: "'a hs_crates_scheme \<Rightarrow> keypair \<Rightarrow> peer_policy \<Rightarrow> serve_pq_tenant \<Rightarrow> session_env \<Rightarrow> metrics \<Rightarrow> (string + cspq_stream) \<times> metrics" where
  "setup_serve_pq C identity policy t v m =
     (case fst (accept C (sv_entropy v) identity policy (sv_bytes v)) of
        Inl e \<Rightarrow> (Inl (''CSPQ handshake from peer failed: '' @ terror_text e), m\<lparr> sessions_failed := sessions_failed m + 1 \<rparr>)
      | Inr cspq \<Rightarrow> if \<not> sv_dial_ok v then (Inl (''dialing backend '' @ sp_backend t), m) else (Inr cspq, m))"

text \<open>
  \<open>handle_sni_session\<close>: the TLS handshake comes first and tells the server name, the current
  table gives the tenant, and admission of that tenant is checked then. \<open>Inl\<close> is an error before
  a tenant is known.
\<close>

definition dispatch_sni :: "hot_sni \<Rightarrow> string + string option \<Rightarrow> string + sni_ctx" where
  "dispatch_sni dispatch_tab tls =
     and_then (map_err (\<lambda>e. ''TLS handshake failed: '' @ e) tls) (\<lambda>server_name.
     and_then (ok_or ''client did not send SNI; cannot dispatch'' server_name) (\<lambda>chosen_sni.
     ok_or (''no tenant claims SNI '' @ chosen_sni) (table_lookup (hot_sni_load dispatch_tab) chosen_sni)))"

definition setup_sni :: "'a hs_crates_scheme \<Rightarrow> keypair \<Rightarrow> peer_policy \<Rightarrow> sni_ctx \<Rightarrow> session_env \<Rightarrow> metrics \<Rightarrow> (string + cspq_stream) \<times> metrics" where
  "setup_sni C identity policy ctx v m =
     (if \<not> sv_dial_ok v then (Inl (''dialing peer '' @ st_peer_pq (ctx_tenant ctx)), m)
      else case fst (connect C (sv_entropy v) identity policy (sv_bytes v)) of
        Inl e \<Rightarrow> (Inl (''CSPQ handshake to peer failed: '' @ terror_text e), m\<lparr> sessions_failed := sessions_failed m + 1 \<rparr>)
      | Inr cspq \<Rightarrow> (Inr cspq, m))"

subsection \<open>Permits\<close>

text \<open>
  The controllers of a tenant, oldest first: a permit belongs to the controller that gave it,
  which is known by its place in the list, and goes back to that one when the session ends.
\<close>

definition controllers :: "hot_admission \<Rightarrow> admission list" where
  "controllers h = rev (hot_old h) @ [hot_current h]"

definition of_controllers :: "admission list \<Rightarrow> hot_admission" where
  "of_controllers cs = \<lparr> hot_current = last cs, hot_old = rev (butlast cs) \<rparr>"

definition drop_permit :: "nat option \<Rightarrow> hot_admission \<Rightarrow> hot_admission" where
  "drop_permit p h =
     (case p of
        None \<Rightarrow> h
      | Some g \<Rightarrow> of_controllers ((controllers h)[g := release (controllers h ! g)]))"

subsection \<open>A tenant at run time\<close>

record live =
  lv_permit :: "nat option"
  lv_open :: bool
  lv_peer :: public_key

record tenant_rt =
  rt_metrics :: metrics
  rt_channel :: channel
  rt_admission :: hot_admission
  rt_live :: "live list"
  rt_listening :: bool

definition tenant_start :: "hot_admission \<Rightarrow> channel \<Rightarrow> tenant_rt" where
  "tenant_start h ch = \<lparr> rt_metrics = Metrics_default, rt_channel = ch, rt_admission = h, rt_live = [], rt_listening = True \<rparr>"

text \<open>
  The accepting branch of the loop: the check comes before anything is spawned, a rejected
  connection is counted and dropped, an admitted one becomes a session that holds its permit.
\<close>

definition accept_connection :: "ip \<Rightarrow> instant \<Rightarrow> tenant_rt \<Rightarrow> tenant_rt" where
  "accept_connection who now s =
     (case hot_check (rt_admission s) who now of
        (Admit_Reject reason, h) \<Rightarrow>
          s\<lparr> rt_admission := h, rt_metrics := record_admission_reject reason (rt_metrics s) \<rparr>
      | (Admit_Ok permit, h) \<Rightarrow>
          s\<lparr> rt_admission := h,
             rt_live := rt_live s @ [\<lparr> lv_permit = (if permit then Some (length (hot_old h)) else None), lv_open = False, lv_peer = [] \<rparr>] \<rparr>)"

definition remove_nth :: "nat \<Rightarrow> 'a list \<Rightarrow> 'a list" where
  "remove_nth i xs = take i xs @ drop (Suc i) xs"

text \<open>The end of a session's task drops its permit.\<close>

definition end_session :: "nat \<Rightarrow> tenant_rt \<Rightarrow> tenant_rt" where
  "end_session i s =
     s\<lparr> rt_admission := drop_permit (lv_permit (rt_live s ! i)) (rt_admission s), rt_live := remove_nth i (rt_live s) \<rparr>"

datatype tenant_event =
    Connection ip instant
  | Accept_Failed
  | Setup nat session_env
  | Finish nat select_state timestamp duration
  | Set_Limits "tenant_limits option"
  | Audit_Turn env env bool
  | Stop_Listening

definition set_limits :: "tenant_limits option \<Rightarrow> hot_admission \<Rightarrow> hot_admission" where
  "set_limits limits h =
     (case limits of
        Some l \<Rightarrow> snd (hot_swap h (max_concurrent l) (map_option rate_limit_from (rate_limit_per_source l)))
      | None \<Rightarrow> snd (hot_swap h None None))"

fun tenant_step :: "'a log_crates_scheme \<Rightarrow> (session_env \<Rightarrow> metrics \<Rightarrow> (string + cspq_stream) \<times> metrics) \<Rightarrow> direction \<Rightarrow> string \<Rightarrow> tenant_rt \<Rightarrow> tenant_event \<Rightarrow> tenant_rt" where
  "tenant_step C handler d name s (Connection who now) =
     (if rt_listening s then accept_connection who now s else s)"
| "tenant_step C handler d name s Accept_Failed = s"
| "tenant_step C handler d name s (Setup i v) =
     (if i < length (rt_live s) \<and> \<not> lv_open (rt_live s ! i) then
        (case handler v (rt_metrics s) of
           (Inl e, m) \<Rightarrow> end_session i (s\<lparr> rt_metrics := m \<rparr>)
         | (Inr cspq, m) \<Rightarrow>
             (let (m', ch) = session_begin C (sv_now v) (peer_id cspq) name d (sv_addr v) (sv_elapsed v) (m, rt_channel s) in
              s\<lparr> rt_metrics := m', rt_channel := ch,
                 rt_live := (rt_live s)[i := (rt_live s ! i)\<lparr> lv_open := True, lv_peer := peer_id cspq \<rparr>] \<rparr>))
      else s)"
| "tenant_step C handler d name s (Finish i sel now elapsed) =
     (if i < length (rt_live s) \<and> lv_open (rt_live s ! i) \<and> up_done sel \<and> down_done sel then
        (let (_, m, ch) = session_end C now (lv_peer (rt_live s ! i)) name d elapsed sel (rt_metrics s, rt_channel s) in
         end_session i (s\<lparr> rt_metrics := m, rt_channel := ch \<rparr>))
      else s)"
| "tenant_step C handler d name s (Set_Limits l) = s\<lparr> rt_admission := set_limits l (rt_admission s) \<rparr>"
| "tenant_step C handler d name s (Audit_Turn E E' timer) = s\<lparr> rt_channel := task_turn C E E' timer (rt_channel s) \<rparr>"
| "tenant_step C handler d name s Stop_Listening = s\<lparr> rt_listening := False \<rparr>"

text \<open>
  The accept loops of a tenant with its own listener: binding may fail, a shared admission
  controller takes the place of one built from the limits, and the loop runs over the events.
  \<open>shared\<close> is \<open>admission_override\<close>; \<open>bound\<close> says whether the address could be bound.
\<close>

definition run_serve_tcp_tenant :: "'a log_crates_scheme \<Rightarrow> 'b hs_crates_scheme \<Rightarrow> keypair \<Rightarrow> peer_policy \<Rightarrow> serve_tcp_tenant \<Rightarrow> bool \<Rightarrow> bool \<Rightarrow> hot_admission option \<Rightarrow> channel \<Rightarrow> tenant_event list \<Rightarrow> string + tenant_rt" where
  "run_serve_tcp_tenant C H identity policy t tls bound shared ch evs =
     and_then (ensure bound (''binding '' @ st_listen t @ '' for tenant '' @ st_name t)) (\<lambda>_.
     let admission = unwrap_or (build_admission (st_limits t)) shared in
     Inr (foldl (tenant_step C (setup_serve_tcp H identity policy t tls) AppToPeer (st_name t)) (tenant_start admission ch) evs))"

definition run_serve_pq_tenant :: "'a log_crates_scheme \<Rightarrow> 'b hs_crates_scheme \<Rightarrow> keypair \<Rightarrow> peer_policy \<Rightarrow> serve_pq_tenant \<Rightarrow> bool \<Rightarrow> hot_admission option \<Rightarrow> channel \<Rightarrow> tenant_event list \<Rightarrow> string + tenant_rt" where
  "run_serve_pq_tenant C H identity policy t bound shared ch evs =
     and_then (ensure bound (''binding '' @ sp_listen t @ '' for tenant '' @ sp_name t)) (\<lambda>_.
     let admission = unwrap_or (build_admission (sp_limits t)) shared in
     Inr (foldl (tenant_step C (setup_serve_pq H identity policy t) PeerToBackend (sp_name t)) (tenant_start admission ch) evs))"

subsection \<open>What the sessions hold\<close>

definition held :: "nat \<Rightarrow> live list \<Rightarrow> nat" where
  "held g ls = length (filter (\<lambda>l. lv_permit l = Some g) ls)"

definition opened :: "live list \<Rightarrow> nat" where
  "opened ls = length (filter lv_open ls)"

lemma filter_remove_nth:
  "i < length xs \<Longrightarrow> length (filter P (remove_nth i xs)) = length (filter P xs) - (if P (xs ! i) then 1 else 0)"
proof -
  assume i: "i < length xs"
  then have "xs = take i xs @ xs ! i # drop (Suc i) xs" by (rule id_take_nth_drop)
  then have "length (filter P xs) = length (filter P (take i xs @ xs ! i # drop (Suc i) xs))" by simp
  then show ?thesis by (simp add: remove_nth_def)
qed

lemma filter_update:
  "i < length xs \<Longrightarrow> length (filter P (xs[i := y])) = length (filter P xs) - (if P (xs ! i) then 1 else 0) + (if P y then 1 else 0)"
proof -
  assume i: "i < length xs"
  then have "xs = take i xs @ xs ! i # drop (Suc i) xs" by (rule id_take_nth_drop)
  then have "length (filter P xs) = length (filter P (take i xs @ xs ! i # drop (Suc i) xs))" by simp
  then show ?thesis using i by (simp add: upd_conv_take_nth_drop)
qed

lemma filter_pos: "i < length xs \<Longrightarrow> P (xs ! i) \<Longrightarrow> 0 < length (filter P xs)"
  by (metis filter_empty_conv length_greater_0_conv nth_mem)

lemma set_remove_nth: "set (remove_nth i xs) \<subseteq> set xs"
  by (auto simp: remove_nth_def dest: in_set_takeD in_set_dropD)

text \<open>The gauge counts the open sessions, and every session opened is closed or open.\<close>

definition gauge_inv :: "tenant_rt \<Rightarrow> bool" where
  "gauge_inv s \<longleftrightarrow>
     sessions_active (rt_metrics s) = of_nat (opened (rt_live s)) \<and>
     sessions_opened (rt_metrics s) = sessions_closed (rt_metrics s) + sessions_active (rt_metrics s)"

text \<open>
  A handler sets a session up: it may count a failed handshake and touches no other counter.
\<close>

locale session_handler =
  fixes handler :: "session_env \<Rightarrow> metrics \<Rightarrow> (string + cspq_stream) \<times> metrics"
  assumes setup_counts: "handler v m = (r, m') \<Longrightarrow> \<exists>n. m' = m\<lparr> sessions_failed := n \<rparr>"
begin

lemma gauge_step:
  assumes "gauge_inv s"
  shows "gauge_inv (tenant_step C handler d name s ev)"
proof (cases ev)
  case (Connection who now)
  obtain r h where "hot_check (rt_admission s) who now = (r, h)" by (meson surj_pair)
  then show ?thesis using assms Connection
    by (cases r; cases "case r of Admit_Reject x \<Rightarrow> x | _ \<Rightarrow> Quota")
       (auto simp: gauge_inv_def accept_connection_def opened_def)
next
  case (Setup i v)
  obtain r m where r: "handler v (rt_metrics s) = (r, m)" by (meson surj_pair)
  then obtain n where m: "m = rt_metrics s\<lparr> sessions_failed := n \<rparr>" using setup_counts by blast
  show ?thesis
  proof (cases "i < length (rt_live s) \<and> \<not> lv_open (rt_live s ! i)")
    case True
    then show ?thesis using assms Setup r m
      by (cases r) (auto simp: gauge_inv_def opened_def end_session_def filter_remove_nth filter_update
          session_begin_def observe_handshake_def Let_def)
  qed (use assms Setup in auto)
next
  case (Finish i sel now elapsed)
  show ?thesis
  proof (cases "i < length (rt_live s) \<and> lv_open (rt_live s ! i) \<and> up_done sel \<and> down_done sel")
    case True
    then have "0 < opened (rt_live s)" using filter_pos unfolding opened_def by blast
    then have "of_nat (opened (rt_live s) - 1) = (of_nat (opened (rt_live s)) :: u64) - 1"
      by (simp add: of_nat_diff Suc_le_eq)
    then show ?thesis using assms Finish True
      by (auto simp: gauge_inv_def opened_def end_session_def filter_remove_nth session_end_def Let_def)
  qed (use assms Finish in auto)
qed (use assms in \<open>auto simp: gauge_inv_def\<close>)

end

sublocale session_handler \<subseteq> gauge: step_invariant "tenant_step C handler d name" gauge_inv for C d name
  by unfold_locales (rule gauge_step)

lemma no_failure_counted [simp]: "\<exists>n. m = m\<lparr> sessions_failed := n \<rparr>"
  by (rule exI [of _ "sessions_failed m"]) simp

interpretation serve_tcp: session_handler "setup_serve_tcp C identity policy t tls" for C identity policy t tls
  by unfold_locales (auto simp: setup_serve_tcp_def split: if_splits sum.splits)

interpretation serve_pq: session_handler "setup_serve_pq C identity policy t" for C identity policy t
  by unfold_locales (auto simp: setup_serve_pq_def split: if_splits sum.splits)

interpretation serve_sni: session_handler "setup_sni C identity policy ctx" for C identity policy ctx
  by unfold_locales (auto simp: setup_sni_def split: if_splits sum.splits)

subsection \<open>The quota over the controllers\<close>

text \<open>The limit a controller was made with, and the limits of all controllers so far, oldest first.\<close>

definition limit_of :: "tenant_limits option \<Rightarrow> nat option" where
  "limit_of l = Option.bind l (\<lambda>x. map_option unat (max_concurrent x))"

fun caps_step :: "nat option list \<Rightarrow> tenant_event \<Rightarrow> nat option list" where
  "caps_step caps (Set_Limits l) = caps @ [limit_of l]"
| "caps_step caps ev = caps"

fun cap_ok :: "nat option \<Rightarrow> nat option \<Rightarrow> nat \<Rightarrow> bool" where
  "cap_ok None q h \<longleftrightarrow> q = None \<and> h = 0"
| "cap_ok (Some c) q h \<longleftrightarrow> (\<exists>n. q = Some n \<and> n + h = c)"

definition quota_ok :: "nat option list \<Rightarrow> tenant_rt \<Rightarrow> bool" where
  "quota_ok caps s \<longleftrightarrow>
     length (controllers (rt_admission s)) = length caps \<and>
     (\<forall>g < length caps. cap_ok (caps ! g) (quota (controllers (rt_admission s) ! g)) (held g (rt_live s))) \<and>
     (\<forall>l \<in> set (rt_live s). \<forall>g. lv_permit l = Some g \<longrightarrow> g < length caps)"

lemma length_controllers [simp]: "length (controllers h) = Suc (length (hot_old h))"
  by (simp add: controllers_def)

lemma controllers_of_controllers: "cs \<noteq> [] \<Longrightarrow> controllers (of_controllers cs) = cs"
  by (simp add: controllers_def of_controllers_def)

lemma controllers_check:
  "hot_check h p now = (r, h') \<Longrightarrow> \<exists>a. check_admit (hot_current h) p now = (r, a) \<and>
     controllers h' = (controllers h)[length (hot_old h) := a] \<and> hot_old h' = hot_old h"
  by (auto simp: hot_check_def controllers_def list_update_append split: prod.splits)

lemma controllers_current: "controllers h ! length (hot_old h) = hot_current h"
  by (simp add: controllers_def nth_append)

lemma check_admit_no_quota:
  assumes "quota a = None" "check_admit a p now = (r, a')"
  shows "(r = Admit_Ok False \<or> r = Admit_Reject Rate) \<and> quota a' = None"
  using assms by (auto simp: check_admit_def check_quota_def split: option.splits prod.splits bool.splits)

lemma check_admit_cap:
  assumes "cap_ok c (quota a) h" "check_admit a p now = (r, a')"
  shows "(case r of
     Admit_Ok permit \<Rightarrow> cap_ok c (quota a') (if permit then Suc h else h)
   | Admit_Reject _ \<Rightarrow> cap_ok c (quota a') h)"
proof (cases c)
  case None
  then show ?thesis using assms check_admit_no_quota [OF _ assms(2)] by auto
next
  case (Some k)
  then obtain n where "quota a = Some n" "n + h = k" using assms(1) by auto
  then show ?thesis using check_admit_quota [OF _ assms(2)] Some by auto
qed

lemma cap_ok_release: "cap_ok c q (Suc h) \<Longrightarrow> cap_ok c (map_option Suc q) h"
  by (cases c) auto

lemma quota_ok_accept:
  assumes "quota_ok caps s"
  shows "quota_ok caps (accept_connection who now s)"
proof -
  let ?h = "rt_admission s"
  obtain r h where c: "hot_check ?h who now = (r, h)" by (meson surj_pair)
  then obtain a where a: "check_admit (hot_current ?h) who now = (r, a)"
    and cs: "controllers h = (controllers ?h)[length (hot_old ?h) := a]" and old: "hot_old h = hot_old ?h"
    using controllers_check by blast
  let ?g = "length (hot_old ?h)"
  have len: "length caps = Suc ?g" using assms by (simp add: quota_ok_def)
  then have "cap_ok (caps ! ?g) (quota (hot_current ?h)) (held ?g (rt_live s))"
    using assms controllers_current [of ?h] by (auto simp: quota_ok_def)
  note new = check_admit_cap [OF this a]
  show ?thesis
  proof (cases r)
    case (Admit_Ok permit)
    then show ?thesis using assms c cs old new len
      by (auto simp: quota_ok_def accept_connection_def nth_list_update held_def)
  next
    case (Admit_Reject x)
    then show ?thesis using assms c cs old new len
      by (auto simp: quota_ok_def accept_connection_def nth_list_update)
  qed
qed

lemma quota_ok_end:
  assumes q: "quota_ok caps s" and i: "i < length (rt_live s)"
  shows "quota_ok caps (end_session i s)"
proof (cases "lv_permit (rt_live s ! i)")
  case None
  then show ?thesis using assms set_remove_nth [of i "rt_live s"]
    by (auto simp: quota_ok_def end_session_def drop_permit_def held_def filter_remove_nth)
next
  case (Some g)
  let ?cs = "controllers (rt_admission s)"
  have g: "g < length caps" using assms Some nth_mem [OF i] by (auto simp: quota_ok_def)
  have ne: "?cs[g := release (?cs ! g)] \<noteq> []" by (metis length_controllers length_list_update list.size(3) nat.distinct(1))
  have pos: "held g (rt_live s) = Suc (held g (remove_nth i (rt_live s)))"
    using Some filter_remove_nth [OF i, of "\<lambda>l. lv_permit l = Some g"]
      filter_pos [OF i, of "\<lambda>l. lv_permit l = Some g"] by (simp add: held_def)
  have other: "held k (remove_nth i (rt_live s)) = held k (rt_live s)" if "k \<noteq> g" for k
    using that Some filter_remove_nth [OF i, of "\<lambda>l. lv_permit l = Some k"] by (simp add: held_def)
  have "cap_ok (caps ! g) (quota (?cs ! g)) (Suc (held g (remove_nth i (rt_live s))))"
    using q g pos by (auto simp: quota_ok_def)
  then have "cap_ok (caps ! g) (quota (release (?cs ! g))) (held g (remove_nth i (rt_live s)))"
    using cap_ok_release by (simp add: release_def)
  then show ?thesis using q g Some other set_remove_nth [of i "rt_live s"]
    by (auto simp: quota_ok_def end_session_def drop_permit_def controllers_of_controllers [OF ne] nth_list_update)
qed

lemma controllers_set_limits:
  "controllers (set_limits l h) = controllers h @ [AdmissionController_new (Option.bind l max_concurrent)
     (Option.bind l (\<lambda>x. map_option rate_limit_from (rate_limit_per_source x)))]"
  by (cases l) (simp_all add: set_limits_def hot_swap_def controllers_def)

lemma held_out_of_range: "\<forall>l \<in> set ls. \<forall>g. lv_permit l = Some g \<longrightarrow> g < n \<Longrightarrow> held n ls = 0"
  by (auto simp: held_def filter_empty_conv)

lemma quota_ok_limits:
  assumes "quota_ok caps s"
  shows "quota_ok (caps @ [limit_of l]) (s\<lparr> rt_admission := set_limits l (rt_admission s) \<rparr>)"
proof -
  have "cap_ok (limit_of l) (quota (AdmissionController_new (Option.bind l max_concurrent) rl)) 0" for rl
    by (cases l; cases "Option.bind l max_concurrent") (auto simp: limit_of_def AdmissionController_new_def)
  then show ?thesis
    using assms held_out_of_range [of "rt_live s" "length caps"]
    by (fastforce simp: quota_ok_def controllers_set_limits nth_append less_Suc_eq)
qed

lemma quota_ok_open:
  assumes q: "quota_ok caps s" and i: "i < length (rt_live s)"
  shows "quota_ok caps (s\<lparr> rt_metrics := m, rt_channel := ch,
      rt_live := (rt_live s)[i := (rt_live s ! i)\<lparr> lv_open := True, lv_peer := p \<rparr>] \<rparr>)"
proof -
  let ?l = "(rt_live s ! i)\<lparr> lv_open := True, lv_peer := p \<rparr>"
  have h: "held g ((rt_live s)[i := ?l]) = held g (rt_live s)" for g
    using filter_update [OF i, of "\<lambda>l. lv_permit l = Some g" ?l] filter_pos [OF i, of "\<lambda>l. lv_permit l = Some g"]
    by (auto simp: held_def)
  have "g < length caps" if "l \<in> set ((rt_live s)[i := ?l])" "lv_permit l = Some g" for l g
  proof -
    have "l \<in> set (rt_live s) \<or> lv_permit l = lv_permit (rt_live s ! i)"
      using that(1) set_update_subset_insert [of "rt_live s" i ?l] by auto
    then show ?thesis using q that(2) nth_mem [OF i] unfolding quota_ok_def by metis
  qed
  then show ?thesis using q h by (simp add: quota_ok_def)
qed

lemma quota_ok_step: "quota_ok caps s \<Longrightarrow> quota_ok (caps_step caps ev) (tenant_step C handler d name s ev)"
proof (cases ev)
  case (Setup i v)
  assume q: "quota_ok caps s"
  obtain r m where r: "handler v (rt_metrics s) = (r, m)" by (meson surj_pair)
  have "quota_ok caps (s\<lparr> rt_metrics := m \<rparr>)" using q by (simp add: quota_ok_def)
  note e = quota_ok_end [OF this]
  show ?thesis using Setup q r e quota_ok_open [OF q]
    by (cases r) (simp_all add: session_begin_def Let_def)
next
  case (Finish i sel now elapsed)
  assume q: "quota_ok caps s"
  then have "quota_ok caps (s\<lparr> rt_metrics := m, rt_channel := ch \<rparr>)" for m ch by (simp add: quota_ok_def)
  then show ?thesis using Finish q quota_ok_end by (auto simp: session_end_def Let_def)
next
  case (Set_Limits l)
  then show "quota_ok caps s \<Longrightarrow> ?thesis" using quota_ok_limits by simp
qed (auto simp: quota_ok_accept, auto simp: quota_ok_def)

lemma quota_ok_start: "quota_ok [limit_of l] (tenant_start (build_admission l) ch)"
  by (cases l; cases "Option.bind l max_concurrent")
     (auto simp: quota_ok_def tenant_start_def build_admission_def HotAdmission_new_def controllers_def
        AdmissionController_new_def limit_of_def held_def)

lemma quota_ok_run: "quota_ok caps s \<Longrightarrow> quota_ok (foldl caps_step caps evs) (foldl (tenant_step C handler d name) s evs)"
  by (induction evs arbitrary: caps s) (auto intro: quota_ok_step)

lemma cap_ok_bound: "cap_ok (Some c) q h \<Longrightarrow> h \<le> c"
  by auto

text \<open>A loop with a controller of its own starts under the tenant's limit and stays under it.\<close>

lemma own_limits_hold:
  assumes "run_serve_tcp_tenant C H identity policy t tls bound None ch evs = Inr s"
    and "run_serve_pq_tenant C H identity policy t' bound' None ch' evs' = Inr s'"
  shows "quota_ok (foldl caps_step [limit_of (st_limits t)] evs) s" "quota_ok (foldl caps_step [limit_of (sp_limits t')] evs') s'"
  using assms by (auto simp: run_serve_tcp_tenant_def run_serve_pq_tenant_def unwrap_or_def res_simps
      intro: quota_ok_run quota_ok_start)

end
