(* ===== verification/Session_Theorems.thy ===== *)
theory Session_Theorems
  imports Sessions Transport_Theorems
begin

text \<open>
  The properties of a proxied session and of a tenant's accept loop: what is read on one side of
  a tunnel is written on the other, a session ends when one of its directions fails, and the
  counters and permits of a tenant follow its sessions in every order of events.
\<close>

subsection \<open>The tunnel\<close>

lemma unat_length: "n < 2 ^ 64 \<Longrightarrow> sat_total 0 n = of_nat n"
  by (simp add: sat_total_def min_def)

lemma pump_up_data:
  assumes "aead_ok C" "aead_total C" "sc_data sc = Some d" "unat (counter (w_send w)) + length d + 1 < 2 ^ 64"
    and "length (prefix (w_send w)) = 4"
  obtains ps w' where "pump_local_to_cspq C b sc None w m 0 = (Returns (Inr (of_nat (length d))), w', bump b (of_nat (length d)) m)"
    "[] \<notin> set ps" "send_all C w (ps @ [[]]) = (Inr (), w')" "concat ps = d"
proof -
  obtain t w' m' where p: "pump_local_to_cspq C b sc None w m 0 = (Returns (Inr t), w', m')"
    using pump_up_returns [OF assms] by blast
  from pump_up_records [OF this] obtain ps where
    "[] \<notin> set ps" "send_all C w (ps @ [[]]) = (Inr (), w')" "sc_data sc = Some (concat ps)"
    "t = sat_total 0 (length (concat ps))" "m' = bump b (of_nat (length (concat ps))) m" by blast
  moreover from this have "concat ps = d" using assms(3) by simp
  ultimately show thesis using that [of w' ps] p unat_length [of "length d"] assms(4) by simp
qed

text \<open>
  C17. A local stream that ends is carried whole: the pump from the local side returns with the
  number of bytes read, and the pump at the far end, fed what this one put on the wire,
  writes exactly these bytes, shuts its local side down and returns the same number; both
  count them in their buckets.
\<close>

theorem tunnel_delivers_local_bytes:
  assumes "aead_ok C" "aead_total C" "sc_data sc = Some d" "unat (counter (w_send w)) + length d + 1 < 2 ^ 64"
    and "length (prefix (w_send w)) = 4" "r_recv r = w_send w" "lo_room lo = None"
  shows "\<exists>sent w'. w_inner w' = w_inner w @ sent \<and>
    pump_local_to_cspq C b sc None w m 0 = (Returns (Inr (of_nat (length d))), w', bump b (of_nat (length d)) m) \<and>
    pump_cspq_to_local C b' (r\<lparr> r_inner := sent \<rparr>) lo m' 0 =
      (Inr (of_nat (length d)), r\<lparr> r_inner := [], r_recv := w_send w' \<rparr>,
       lo\<lparr> lo_written := lo_written lo @ d, lo_shut := True \<rparr>, bump b' (of_nat (length d)) m')"
proof -
  obtain ps w' where up: "pump_local_to_cspq C b sc None w m 0 = (Returns (Inr (of_nat (length d))), w', bump b (of_nat (length d)) m)"
    and ps: "[] \<notin> set ps" "send_all C w (ps @ [[]]) = (Inr (), w')" "concat ps = d"
    using pump_up_data [OF assms(1-5)] by metis
  obtain sent where "w_inner w' = w_inner w @ sent"
    "\<And>r rest lo m tot. r_recv r = w_send w \<and> r_inner r = sent @ rest \<and> lo_room lo = None \<Longrightarrow>
       pump_cspq_to_local C b' r lo m tot =
         (Inr (sat_total tot (length d)), r\<lparr> r_inner := rest, r_recv := w_send w' \<rparr>,
          lo\<lparr> lo_written := lo_written lo @ d, lo_shut := True \<rparr>, bump b' (of_nat (length d)) m)"
    using pump_down_delivers [OF assms(1) ps(2,1)] ps(3) by blast
  then show ?thesis using up assms(4,6,7) unat_length [of "length d"]
    by (intro exI [of _ sent] exI [of _ w']) simp
qed

definition toy_out :: local_out where
  "toy_out = \<lparr> lo_written = [], lo_room = None, lo_shut = False \<rparr>"

definition toy_end :: cspq_reader where
  "toy_end = \<lparr> r_inner = [], r_recv = toy_dir, r_peer_id = [] \<rparr>"

lemma toy_tunnel [simp]:
  "w_send toy_writer = toy_dir" "w_inner toy_writer = []" "r_recv toy_end = toy_dir" "lo_room toy_out = None"
  "lo_written toy_out = []" "unat (counter toy_dir) = 0" "length (prefix toy_dir) = 4"
  by (simp_all add: toy_writer_def toy_end_def toy_out_def toy_dir_def DirectionState_new_def record_consts)

theorem tunnel_delivers_local_bytes_witness:
  "\<exists>sent w'. w_inner w' = sent \<and>
    pump_local_to_cspq toy_hs C2s [LData [1, 2], LData [3], LData []] None toy_writer Metrics_default 0 =
      (Returns (Inr 3), w', bump C2s 3 Metrics_default) \<and>
    pump_cspq_to_local toy_hs C2s (toy_end\<lparr> r_inner := sent \<rparr>) toy_out Metrics_default 0 =
      (Inr 3, toy_end\<lparr> r_inner := [], r_recv := w_send w' \<rparr>, toy_out\<lparr> lo_written := [1, 2, 3], lo_shut := True \<rparr>,
       bump C2s 3 Metrics_default)"
  using tunnel_delivers_local_bytes [of toy_hs "[LData [1, 2], LData [3], LData []]" "[1, 2, 3]" toy_writer toy_end toy_out C2s
      Metrics_default C2s Metrics_default] by simp

text \<open>
  C33. A tunnel cut anywhere before its end marker is complete is an error at the far end, which
  never shuts its local side down as if the stream had ended, and what it wrote by then is
  a leading part of what was read.
\<close>

theorem cut_tunnel_is_an_error:
  assumes "aead_ok C" "pump_local_to_cspq C b sc None w m 0 = (Returns (Inr t), w', m')" "w_inner w' = w_inner w @ sent"
    and "k < length sent" "r_recv r = w_send w" "r_inner r = take k sent" "lo_room lo = None" "sc_data sc = Some d"
  shows "\<exists>e r' m'' j. pump_cspq_to_local C b' r lo m0 0 = (Inl e, r', lo\<lparr> lo_written := lo_written lo @ take j d \<rparr>, m'')"
proof -
  obtain ps where ps: "[] \<notin> set ps" "send_all C w (ps @ [[]]) = (Inr (), w')" "concat ps = d"
    using pump_up_records [OF assms(2)] assms(8) by auto
  show ?thesis using pump_down_truncated [OF assms(1) ps(2,1) assms(3-7)] ps(3) by blast
qed

definition toy_marker :: bytes where
  "toy_marker = frame_of (toy_ct 0 [])"

lemma toy_pump_end:
  "pump_local_to_cspq toy_hs C2s [LData []] None toy_writer Metrics_default 0 =
     (Returns (Inr 0), toy_writer\<lparr> w_send := toy_dir\<lparr> counter := 1 \<rparr>, w_inner := toy_marker \<rparr>, Metrics_default)"
proof -
  have "w_send_record toy_hs toy_writer [] =
    (Inr (), toy_writer\<lparr> w_send := toy_dir\<lparr> counter := 1 \<rparr>, w_inner := toy_marker \<rparr>)"
    by (simp add: w_send_record_Inr toy_seal0 toy_marker_def)
  then show ?thesis by (simp add: pump_local_to_cspq.simps(3) sock_send_None w_send_eof_record)
qed

theorem cut_tunnel_is_an_error_witness:
  "\<exists>e r' m'' j. pump_cspq_to_local toy_hs C2s (toy_end\<lparr> r_inner := take 3 toy_marker \<rparr>) toy_out Metrics_default 0 =
     (Inl e, r', toy_out\<lparr> lo_written := take j [] \<rparr>, m'')"
  using cut_tunnel_is_an_error [OF _ toy_pump_end, of toy_marker 3 "toy_end\<lparr> r_inner := take 3 toy_marker \<rparr>" toy_out "[]"
      C2s Metrics_default]
  by (simp add: toy_marker_def frame_of_def)

text \<open>
  C35. The select loop of a session takes at most two turns; when a direction fails, or both
  return, it stops only with both directions done, and the recorded reason is unset exactly
  when neither failed, in which case the recorded totals are those the directions returned.
\<close>

theorem select_loop_ends:
  assumes "failed pu \<or> failed pd \<or> (pu \<noteq> Stays \<and> pd \<noteq> Stays)" "(select_step pu pd ^^ n) select_init s"
  shows "n \<le> 2 \<and> ((\<exists>s'. select_step pu pd s s') \<longleftrightarrow> n < 2) \<and>
    (n = 2 \<longrightarrow> up_done s \<and> down_done s \<and> (shutdown_reason s = None \<longleftrightarrow> \<not> failed pu \<and> \<not> failed pd) \<and>
       (shutdown_reason s = None \<longrightarrow> pu = Returns (Inr (bytes_up s)) \<and> pd = Returns (Inr (bytes_down s))))"
proof -
  have len: "2 = n + undone s" using select_run_length [OF assms(2)] by (simp add: undone_def select_init_def)
  have "(select_step pu pd)\<^sup>*\<^sup>* select_init s" using assms(2) by (rule relpowp_imp_rtranclp)
  then have inv: "select_inv pu pd s" by (rule select_run_inv)
  have done_iff: "up_done s \<and> down_done s \<longleftrightarrow> n = 2" using len by (auto simp: undone_def split: if_splits)
  have step: "(\<exists>s'. select_step pu pd s s') \<longleftrightarrow> n < 2"
    using select_progress [OF inv assms(1)] done_iff len by (auto elim!: select_stepE)
  show ?thesis using len step inv done_iff by (auto simp: select_inv_def failed_def)
qed

definition toy_failed :: select_state where
  "toy_failed = on_down JCancelled (on_up (JErr ''x'') select_init)"

theorem select_loop_ends_witness:
  "shutdown_reason toy_failed \<noteq> None"
proof -
  have "(select_step (Returns (Inl ''x'')) Stays ^^ 2) select_init toy_failed"
  proof -
    have "select_step (Returns (Inl ''x'')) Stays select_init (on_up (JErr ''x'') select_init)"
      by (rule select_step.up) (simp_all add: select_init_def)
    moreover have "select_step (Returns (Inl ''x'')) Stays (on_up (JErr ''x'') select_init) toy_failed"
      unfolding toy_failed_def by (rule select_step.down) (simp_all add: select_init_def on_up_def get_or_insert_def)
    ultimately show ?thesis by (auto simp: numeral_2_eq_2)
  qed
  then show ?thesis using select_loop_ends [of "Returns (Inl ''x'')" Stays 2 toy_failed] by (auto simp: failed_def)
qed

subsection \<open>A tenant's sessions\<close>

text \<open>
  C30. Whatever connections, handshakes, failures, ends of sessions and limit changes a tenant
  meets, in any order and for each of the three accept loops, the gauge of active sessions
  is the number of open sessions, and every session opened is closed or active.
\<close>

theorem session_counters_follow_sessions:
  "gauge_inv (foldl (tenant_step C (setup_serve_tcp H identity policy t tls) d name) (tenant_start h ch) evs) \<and>
   gauge_inv (foldl (tenant_step C (setup_serve_pq H identity policy t') d name) (tenant_start h ch) evs) \<and>
   gauge_inv (foldl (tenant_step C (setup_sni H identity policy ctx) d name) (tenant_start h ch) evs)"
proof -
  have "gauge_inv (tenant_start h ch)"
    by (simp add: gauge_inv_def tenant_start_def Metrics_default_def opened_def)
  then show ?thesis by (simp add: serve_tcp.gauge.run_inv serve_pq.gauge.run_inv serve_sni.gauge.run_inv)
qed

text \<open>
  C23. In every run of a tenant, limit changes included, the sessions that hold a permit of a
  controller never exceed the limit that controller was made with, and every permit is
  one of a controller.
\<close>

theorem sessions_never_exceed_their_limit:
  assumes "s = foldl (tenant_step C handler d name) (tenant_start (build_admission l) ch) evs"
    and "caps = foldl caps_step [limit_of l] evs"
  shows "length (controllers (rt_admission s)) = length caps \<and>
    (\<forall>g c. g < length caps \<and> caps ! g = Some c \<longrightarrow> held g (rt_live s) \<le> c) \<and>
    (\<forall>x \<in> set (rt_live s). \<forall>g. lv_permit x = Some g \<longrightarrow> g < length caps)"
proof -
  have "quota_ok caps s" unfolding assms by (intro quota_ok_run quota_ok_start)
  then show ?thesis unfolding quota_ok_def using cap_ok_bound by metis
qed

definition one_session :: "tenant_limits option" where
  "one_session = Some \<lparr> max_concurrent = Some 1, rate_limit_per_source = None \<rparr>"

theorem sessions_never_exceed_their_limit_witness:
  "\<forall>policy t ch. held 0 (rt_live (foldl (tenant_step toy_log (setup_serve_tcp toy_hs (toy_identity 0) policy t False) AppToPeer ''a'')
     (tenant_start (build_admission one_session) ch) [Connection ''10.0.0.1'' 0, Connection ''10.0.0.2'' 0, Set_Limits None])) \<le> 1"
proof (intro allI)
  fix policy t ch
  show "held 0 (rt_live (foldl (tenant_step toy_log (setup_serve_tcp toy_hs (toy_identity 0) policy t False) AppToPeer ''a'')
     (tenant_start (build_admission one_session) ch) [Connection ''10.0.0.1'' 0, Connection ''10.0.0.2'' 0, Set_Limits None])) \<le> 1"
    using sessions_never_exceed_their_limit [of _ toy_log "setup_serve_tcp toy_hs (toy_identity 0) policy t False" AppToPeer "''a''"
        one_session ch "[Connection ''10.0.0.1'' 0, Connection ''10.0.0.2'' 0, Set_Limits None]"]
    by (simp add: one_session_def limit_of_def)
qed

end
