(* ===== verification/Startup.thy ===== *)
theory Startup
  imports Sessions Keyfiles Hsm
begin

text \<open>
  What the daemon does before it serves (\<open>qgateway/src/main.rs\<close>): generating and loading the
  transport identity, the dry-run validation of a configuration, opening or creating a tenant's
  audit log with its signer, and building the runtime of a tenant.

  The host is a record: the files, the listing of a directory (\<open>None\<close>: it cannot be read), the
  environment, the PEM blocks of a file (one flag a block: well formed or not), and which strings
  parse as socket addresses. The daemon is built with its \<open>pkcs11\<close> feature.
\<close>

record host =
  h_fs :: filesystem
  h_dir :: "string \<Rightarrow> (string \<times> bytes) list option"
  h_is_dir :: "string \<Rightarrow> bool"
  h_env :: "string \<Rightarrow> string option"
  h_pem_certs :: "string \<Rightarrow> bool list option"
  h_pem_key :: "string \<Rightarrow> bool"
  h_socket_addr :: "string \<Rightarrow> bool"

definition SK_FILE_MAGIC :: bytes where
  "SK_FILE_MAGIC = ascii ''CSPQSK01''"

subsection \<open>Keys\<close>

definition cmd_keygen :: "'a crates_scheme \<Rightarrow> nat \<Rightarrow> key_io \<Rightarrow> filesystem \<Rightarrow> string \<Rightarrow> string \<Rightarrow> (string + keypair) \<times> filesystem" where
  "cmd_keygen C e io fs sk_path pk_path =
     (case KeyPair_generate C e of
        Inl _ \<Rightarrow> (Inl ''generating transport ML-DSA-87 keypair'', fs)
      | Inr kp \<Rightarrow>
          (case write_keypair_files io fs sk_path pk_path (SK_FILE_MAGIC @ kp_sk kp) (IDENTITY_FILE_MAGIC @ kp_pk kp) of
             (Inl err, fs') \<Rightarrow> (Inl err, fs')
           | (Inr _, fs') \<Rightarrow> (Inr kp, fs')))"

definition cmd_audit_keygen :: "'a crates_scheme \<Rightarrow> nat \<Rightarrow> key_io \<Rightarrow> filesystem \<Rightarrow> string \<Rightarrow> string \<Rightarrow> (string + keypair) \<times> filesystem" where
  "cmd_audit_keygen C e io fs sk_path pk_path = key_generate C e io fs sk_path pk_path"

definition load_public_file :: "filesystem \<Rightarrow> string \<Rightarrow> string + public_key" where
  "load_public_file fs pk_path =
     and_then (ok_or ''reading public key'' (read_file fs pk_path)) (\<lambda>blob. map_err terror_text (load_public blob))"

definition cmd_pubkey :: "'a crates_scheme \<Rightarrow> filesystem \<Rightarrow> string \<Rightarrow> string + string" where
  "cmd_pubkey C fs pk_path =
     and_then (map_err (\<lambda>e. ''loading '' @ pk_path @ '': '' @ e) (load_public_file fs pk_path)) (\<lambda>pk. Inr (hex_encode C pk))"

definition load_transport_identity :: "'a crates_scheme \<Rightarrow> filesystem \<Rightarrow> string \<Rightarrow> string \<Rightarrow> string + keypair" where
  "load_transport_identity C fs sk_path pk_path =
     and_then (ok_or (''reading transport SK '' @ sk_path) (read_file fs sk_path)) (\<lambda>blob.
     and_then (ensure (length blob = 8 + SECRET_KEY_LEN) ''transport SK file has invalid length'') (\<lambda>_.
     and_then (ensure (take 8 blob = SK_FILE_MAGIC) ''transport SK file has bad magic'') (\<lambda>_.
     and_then (map_err (\<lambda>_. ''decoding ML-DSA-87 SK'') (SecretKey_from_bytes (take SECRET_KEY_LEN (drop 8 blob)))) (\<lambda>sk.
     and_then (map_err (\<lambda>e. ''loading transport PK '' @ pk_path @ '': '' @ e) (load_public_file fs pk_path)) (\<lambda>pk.
     and_then (map_err (\<lambda>_. ''derive_public'') (derive_public C sk)) (\<lambda>derived.
     and_then (ensure (derived = pk) ''transport public key does not match secret key'') (\<lambda>_.
     Inr (KeyPair_from_parts pk sk))))))))"

subsection \<open>Dry-run validation\<close>

definition validate_tls_cert :: "host \<Rightarrow> string \<Rightarrow> string + unit" where
  "validate_tls_cert h path =
     and_then (ok_or (''TLS cert '' @ path) (h_pem_certs h path)) (\<lambda>blocks.
     and_then (ensure (list_all id blocks) (''TLS cert '' @ path @ '' (malformed PEM)'')) (\<lambda>_.
     ensure (blocks \<noteq> []) (''TLS cert '' @ path @ '' contains no CERTIFICATE blocks'')))"

definition validate_tls_key :: "host \<Rightarrow> string \<Rightarrow> string + unit" where
  "validate_tls_key h path = ensure (h_pem_key h path) (''TLS key '' @ path)"

definition validate_one_tenant :: "'a crates_scheme \<Rightarrow> host \<Rightarrow> tenant_config \<Rightarrow> config \<Rightarrow> string + unit" where
  "validate_one_tenant C h t cfg =
     and_then (ok_or (''peer_pub_dir '' @ t_peer_pub_dir t) (h_dir h (t_peer_pub_dir t))) (\<lambda>files.
     and_then (map_err (\<lambda>e. ''peer_pub_dir '' @ t_peer_pub_dir t @ '': '' @ terror_text e) (from_dir files)) (\<lambda>policy.
     and_then (ensure (\<not> policy_is_empty policy) (''no peer .cspqid.pub files in '' @ t_peer_pub_dir t)) (\<lambda>_.
     and_then (ensure (h_socket_addr h (t_listen t)) ''listen is not a valid SocketAddr'') (\<lambda>_.
     and_then (case c_role cfg of
         ServePq \<Rightarrow>
           and_then (ok_or ''serve-pq tenant must declare `backend`'' (t_backend t)) (\<lambda>b.
           ensure (h_socket_addr h b) ''backend is not a valid SocketAddr'')
       | ServeTcp \<Rightarrow>
           and_then (ok_or ''serve-tcp tenant must declare `peer_pq`'' (t_peer_pq t)) (\<lambda>p.
           ensure (h_socket_addr h p) ''peer_pq is not a valid SocketAddr'')) (\<lambda>_.
     and_then (case path_parent (t_audit_log t) of
         Some parent \<Rightarrow> ensure (parent = [] \<or> h_is_dir h parent) ''audit_log parent directory does not exist''
       | None \<Rightarrow> Inr ()) (\<lambda>_.
     and_then (ok_or ''no audit_signer'' (effective_signer cfg t)) (\<lambda>signer.
     and_then (case signer of
         Softkey_Cfg secret_key public_key \<Rightarrow>
           and_then (map_err (\<lambda>e. ''audit signer files: '' @ e) (key_load C (h_fs h) secret_key public_key)) (\<lambda>_. Inr ())
       | Pkcs11_Cfg module slot pin_env key_lbl pub_lbl mech \<Rightarrow>
           and_then (ensure (h_fs h module \<noteq> None \<or> h_is_dir h module) (''PKCS#11 module path does not exist: '' @ module)) (\<lambda>_.
           ensure (h_env h pin_env \<noteq> None) (''PKCS#11 pin_env '' @ pin_env @ '' is not set''))) (\<lambda>_.
     (case t_tls t of
        None \<Rightarrow> Inr ()
      | Some tls \<Rightarrow> and_then (validate_tls_cert h (cert_path tls)) (\<lambda>_. validate_tls_key h (key_path tls)))))))))))"

definition cmd_validate :: "'a crates_scheme \<Rightarrow> host \<Rightarrow> config cresult \<Rightarrow> string + unit" where
  "cmd_validate C h loaded =
     and_then (map_err (\<lambda>_. ''loading config'') loaded) (\<lambda>cfg.
     and_then (map_err (\<lambda>e. ''transport identity validation: '' @ e)
        (load_transport_identity C (h_fs h) (c_identity_key cfg) (c_identity_pub cfg))) (\<lambda>_.
     and_then (try_map (\<lambda>t. map_err (\<lambda>e. ''tenant '' @ t_name t @ '': '' @ e) (validate_one_tenant C h t cfg)) (c_tenants cfg)) (\<lambda>_.
     ensure (h_socket_addr h (c_metrics_listen cfg)) ''metrics_listen is not a valid SocketAddr'')))"

subsection \<open>The audit log of a tenant\<close>

text \<open>What opening a tenant draws from outside.\<close>

record build_env =
  be_now :: timestamp
  be_rnd :: log_id
  be_io :: save_io
  be_unix :: int
  be_later :: "nat \<Rightarrow> filesystem"
  be_file_name :: "string \<Rightarrow> string option"

definition build_audit_log_softkey :: "'a log_crates_scheme \<Rightarrow> build_env \<Rightarrow> filesystem \<Rightarrow> string \<Rightarrow> keypair \<Rightarrow> string \<Rightarrow> (string + audit_log) \<times> filesystem" where
  "build_audit_log_softkey C B fs path audit_kp tenant_name =
     (if fs path \<noteq> None then
        (case open_log C fs path of
           Inl _ \<Rightarrow> (Inl (''opening existing audit log '' @ path), fs)
         | Inr l \<Rightarrow>
             if pubkey (header l) \<noteq> kp_pk audit_kp
             then (Inl (''audit log '' @ path @ '' was signed by a different audit identity''), fs)
             else (case bind_keypair C l audit_kp of
                     (Inl _, _) \<Rightarrow> (Inl ''bind_keypair'', fs)
                   | (Inr _, l') \<Rightarrow> (Inr l', fs)))
      else
        (case create_with_label C audit_kp (''qgateway/'' @ tenant_name) (be_now B) (be_rnd B) of
           Inl _ \<Rightarrow> (Inl ''create_with_label'', fs)
         | Inr l \<Rightarrow>
             (case save C (be_io B) fs path l of
                (Inl _, fs') \<Rightarrow> (Inl ''saving audit log'', fs')
              | (Inr _, fs') \<Rightarrow> (Inr l, fs'))))"

definition build_pkcs11_config :: "driver \<Rightarrow> host \<Rightarrow> build_env \<Rightarrow> audit_signer_config \<Rightarrow> string + pkcs11_config" where
  "build_pkcs11_config D h B cfg =
     (case cfg of
        Softkey_Cfg _ _ \<Rightarrow> Inl ''internal: build_pkcs11_config called on softkey cfg''
      | Pkcs11_Cfg module slot pin_env key_lbl pub_lbl mech \<Rightarrow>
          and_then (ok_or (''env var '' @ pin_env @ '' (PKCS#11 PIN) not set'') (h_env h pin_env)) (\<lambda>pin.
          let p0 = with_pin (Pkcs11Config_new D module (be_file_name B module) slot key_lbl) pin;
              p1 = (case pub_lbl of Some pl \<Rightarrow> with_pubkey_label p0 pl | None \<Rightarrow> p0);
              p2 = (case mech of Some mid \<Rightarrow> with_mechanism_id p1 mid | None \<Rightarrow> p1)
          in Inr p2))"

text \<open>The bridge from the signer's callbacks to the counters of the tenant.\<close>

fun hsm_telemetry :: "telemetry \<Rightarrow> metrics \<Rightarrow> metrics" where
  "hsm_telemetry on_session_open m = m\<lparr> hsm_sessions_opened := hsm_sessions_opened m + 1 \<rparr>"
| "hsm_telemetry on_session_open_failed m = m\<lparr> hsm_sessions_failed := hsm_sessions_failed m + 1 \<rparr>"
| "hsm_telemetry on_sign_ok m = m\<lparr> hsm_sign_ops := hsm_sign_ops m + 1 \<rparr>"
| "hsm_telemetry on_sign_failed m = m\<lparr> hsm_sign_failures := hsm_sign_failures m + 1 \<rparr>"

definition build_audit_log_pkcs11 :: "'a log_crates_scheme \<Rightarrow> driver \<Rightarrow> host \<Rightarrow> build_env \<Rightarrow> string \<Rightarrow> audit_signer_config \<Rightarrow> string \<Rightarrow> metrics \<Rightarrow> (string + audit_log) \<times> filesystem \<times> metrics" where
  "build_audit_log_pkcs11 C D h B path cfg tenant_name m =
     (case build_pkcs11_config D h B cfg of
        Inl e \<Rightarrow> (Inl e, h_fs h, m)
      | Inr pcfg \<Rightarrow>
          (case open_new D C pcfg of
             (Inl _, t) \<Rightarrow> (Inl ''PKCS#11 audit signer'', h_fs h, hsm_telemetry t m)
           | (Inr signer, t) \<Rightarrow>
               if h_fs h path \<noteq> None then
                 (case open_log C (h_fs h) path of
                    Inl _ \<Rightarrow> (Inl ''opening audit log'', h_fs h, hsm_telemetry t m)
                  | Inr l \<Rightarrow>
                      (case bind_signer C l signer of
                         (Inl _, _) \<Rightarrow> (Inl ''bind_signer'', h_fs h, hsm_telemetry t m)
                       | (Inr _, l') \<Rightarrow> (Inr l', h_fs h, hsm_telemetry t m)))
               else
                 (case create_with_signer signer (''qgateway/'' @ tenant_name) (be_now B) (be_rnd B) of
                    Inl _ \<Rightarrow> (Inl ''create_with_signer'', h_fs h, hsm_telemetry t m)
                  | Inr l \<Rightarrow>
                      (case save C (be_io B) (h_fs h) path l of
                         (Inl _, fs') \<Rightarrow> (Inl ''saving audit log'', fs', hsm_telemetry t m)
                       | (Inr _, fs') \<Rightarrow> (Inr l, fs', hsm_telemetry t m)))))"

subsection \<open>The runtime of a tenant\<close>

definition softkey_factory :: "'a crates_scheme \<Rightarrow> (nat \<Rightarrow> filesystem) \<Rightarrow> string \<Rightarrow> string \<Rightarrow> signer_factory" where
  "softkey_factory C later sk_path pk_path i =
     and_then (map_err (\<lambda>e. Internal (''SoftkeySignerFactory: load failed: '' @ e)) (key_load C (later i) sk_path pk_path)) (\<lambda>kp.
     Inr (keypair_signer C kp))"

definition pkcs11_factory :: "'a crates_scheme \<Rightarrow> driver \<Rightarrow> pkcs11_config \<Rightarrow> signer_factory" where
  "pkcs11_factory C D pcfg i = fst (open_new D C pcfg)"

record tenant_runtime =
  tr_name :: string
  tr_peer_policy :: peer_policy
  tr_metrics :: metrics_registry
  tr_channel :: channel
  tr_log_path :: string
  tr_admission :: hot_admission

definition build_tenant_runtime :: "'a log_crates_scheme \<Rightarrow> driver \<Rightarrow> host \<Rightarrow> build_env \<Rightarrow> tenant_config \<Rightarrow> config \<Rightarrow> (string + tenant_runtime) \<times> filesystem" where
  "build_tenant_runtime C D h B t cfg =
     (case and_then (ok_or (''loading peer dir '' @ t_peer_pub_dir t) (h_dir h (t_peer_pub_dir t))) (\<lambda>files.
           and_then (map_err terror_text (from_dir files)) (\<lambda>policy.
           and_then (ensure (\<not> policy_is_empty policy) (''tenant '' @ t_name t @ '': no peer .cspqid.pub files'')) (\<lambda>_.
           and_then (ok_or (''tenant '' @ t_name t @ '': no audit_signer'') (effective_signer cfg t)) (\<lambda>signer.
           Inr (policy, signer))))) of
        Inl e \<Rightarrow> (Inl e, h_fs h)
      | Inr (policy, signer) \<Rightarrow>
          (let m = Metrics_default;
               (lg, fs', m', factory) =
                 (case signer of
                    Softkey_Cfg secret_key public_key \<Rightarrow>
                      (case key_load C (h_fs h) secret_key public_key of
                         Inl e \<Rightarrow> (Inl (''loading audit keypair: '' @ e), h_fs h, m, Inl e)
                       | Inr audit_kp \<Rightarrow>
                           (case build_audit_log_softkey C B (h_fs h) (t_audit_log t) audit_kp (t_name t) of
                              (r, fs1) \<Rightarrow> (r, fs1, m, Inr (softkey_factory C (be_later B) secret_key public_key))))
                  | Pkcs11_Cfg _ _ _ _ _ _ \<Rightarrow>
                      (case build_audit_log_pkcs11 C D h B (t_audit_log t) signer (t_name t) m of
                         (r, fs1, m1) \<Rightarrow>
                           (r, fs1, m1, and_then (build_pkcs11_config D h B signer) (\<lambda>pcfg. Inr (pkcs11_factory C D pcfg)))))
           in (and_then lg (\<lambda>l. and_then factory (\<lambda>f.
                 Inr \<lparr> tr_name = t_name t, tr_peer_policy = policy,
                       tr_metrics = \<lparr> inner = m', reg_tenant = t_name t \<rparr>,
                       tr_channel = spawn_with_rotation l (t_audit_log t) fs' 256 16 f (be_unix B),
                       tr_log_path = t_audit_log t,
                       tr_admission = build_admission (t_limits t) \<rparr>)), fs')))"

subsection \<open>Facts\<close>

lemma identity_magic_lengths [simp]: "length SK_FILE_MAGIC = 8" "length IDENTITY_FILE_MAGIC = 8"
  by (simp_all add: SK_FILE_MAGIC_def IDENTITY_FILE_MAGIC_def)

lemma load_transport_identity_sound:
  "load_transport_identity C fs sk_path pk_path = Inr kp \<Longrightarrow>
   keypair_matches C kp \<and> length (kp_sk kp) = SECRET_KEY_LEN \<and> length (kp_pk kp) = PUBLIC_KEY_LEN \<and> mldsa_sk_parses C (kp_sk kp)"
  by (auto simp: load_transport_identity_def load_public_file_def load_public_def from_audit_def res_simps derive_public_def
      keypair_matches_def KeyPair_from_parts_def split: if_splits)

lemma load_transport_identity_new:
  assumes ok: "mldsa_ok C" and g: "KeyPair_generate C e = Inr kp"
    and sk: "fs sk_path = Some (new_file (SK_FILE_MAGIC @ kp_sk kp) m)"
    and pk: "fs pk_path = Some (new_file (IDENTITY_FILE_MAGIC @ kp_pk kp) m')"
  shows "load_transport_identity C fs sk_path pk_path = Inr kp"
proof -
  have kp: "length (kp_pk kp) = PUBLIC_KEY_LEN" "length (kp_sk kp) = SECRET_KEY_LEN"
    "mldsa_sk_parses C (kp_sk kp)" "mldsa_get_public_key C (kp_sk kp) = kp_pk kp"
    using g mldsa_keygen_lengths [OF ok, of e]
    by (auto simp: KeyPair_generate_def key_lens split: option.splits)
  then have "load_public_file fs pk_path = Inr (kp_pk kp)"
    using pk by (simp add: load_public_file_def load_public_def read_file_def new_file_def from_audit_def PublicKey_from_bytes_def)
  then show ?thesis
    using sk kp by (simp add: load_transport_identity_def read_file_def new_file_def SecretKey_from_bytes_def
        derive_public_def KeyPair_from_parts_def)
qed

lemma softkey_log_ok:
  assumes C: "mldsa_ok C" and kp: "key_load C gs sk pk = Inr kp"
    and b: "build_audit_log_softkey C B fs path kp name = (Inr l, fs')"
  shows "log_ok C l \<and> pubkey (header l) = kp_pk kp \<and> al_signer l = Some (keypair_signer C kp)"
proof -
  have good: "keypair_good C kp" "length (kp_pk kp) = PUBLIC_KEY_LEN"
    using key_load_sound [OF kp] C by (simp_all add: keypair_good_def)
  have sok: "signer_ok C (keypair_signer C kp)"
    using keypair_backend.obj_good [OF good(1)] good(2) by (simp add: signer_ok_def keypair_signer_def)
  show ?thesis
  proof (cases "fs path")
    case None
    then have c: "create_with_signer (keypair_signer C kp) (''qgateway/'' @ name) (be_now B) (be_rnd B) = Inr l"
      using b by (auto simp: build_audit_log_softkey_def create_with_label_def split: sum.splits prod.splits)
    then show ?thesis using create_log_ok [OF sok c] by (auto simp: create_with_signer_def keypair_signer_def)
  next
    case (Some n)
    then obtain l0 where l0: "open_log C fs path = Inr l0" "bind_keypair C l0 kp = (Inr (), l)"
      using b by (auto simp: build_audit_log_softkey_def split: sum.splits prod.splits if_splits)
    moreover from l0(1) have "log_inv C l0"
      using read_from_inv [of C _ l0] by (auto simp: open_log_def split: option.splits if_splits)
    ultimately show ?thesis
      by (auto simp: bind_keypair_def bind_signer_def log_ok_def log_inv_def al_verify_def signer_bound_def keypair_signer_def
          split: if_splits sum.splits)
  qed
qed

lemma softkey_log_frame:
  "build_audit_log_softkey C B fs path kp name = (r, fs') \<Longrightarrow> fs path \<noteq> None \<Longrightarrow> fs' = fs"
  by (auto simp: build_audit_log_softkey_def split: sum.splits prod.splits if_splits)

definition save_works :: "save_io \<Rightarrow> bool" where
  "save_works io \<longleftrightarrow> stat_ok io \<and> tmp_ok io \<and> write_ok io \<and> chmod_ok io \<and> sync_ok io \<and> persist_ok io \<and> dirsync_ok io"

lemma softkey_log_created:
  assumes "fs path = None" "save_works (be_io B)" "\<And>hd. cbor_header C hd \<noteq> None"
  shows "\<exists>l fs'. build_audit_log_softkey C B fs path kp name = (Inr l, fs') \<and> fs' path \<noteq> None"
proof -
  obtain l where l: "create_with_label C kp (''qgateway/'' @ name) (be_now B) (be_rnd B) = Inr l" "entries l = []"
    by (simp add: create_with_label_def create_with_signer_def)
  obtain hb where "cbor_header C (header l) = Some hb" using assms(3) by blast
  then have "save C (be_io B) fs path l = (Inr (), fs(path \<mapsto> \<lparr> is_file = True, contents = MAGIC @ hb, permissions = private_mode \<rparr>))"
    using assms l(2) by (simp add: save_def save_works_def save_to_def)
  then show ?thesis using assms(1) l(1) by (simp add: build_audit_log_softkey_def)
qed

lemma build_softkey_runtime:
  assumes "h_dir h (t_peer_pub_dir t) = Some files" "from_dir files = Inr policy" "\<not> policy_is_empty policy"
    and "effective_signer cfg t = Some (Softkey_Cfg sk pk)" "key_load C (h_fs h) sk pk = Inr kp"
  shows "build_tenant_runtime C D h B t cfg =
    (case build_audit_log_softkey C B (h_fs h) (t_audit_log t) kp (t_name t) of
       (lg, fs') \<Rightarrow> (and_then lg (\<lambda>l. Inr \<lparr> tr_name = t_name t, tr_peer_policy = policy,
          tr_metrics = MetricsRegistry_new (t_name t),
          tr_channel = spawn_with_rotation l (t_audit_log t) fs' 256 16 (softkey_factory C (be_later B) sk pk) (be_unix B),
          tr_log_path = t_audit_log t, tr_admission = build_admission (t_limits t) \<rparr>), fs'))"
  using assms by (simp add: build_tenant_runtime_def Let_def MetricsRegistry_new_def split: prod.splits)

lemma validate_one_tenant_softkey:
  assumes "validate_one_tenant C h t cfg = Inr ()" "effective_signer cfg t = Some (Softkey_Cfg sk pk)"
  shows "\<exists>files policy kp. h_dir h (t_peer_pub_dir t) = Some files \<and> from_dir files = Inr policy \<and>
    \<not> policy_is_empty policy \<and> key_load C (h_fs h) sk pk = Inr kp"
  using assms by (simp add: validate_one_tenant_def res_simps) blast

lemma cmd_validate_tenant:
  assumes "cmd_validate C h (Inr cfg) = Inr ()" "t \<in> set (c_tenants cfg)"
  shows "validate_one_tenant C h t cfg = Inr ()"
proof -
  obtain us where us: "try_map (\<lambda>t. map_err (\<lambda>e. ''tenant '' @ t_name t @ '': '' @ e) (validate_one_tenant C h t cfg)) (c_tenants cfg) = Inr us"
    using assms(1) by (auto simp: cmd_validate_def res_simps)
  obtain i where "i < length (c_tenants cfg)" "t = c_tenants cfg ! i" using assms(2) by (auto simp: in_set_conv_nth)
  then show ?thesis using try_map_Inr_nth [OF us, of i] by (simp add: res_simps)
qed

lemma softkey_runtime_parts:
  assumes b: "build_tenant_runtime C D h B t cfg = (Inr rt, fs')" and s: "effective_signer cfg t = Some (Softkey_Cfg sk pk)"
  shows "\<exists>files kp. h_dir h (t_peer_pub_dir t) = Some files \<and> from_dir files = Inr (tr_peer_policy rt) \<and>
    \<not> policy_is_empty (tr_peer_policy rt) \<and> key_load C (h_fs h) sk pk = Inr kp \<and>
    build_audit_log_softkey C B (h_fs h) (t_audit_log t) kp (t_name t) = (Inr (ch_log (tr_channel rt)), fs')"
proof -
  obtain files policy kp where p: "h_dir h (t_peer_pub_dir t) = Some files" "from_dir files = Inr policy" "\<not> policy_is_empty policy"
    "key_load C (h_fs h) sk pk = Inr kp"
    using b s by (auto simp: build_tenant_runtime_def Let_def res_simps split: sum.splits prod.splits)
  then show ?thesis using b build_softkey_runtime [OF p(1-3) s p(4)]
    by (auto simp: res_simps spawn_with_rotation_def spawn_inner_def split: prod.splits)
qed

end
