(* ===== verification/Startup_Theorems.thy ===== *)
theory Startup_Theorems
  imports Startup Gateway_Theorems
begin

text \<open>
  The properties of the way from a configuration to a tenant that serves: a configuration that
  passes the dry run starts, and a tenant's runtime holds a verified log of its own key. The
  concrete host of the witnesses has the key files that key generation writes.
\<close>

subsection \<open>A concrete host\<close>

definition start_crates :: log_crates where
  "start_crates = toy_log\<lparr> cbor_header := (\<lambda>h. Some [1]) \<rparr>"

lemma start_crates_ok [simp]: "mldsa_ok start_crates"
proof -
  have "mldsa_ok toy_log" by simp
  then show ?thesis unfolding mldsa_ok_def start_crates_def by simp blast
qed

lemma start_generate: "KeyPair_generate start_crates 5 = Inr demo_keypair"
  by (simp add: KeyPair_generate_def start_crates_def toy_log_def toy_crates_def demo_keypair_def)

definition start_fs :: filesystem where
  "start_fs = [''id'' \<mapsto> new_file (SK_FILE_MAGIC @ kp_sk demo_keypair) private_mode,
     ''id.pub'' \<mapsto> new_file (IDENTITY_FILE_MAGIC @ kp_pk demo_keypair) public_mode,
     ''sk'' \<mapsto> new_file (AUDIT_SK_MAGIC @ kp_sk demo_keypair) private_mode,
     ''pk'' \<mapsto> new_file (AUDIT_PK_MAGIC @ kp_pk demo_keypair) public_mode]"

definition start_host :: host where
  "start_host = \<lparr> h_fs = start_fs, h_dir = (\<lambda>d. Some [(''p.cspqid.pub'', IDENTITY_FILE_MAGIC @ kp_pk demo_keypair)]),
     h_is_dir = (\<lambda>d. True), h_env = (\<lambda>v. None), h_pem_certs = (\<lambda>p. Some [True]), h_pem_key = (\<lambda>p. True),
     h_socket_addr = (\<lambda>a. True) \<rparr>"

definition start_env :: build_env where
  "start_env = \<lparr> be_now = 0, be_rnd = replicate 16 1, be_io = demo_io, be_unix = 0, be_later = (\<lambda>i. start_fs),
     be_file_name = (\<lambda>p. Some p) \<rparr>"

lemma start_identity: "load_transport_identity start_crates start_fs ''id'' ''id.pub'' = Inr demo_keypair"
  by (rule load_transport_identity_new [OF start_crates_ok start_generate]) (simp_all add: start_fs_def)

lemma start_key: "key_load start_crates start_fs ''sk'' ''pk'' = Inr demo_keypair"
  by (rule key_load_new [OF start_crates_ok start_generate]) (simp_all add: start_fs_def)

lemma start_peers: "from_dir [(''p.cspqid.pub'', IDENTITY_FILE_MAGIC @ kp_pk demo_keypair)] = Inr {kp_pk demo_keypair}"
proof -
  have "length (kp_pk demo_keypair) = PUBLIC_KEY_LEN" by (simp add: demo_keypair_def key_lens)
  then show ?thesis
    by (simp add: from_dir_def from_keys_def load_public_def from_audit_def PublicKey_from_bytes_def ends_with_def strip_suffix_def)
qed

lemma start_tenant: "effective_signer demo_config (demo_tenant n sni) = Some (Softkey_Cfg ''sk'' ''pk'')"
  by (simp add: effective_signer_def demo_config_def demo_tenant_def)

lemma start_validates: "cmd_validate start_crates start_host (Inr demo_config) = Inr ()"
proof -
  have t: "validate_one_tenant start_crates start_host (demo_tenant n sni) demo_config = Inr ()" for n sni
    unfolding validate_one_tenant_def start_tenant
    by (simp add: start_host_def start_peers policy_is_empty_def demo_config_def demo_tenant_def start_key
        validate_tls_cert_def validate_tls_key_def split: option.splits)
  then show ?thesis using start_identity by (simp add: cmd_validate_def start_host_def demo_config_def)
qed

lemma start_works: "save_works (be_io start_env)" "cbor_header start_crates hdr \<noteq> None"
  by (simp_all add: save_works_def start_env_def demo_io_def start_crates_def)

subsection \<open>From a configuration to a runtime\<close>



text \<open>
  C26. A tenant that signs with key files only ever gets a log that verifies, whose header names
  its key and to which exactly that key is bound; a log that was there before is left as it
  is, and the tenant has at least one peer it accepts.
\<close>

theorem tenant_log_is_verified_and_its_own:
  assumes "mldsa_ok C" "build_tenant_runtime C D h B t cfg = (Inr rt, fs')" "effective_signer cfg t = Some (Softkey_Cfg sk pk)"
  shows "(\<exists>kp. key_load C (h_fs h) sk pk = Inr kp \<and> log_ok C (ch_log (tr_channel rt)) \<and>
      pubkey (header (ch_log (tr_channel rt))) = kp_pk kp \<and> al_signer (ch_log (tr_channel rt)) = Some (keypair_signer C kp)) \<and>
    (h_fs h (t_audit_log t) \<noteq> None \<longrightarrow> fs' = h_fs h) \<and> (\<exists>peer. accepts (tr_peer_policy rt) peer)"
proof -
  obtain files kp where p: "\<not> policy_is_empty (tr_peer_policy rt)" "key_load C (h_fs h) sk pk = Inr kp"
    "build_audit_log_softkey C B (h_fs h) (t_audit_log t) kp (t_name t) = (Inr (ch_log (tr_channel rt)), fs')"
    using softkey_runtime_parts [OF assms(2,3)] by blast
  have "\<exists>peer. accepts (tr_peer_policy rt) peer" using p(1) by (auto simp: policy_is_empty_def accepts_def)
  moreover have "h_fs h (t_audit_log t) \<noteq> None \<longrightarrow> fs' = h_fs h" using softkey_log_frame [OF p(3)] by blast
  ultimately show ?thesis using softkey_log_ok [OF assms(1) p(2,3)] p(2) by blast
qed

lemma start_builds:
  obtains rt fs' where
    "build_tenant_runtime start_crates demo_driver start_host start_env (demo_tenant ''a'' ''a.x'') demo_config = (Inr rt, fs')"
proof -
  have "start_fs ''a'' = None" by (simp add: start_fs_def)
  then obtain l fs' where "build_audit_log_softkey start_crates start_env start_fs ''a'' demo_keypair ''a'' = (Inr l, fs')"
    using softkey_log_created [of start_fs "''a''" start_env start_crates] start_works by blast
  moreover have "h_dir start_host (t_peer_pub_dir (demo_tenant ''a'' ''a.x'')) =
      Some [(''p.cspqid.pub'', IDENTITY_FILE_MAGIC @ kp_pk demo_keypair)]"
    "key_load start_crates (h_fs start_host) ''sk'' ''pk'' = Inr demo_keypair" "\<not> policy_is_empty {kp_pk demo_keypair}"
    by (simp_all add: start_host_def start_key policy_is_empty_def)
  note b = build_softkey_runtime [OF this(1) start_peers this(3) start_tenant this(2), of demo_driver start_env]
  ultimately show thesis using that b by (simp add: start_host_def demo_tenant_def)
qed

theorem tenant_log_is_verified_and_its_own_witness:
  "\<exists>rt fs'. build_tenant_runtime start_crates demo_driver start_host start_env (demo_tenant ''a'' ''a.x'') demo_config = (Inr rt, fs') \<and>
     log_ok start_crates (ch_log (tr_channel rt))"
proof -
  obtain rt fs' where b:
    "build_tenant_runtime start_crates demo_driver start_host start_env (demo_tenant ''a'' ''a.x'') demo_config = (Inr rt, fs')"
    by (rule start_builds)
  from tenant_log_is_verified_and_its_own [OF start_crates_ok b start_tenant] show ?thesis using b by blast
qed

text \<open>
  Generating a transport identity changes no file that exists, and what it wrote loads back.
\<close>

lemma transport_identity_round_trip:
  assumes "mldsa_ok C" "cmd_keygen C e io fs sk_path pk_path = (r, fs')"
  shows "fs p \<noteq> None \<Longrightarrow> fs' p = fs p" and "r = Inr kp \<Longrightarrow> load_transport_identity C fs' sk_path pk_path = Inr kp"
proof -
  show "fs' p = fs p" if "fs p \<noteq> None"
    using assms(2) that by (auto simp: cmd_keygen_def dest: write_keypair_frame(1) [where p = p] split: prod.splits sum.splits)
  show "load_transport_identity C fs' sk_path pk_path = Inr kp" if "r = Inr kp"
  proof -
    have g: "KeyPair_generate C e = Inr kp" and w:
      "write_keypair_files io fs sk_path pk_path (SK_FILE_MAGIC @ kp_sk kp) (IDENTITY_FILE_MAGIC @ kp_pk kp) = (Inr (), fs')"
      using assms(2) that by (auto simp: cmd_keygen_def split: prod.splits sum.splits)
    show ?thesis using load_transport_identity_new [OF assms(1) g] write_keypair_frame(3) [OF w] by blast
  qed
qed

end
