(* ===== verification/Daemon.thy ===== *)
theory Daemon
  imports Startup
begin

text \<open>
  The running daemon (\<open>qgateway/src/main.rs\<close>): the maps that the signal handler shares with the
  metrics server and the accept loops, the start of the listeners, and the handlers of \<open>SIGHUP\<close>
  (difference, hot application of limits, addition and removal of tenants), \<open>SIGUSR1\<close>,
  \<open>SIGUSR2\<close> and \<open>SIGTERM\<close>.

  Every shared map is an association list keyed by tenant name or by listen address; the locks
  make each handler one step. A task is what it serves. The record \<open>reload_env\<close> holds what a
  reload meets: the host, what building a tenant draws, the certificate files, whether the task
  of a tenant joins within the drain timeout, and the order in which a hash set is traversed.
  \<open>dm_started\<close> names the entries of \<open>tenant_state\<close> (the runtimes built before serving) whose
  audit channel is still registered.
\<close>

datatype tenant_task = Tcp_Task serve_tcp_tenant bool | Pq_Task serve_pq_tenant

record rotation_target =
  rot_log_path :: string
  rot_counter :: u64
  rot_policy :: "rotation_policy option"

record daemon =
  dm_names :: "string list"
  dm_metrics_list :: "metrics_registry list"
  dm_configs :: "tenant_config list"
  dm_admissions :: "(string \<times> hot_admission) list"
  dm_shutdowns :: "(string \<times> bool) list"
  dm_tasks :: "(string \<times> tenant_task) list"
  dm_audits :: "(string \<times> channel) list"
  dm_targets :: "(string \<times> rotation_target) list"
  dm_monitors :: "(string \<times> rotation_policy) list"
  dm_triggers :: "(string \<times> reload_trigger) list"
  dm_dispatches :: "(string \<times> hot_sni) list"
  dm_groups :: "(string \<times> bool) list"
  dm_counters :: daemon_metrics
  dm_fs :: filesystem
  dm_started :: "string list"
  dm_stopping :: bool

record reload_env =
  re_host :: host
  re_build :: "string \<Rightarrow> build_env"
  re_driver :: driver
  re_tls :: tls_files
  re_drained :: "string \<Rightarrow> bool"
  re_order :: "string list \<Rightarrow> string list"
  re_token :: "string \<Rightarrow> nat"

definition build_here :: "'a log_crates_scheme \<Rightarrow> reload_env \<Rightarrow> filesystem \<Rightarrow> tenant_config \<Rightarrow> config \<Rightarrow> (string + tenant_runtime) \<times> filesystem" where
  "build_here C E fs t cfg = build_tenant_runtime C (re_driver E) (re_host E\<lparr> h_fs := fs \<rparr>) (re_build E (t_name t)) t cfg"

definition group_label :: "string \<Rightarrow> string" where
  "group_label listen = ''sni-group:'' @ listen"

definition sni_ctx_of :: "reload_env \<Rightarrow> serve_tcp_tenant \<Rightarrow> sni_ctx" where
  "sni_ctx_of E t = \<lparr> ctx_tenant = t, ctx_runtime = re_token E (st_name t) \<rparr>"

subsection \<open>Registering a tenant\<close>

text \<open>A rotation target for every tenant, and a monitor when the policy has a trigger.\<close>

definition add_rotation :: "config \<Rightarrow> tenant_runtime \<Rightarrow> daemon \<Rightarrow> daemon" where
  "add_rotation cfg rt d =
     (let d1 = d\<lparr> dm_targets := AList.update (tr_name rt)
            \<lparr> rot_log_path = tr_log_path rt, rot_counter = 0, rot_policy = c_rotation cfg \<rparr> (dm_targets d) \<rparr>
      in case c_rotation cfg of
           Some policy \<Rightarrow>
             if has_auto_trigger policy then d1\<lparr> dm_monitors := AList.update (tr_name rt) policy (dm_monitors d1) \<rparr> else d1
         | None \<Rightarrow> d1)"

definition register_tenant :: "config \<Rightarrow> tenant_config \<Rightarrow> tenant_runtime \<Rightarrow> daemon \<Rightarrow> daemon" where
  "register_tenant cfg t rt d =
     add_rotation cfg rt (d\<lparr>
       dm_metrics_list := dm_metrics_list d @ [tr_metrics rt],
       dm_names := List.insert (tr_name rt) (dm_names d),
       dm_configs := dm_configs d @ [t],
       dm_admissions := AList.update (tr_name rt) (tr_admission rt) (dm_admissions d),
       dm_shutdowns := AList.update (tr_name rt) False (dm_shutdowns d),
       dm_audits := AList.update (tr_name rt) (tr_channel rt) (dm_audits d) \<rparr>)"

subsection \<open>Listeners\<close>

text \<open>A group of its own for the first tenant on a listen address.\<close>

definition install_group :: "tls_files \<Rightarrow> string \<Rightarrow> (string \<times> string \<times> tls_config) list \<Rightarrow> sni_ctx list \<Rightarrow> daemon \<Rightarrow> string + daemon" where
  "install_group F listen sni_entries contexts d =
     and_then (build_reloadable_multi_sni_acceptor F sni_entries (group_label listen)) (\<lambda>trigger.
     and_then (SniDispatchTable_new contexts) (\<lambda>tab.
     Inr (d\<lparr> dm_triggers := AList.update (group_label listen) trigger (dm_triggers d),
             dm_dispatches := AList.update listen (hot_sni_new tab) (dm_dispatches d),
             dm_groups := AList.update listen False (dm_groups d) \<rparr>)))"

definition spawn_sni_new_group :: "reload_env \<Rightarrow> config \<Rightarrow> tenant_config \<Rightarrow> tls_config \<Rightarrow> string \<Rightarrow> daemon \<Rightarrow> bool \<times> daemon" where
  "spawn_sni_new_group E cfg t tls sni d =
     (case and_then (map_err (\<lambda>_. ''resolve failed'') (resolve_one_serve_tcp cfg t)) (\<lambda>resolved.
           install_group (re_tls E) (t_listen t) [(sni, t_name t, tls)] [sni_ctx_of E resolved] d) of
        Inl _ \<Rightarrow> (False, d)
      | Inr d' \<Rightarrow> (True, d'))"

text \<open>Joining a running group: the successor table first, then the certificates, then the swap.\<close>

definition spawn_sni_join :: "reload_env \<Rightarrow> config \<Rightarrow> tenant_config \<Rightarrow> tls_config \<Rightarrow> string \<Rightarrow> hot_sni \<Rightarrow> daemon \<Rightarrow> bool \<times> daemon" where
  "spawn_sni_join E cfg t tls sni disp d =
     (case and_then (map_err (\<lambda>_. ''resolve failed'') (resolve_one_serve_tcp cfg t)) (\<lambda>resolved.
           and_then (with_tenant_added (hot_sni_load disp) (sni_ctx_of E resolved)) (\<lambda>new_tab.
           and_then (ok_or ''no reload trigger for group'' (map_of (dm_triggers d) (group_label (t_listen t)))) (\<lambda>trigger.
           Inr (new_tab, trigger)))) of
        Inl _ \<Rightarrow> (False, d)
      | Inr (new_tab, trigger) \<Rightarrow>
          (case add_sni_entry (re_tls E) trigger (t_name t) sni tls of
             (Inl _, trigger') \<Rightarrow>
               (False, d\<lparr> dm_triggers := AList.update (group_label (t_listen t)) trigger' (dm_triggers d) \<rparr>)
           | (Inr _, trigger') \<Rightarrow>
               (True, d\<lparr> dm_triggers := AList.update (group_label (t_listen t)) trigger' (dm_triggers d),
                         dm_dispatches := AList.update (t_listen t) (snd (hot_sni_swap disp new_tab)) (dm_dispatches d) \<rparr>)))"

text \<open>A listener of its own, with its certificate's reload trigger when TLS is configured.\<close>

definition spawn_tcp_single :: "reload_env \<Rightarrow> config \<Rightarrow> tenant_config \<Rightarrow> daemon \<Rightarrow> bool \<times> daemon" where
  "spawn_tcp_single E cfg t d =
     (case (case t_tls t of
              None \<Rightarrow> Inr d
            | Some tls \<Rightarrow>
                and_then (build_reloadable_acceptor (re_tls E) tls (t_name t)) (\<lambda>trigger.
                Inr (d\<lparr> dm_triggers := AList.update (t_name t) trigger (dm_triggers d) \<rparr>))) of
        Inl _ \<Rightarrow> (False, d)
      | Inr d1 \<Rightarrow>
          (case resolve_one_serve_tcp cfg t of
             Inl _ \<Rightarrow> (False, d1\<lparr> dm_triggers := AList.delete (t_name t) (dm_triggers d1) \<rparr>)
           | Inr resolved \<Rightarrow>
               (True, d1\<lparr> dm_tasks := AList.update (t_name t) (Tcp_Task resolved (t_tls t \<noteq> None)) (dm_tasks d1) \<rparr>)))"

definition spawn_pq :: "config \<Rightarrow> tenant_config \<Rightarrow> daemon \<Rightarrow> bool \<times> daemon" where
  "spawn_pq cfg t d =
     (case resolve_one_serve_pq cfg t of
        Inl _ \<Rightarrow> (False, d)
      | Inr resolved \<Rightarrow> (True, d\<lparr> dm_tasks := AList.update (t_name t) (Pq_Task resolved) (dm_tasks d) \<rparr>))"

definition spawn_accept_loop :: "reload_env \<Rightarrow> config \<Rightarrow> tenant_config \<Rightarrow> daemon \<Rightarrow> bool \<times> daemon" where
  "spawn_accept_loop E cfg t d =
     (case c_role cfg of
        ServePq \<Rightarrow> spawn_pq cfg t d
      | ServeTcp \<Rightarrow>
          (case t_sni t of
             None \<Rightarrow> spawn_tcp_single E cfg t d
           | Some sni \<Rightarrow>
               (case t_tls t of
                  None \<Rightarrow> (False, d)
                | Some tls \<Rightarrow>
                    (case map_of (dm_dispatches d) (t_listen t) of
                       None \<Rightarrow> spawn_sni_new_group E cfg t tls sni d
                     | Some disp \<Rightarrow> spawn_sni_join E cfg t tls sni disp d))))"

subsection \<open>Starting\<close>

text \<open>The loop that builds the runtimes, each on the files the one before left.\<close>

fun build_all :: "'a log_crates_scheme \<Rightarrow> reload_env \<Rightarrow> config \<Rightarrow> filesystem \<Rightarrow> tenant_config list \<Rightarrow> string + tenant_runtime list \<times> filesystem" where
  "build_all C E cfg fs [] = Inr ([], fs)"
| "build_all C E cfg fs (t # ts) =
     (case build_here C E fs t cfg of
        (Inl e, _) \<Rightarrow> Inl e
      | (Inr rt, fs1) \<Rightarrow> and_then (build_all C E cfg fs1 ts) (\<lambda>(rts, fs2). Inr (rt # rts, fs2)))"

definition start_group :: "reload_env \<Rightarrow> tls_listener_group \<Rightarrow> daemon \<Rightarrow> string + daemon" where
  "start_group E g d =
     (if \<not> sni_dispatch g then
        (case g_tenants g of
           [] \<Rightarrow> Inl ''panic: unwrap on an empty group''
         | t # _ \<Rightarrow>
             and_then (case st_tls t of
                 None \<Rightarrow> Inr d
               | Some tls \<Rightarrow>
                   and_then (build_reloadable_acceptor (re_tls E) tls (st_name t)) (\<lambda>trigger.
                   Inr (d\<lparr> dm_triggers := AList.update (st_name t) trigger (dm_triggers d) \<rparr>))) (\<lambda>d1.
             Inr (d1\<lparr> dm_tasks := AList.update (st_name t) (Tcp_Task t (st_tls t \<noteq> None)) (dm_tasks d1) \<rparr>)))
      else
        and_then (try_map (\<lambda>t.
            and_then (ok_or ''internal: multi-tenant group member has no sni'' (st_sni t)) (\<lambda>sni.
            and_then (ok_or ''internal: multi-tenant group member has no tls'' (st_tls t)) (\<lambda>tls.
            Inr (sni, st_name t, tls)))) (g_tenants g)) (\<lambda>sni_entries.
        install_group (re_tls E) (g_listen g) sni_entries (map (sni_ctx_of E) (g_tenants g)) d))"

definition start_pq :: "serve_pq_tenant list \<Rightarrow> daemon \<Rightarrow> daemon" where
  "start_pq ts d = d\<lparr> dm_tasks := fold (\<lambda>t. AList.update (sp_name t) (Pq_Task t)) ts (dm_tasks d) \<rparr>"

definition empty_daemon :: "filesystem \<Rightarrow> daemon" where
  "empty_daemon fs = \<lparr> dm_names = [], dm_metrics_list = [], dm_configs = [], dm_admissions = [], dm_shutdowns = [],
     dm_tasks = [], dm_audits = [], dm_targets = [], dm_monitors = [], dm_triggers = [], dm_dispatches = [],
     dm_groups = [], dm_counters = DaemonMetrics_default, dm_fs = fs, dm_started = [], dm_stopping = False \<rparr>"

text \<open>
  \<open>cmd_run\<close> up to the point where it waits. \<open>bound\<close> says whether the metrics listener was bound.
\<close>

definition start_daemon :: "'a log_crates_scheme \<Rightarrow> reload_env \<Rightarrow> bool \<Rightarrow> config cresult \<Rightarrow> string + daemon" where
  "start_daemon C E bound loaded =
     and_then (map_err (\<lambda>_. ''loading config'') loaded) (\<lambda>cfg.
     and_then (load_transport_identity C (h_fs (re_host E)) (c_identity_key cfg) (c_identity_pub cfg)) (\<lambda>identity.
     and_then (build_all C E cfg (h_fs (re_host E)) (c_tenants cfg)) (\<lambda>(rts, fs).
     and_then (ensure bound ''binding metrics'') (\<lambda>_.
     let d = fold (\<lambda>(t, rt). register_tenant cfg t rt) (zip (c_tenants cfg) rts) (empty_daemon fs\<lparr> dm_started := map tr_name rts \<rparr>) in
     case c_role cfg of
       ServeTcp \<Rightarrow>
         and_then (map_err (\<lambda>_. ''resolve serve-tcp groups'') (resolve_serve_tcp_groups cfg)) (\<lambda>groups.
         try_fold (\<lambda>d g. start_group E g d) d groups)
     | ServePq \<Rightarrow>
         and_then (map_err (\<lambda>_. ''resolve serve-pq'') (resolve_serve_pq cfg)) (\<lambda>resolved. Inr (start_pq resolved d))))))"

subsection \<open>Counters\<close>

abbreviation count :: "((u64 \<Rightarrow> u64) \<Rightarrow> daemon_metrics \<Rightarrow> daemon_metrics) \<Rightarrow> daemon \<Rightarrow> daemon" where
  "count upd d \<equiv> d\<lparr> dm_counters := upd (\<lambda>n. n + 1) (dm_counters d) \<rparr>"

subsection \<open>Changed tenants\<close>

definition find_tenant :: "string \<Rightarrow> tenant_config list \<Rightarrow> tenant_config option" where
  "find_tenant name ts = List.find (\<lambda>t. t_name t = name) ts"

definition apply_changes :: "config \<Rightarrow> string \<Rightarrow> daemon \<Rightarrow> daemon" where
  "apply_changes cfg name d =
     (case (find_tenant name (dm_configs d), find_tenant name (c_tenants cfg)) of
        (Some p, Some n) \<Rightarrow>
          (let changes = material_changes p n;
               hot_fields = filter (\<lambda>c. ch_kind c = Hot) changes;
               cold_fields = filter (\<lambda>c. ch_kind c = Cold) changes;
               d1 = (if hot_fields \<noteq> [] then
                       count config_changed_hot_total_update
                         (case map_of (dm_admissions d) name of
                            Some controller \<Rightarrow>
                              count limits_hot_applied_total_update
                                (d\<lparr> dm_admissions := AList.update name (set_limits (t_limits n) controller) (dm_admissions d) \<rparr>)
                          | None \<Rightarrow> d)
                     else d)
           in if cold_fields \<noteq> [] then count config_changed_cold_total_update d1 else d1)
      | _ \<Rightarrow> d)"

subsection \<open>Adding and removing\<close>

definition add_tenant :: "'a log_crates_scheme \<Rightarrow> reload_env \<Rightarrow> config \<Rightarrow> string \<Rightarrow> daemon \<Rightarrow> daemon" where
  "add_tenant C E cfg name d =
     (case find_tenant name (c_tenants cfg) of
        None \<Rightarrow> d
      | Some t \<Rightarrow>
          (case build_here C E (dm_fs d) t cfg of
             (Inl _, fs) \<Rightarrow> count tenants_add_failed_total_update (d\<lparr> dm_fs := fs \<rparr>)
           | (Inr rt, fs) \<Rightarrow>
               (case spawn_accept_loop E cfg t (register_tenant cfg t rt (d\<lparr> dm_fs := fs \<rparr>)) of
                  (spawned, d') \<Rightarrow> count tenants_added_total_update d')))"

text \<open>
  What every removal takes out of the shared maps. The audit channel is closed before it is
  dropped, so a tenant the daemon started with has nothing left to close at the end.
\<close>

definition purge_tenant :: "string \<Rightarrow> daemon \<Rightarrow> daemon" where
  "purge_tenant name d = d\<lparr>
     dm_names := removeAll name (dm_names d),
     dm_admissions := AList.delete name (dm_admissions d),
     dm_audits := AList.delete name (dm_audits d),
     dm_targets := AList.delete name (dm_targets d),
     dm_monitors := AList.delete name (dm_monitors d),
     dm_configs := filter (\<lambda>c. t_name c \<noteq> name) (dm_configs d),
     dm_metrics_list := filter (\<lambda>m. reg_tenant m \<noteq> name) (dm_metrics_list d),
     dm_started := removeAll name (dm_started d) \<rparr>"

definition drain_group :: "string \<Rightarrow> daemon \<Rightarrow> daemon" where
  "drain_group listen d = d\<lparr>
     dm_groups := AList.delete listen (dm_groups d),
     dm_dispatches := AList.delete listen (dm_dispatches d),
     dm_triggers := AList.delete (group_label listen) (dm_triggers d) \<rparr>"

definition remove_sni_tenant :: "reload_env \<Rightarrow> string \<Rightarrow> string \<Rightarrow> hot_sni \<Rightarrow> daemon \<Rightarrow> daemon" where
  "remove_sni_tenant E name listen disp d =
     (case with_tenant_removed (hot_sni_load disp) name of
        None \<Rightarrow> d
      | Some new_tab \<Rightarrow>
          (case map_of (dm_triggers d) (group_label listen) of
             None \<Rightarrow> count tenants_remove_failed_total_update d
           | Some trigger \<Rightarrow>
               (case remove_sni_entry (re_tls E) trigger name of
                  (Inl _, trigger') \<Rightarrow>
                    count tenants_remove_failed_total_update
                      (d\<lparr> dm_triggers := AList.update (group_label listen) trigger' (dm_triggers d) \<rparr>)
                | (Inr _, trigger') \<Rightarrow>
                    (let d1 = count tenants_removed_total_update (purge_tenant name (d\<lparr>
                            dm_triggers := AList.update (group_label listen) trigger' (dm_triggers d),
                            dm_dispatches := AList.update listen (snd (hot_sni_swap disp new_tab)) (dm_dispatches d) \<rparr>))
                     in if tenant_names new_tab = [] then drain_group listen d1 else d1))))"

definition remove_single_tenant :: "reload_env \<Rightarrow> string \<Rightarrow> daemon \<Rightarrow> daemon" where
  "remove_single_tenant E name d =
     (case map_of (dm_shutdowns d) name of
        None \<Rightarrow> d
      | Some _ \<Rightarrow>
          (let d1 = d\<lparr> dm_shutdowns := AList.update name True (dm_shutdowns d) \<rparr> in
           case map_of (dm_tasks d1) name of
             None \<Rightarrow> d1
           | Some _ \<Rightarrow>
               (let d2 = d1\<lparr> dm_tasks := AList.delete name (dm_tasks d1) \<rparr> in
                if re_drained E name
                then count tenants_removed_total_update
                       ((purge_tenant name d2)\<lparr> dm_shutdowns := AList.delete name (dm_shutdowns d2),
                                                dm_triggers := AList.delete name (dm_triggers d2) \<rparr>)
                else count tenants_remove_failed_total_update d2)))"

definition remove_tenant :: "reload_env \<Rightarrow> string \<Rightarrow> daemon \<Rightarrow> daemon" where
  "remove_tenant E name d =
     (case List.find (\<lambda>(listen, disp). name \<in> set (tenant_names (hot_sni_load disp))) (dm_dispatches d) of
        Some (listen, disp) \<Rightarrow> remove_sni_tenant E name listen disp d
      | None \<Rightarrow> remove_single_tenant E name d)"

subsection \<open>Signals\<close>

definition sighup :: "'a log_crates_scheme \<Rightarrow> reload_env \<Rightarrow> config cresult \<Rightarrow> daemon \<Rightarrow> daemon" where
  "sighup C E loaded d =
     (case loaded of
        Inl _ \<Rightarrow> count sighup_failed_total_update d
      | Inr cfg \<Rightarrow>
          (let d0 = count sighup_cycles_total_update d;
               current = dm_names d0;
               new = remdups (map t_name (c_tenants cfg));
               added = re_order E (filter (\<lambda>n. n \<notin> set current) new);
               removed = re_order E (filter (\<lambda>n. n \<notin> set new) current);
               unchanged = re_order E (filter (\<lambda>n. n \<in> set current) new);
               d1 = fold (apply_changes cfg) unchanged d0;
               d2 = fold (add_tenant C E cfg) added d1
           in fold (remove_tenant E) removed d2))"

definition sigusr1 :: "tls_files \<Rightarrow> daemon \<Rightarrow> daemon" where
  "sigusr1 F d = d\<lparr> dm_triggers := map (\<lambda>(k, tr). (k, snd (reload F tr))) (dm_triggers d) \<rparr>"

text \<open>The name of the archive a target rotates to, and its label.\<close>

definition rotation_names :: "(timestamp \<Rightarrow> string) \<Rightarrow> timestamp \<Rightarrow> string \<Rightarrow> rotation_target \<Rightarrow> string \<times> string" where
  "rotation_names fmt_ts now name tgt =
     (let n = rot_counter tgt + 1;
          archive_name = (case rot_policy tgt of
              Some p \<Rightarrow> render_archive_name fmt_ts p name n now
            | None \<Rightarrow> name @ ''-'' @ fmt_ts now @ ''.qa'')
      in (sibling_path (rot_log_path tgt) archive_name, name @ ''-'' @ dec_nat (unat n)))"

definition sigusr2 :: "(timestamp \<Rightarrow> string) \<Rightarrow> timestamp \<Rightarrow> daemon \<Rightarrow> daemon" where
  "sigusr2 fmt_ts now d = d\<lparr>
     dm_audits := map (\<lambda>(name, ch). (name,
        case map_of (dm_targets d) name of
          None \<Rightarrow> ch
        | Some tgt \<Rightarrow> (case rotation_names fmt_ts now name tgt of (archive, lbl) \<Rightarrow> request_rotation_silent ch archive lbl))) (dm_audits d),
     dm_targets := map (\<lambda>(name, tgt). (name, tgt\<lparr> rot_counter := rot_counter tgt + 1 \<rparr>)) (dm_targets d) \<rparr>"

definition sigterm :: "daemon \<Rightarrow> daemon" where
  "sigterm d = d\<lparr> dm_shutdowns := map (\<lambda>(n, _). (n, True)) (dm_shutdowns d), dm_stopping := True \<rparr>"

text \<open>
  The end of \<open>cmd_run\<close>: groups, tenants and monitors are drained, then the channels of
  \<open>tenant_state\<close> are closed, which holds the tenants the daemon started with.
\<close>

definition final_drain :: "daemon \<Rightarrow> daemon" where
  "final_drain d = d\<lparr> dm_groups := [], dm_tasks := [], dm_monitors := [],
     dm_audits := map (\<lambda>(n, ch). (n, if n \<in> set (dm_started d) then shutdown_begin ch else ch)) (dm_audits d) \<rparr>"

datatype 'e signal = SigHup "'e" "config cresult" | SigUsr1 tls_files | SigUsr2 "timestamp \<Rightarrow> string" timestamp | SigTerm

fun on_signal :: "'a log_crates_scheme \<Rightarrow> daemon \<Rightarrow> reload_env signal \<Rightarrow> daemon" where
  "on_signal C d (SigHup E loaded) = (if dm_stopping d then d else sighup C E loaded d)"
| "on_signal C d (SigUsr1 F) = (if dm_stopping d then d else sigusr1 F d)"
| "on_signal C d (SigUsr2 fmt_ts now) = (if dm_stopping d then d else sigusr2 fmt_ts now d)"
| "on_signal C d SigTerm = (if dm_stopping d then d else sigterm d)"

subsection \<open>The metrics server\<close>

definition http_response :: "string \<Rightarrow> string \<Rightarrow> string \<Rightarrow> string" where
  "http_response status ctype body =
     (let crlf = [CHR 0x0D, CHR 0x0A] in
      ''HTTP/1.1 '' @ status @ crlf @ ''Content-Type: '' @ ctype @ crlf @ ''Content-Length: '' @ dec_nat (length body) @ crlf @
      ''Connection: close'' @ crlf @ crlf @ body)"

definition serve_metrics :: "(u64 \<Rightarrow> string) \<Rightarrow> daemon \<Rightarrow> string \<Rightarrow> string" where
  "serve_metrics f64_display d path =
     (if path = ''/healthz'' then http_response ''200 OK'' ''text/plain'' (''ok'' @ nl)
      else if path = ''/metrics'' then
        http_response ''200 OK'' ''text/plain; version=0.0.4''
          (render_prometheus f64_display (dm_metrics_list d) @ render_daemon_metrics (dm_counters d))
      else http_response ''404 Not Found'' ''text/plain'' (''not found'' @ nl))"

end
