(* ===== verification/Daemon_Theorems.thy ===== *)
theory Daemon_Theorems
  imports Daemon Startup_Theorems
begin

text \<open>
  The properties of the daemon: what starting gives a tenant, and what a reload does to the shared
  maps, to the tenants it does not concern and to the limits of the ones it changes.
\<close>

subsection \<open>The shared maps agree\<close>

definition registry_ok :: "daemon \<Rightarrow> bool" where
  "registry_ok d \<longleftrightarrow>
     dom (map_of (dm_admissions d)) = set (dm_names d) \<and> dom (map_of (dm_audits d)) = set (dm_names d) \<and>
     dom (map_of (dm_targets d)) = set (dm_names d) \<and> t_name ` set (dm_configs d) = set (dm_names d) \<and>
     reg_tenant ` set (dm_metrics_list d) = set (dm_names d) \<and> set (dm_names d) \<subseteq> dom (map_of (dm_shutdowns d))"

lemma update_dom: "dom (map_of (AList.update k v m)) = insert k (dom (map_of m))"
  by (simp add: update_conv')

lemma delete_dom: "dom (map_of (AList.delete k m)) = dom (map_of m) - {k}"
  by (simp add: delete_conv')

lemmas alist_doms = update_dom delete_dom

text \<open>What the maps of the tenants are, without the listeners.\<close>

definition registry_of :: "daemon \<Rightarrow> daemon" where
  "registry_of d = d\<lparr> dm_tasks := [], dm_triggers := [], dm_dispatches := [], dm_groups := [] \<rparr>"

lemma registry_ok_of: "registry_ok (registry_of d) \<longleftrightarrow> registry_ok d"
  by (simp add: registry_ok_def registry_of_def)

lemma install_group_registry: "install_group F l es cs d = Inr d' \<Longrightarrow> registry_of d' = registry_of d"
  by (auto simp: install_group_def registry_of_def res_simps)

lemma spawn_registry: "spawn_accept_loop E cfg t d = (b, d') \<Longrightarrow> registry_of d' = registry_of d"
proof -
  have 1: "registry_of (snd (spawn_sni_new_group E cfg t tls sni d)) = registry_of d" for tls sni
    by (auto simp: spawn_sni_new_group_def res_simps dest: install_group_registry split: sum.splits)
  have 2: "registry_of (snd (spawn_sni_join E cfg t tls sni disp d)) = registry_of d" for tls sni disp
    by (auto simp: spawn_sni_join_def registry_of_def split: sum.splits prod.splits)
  have 3: "registry_of (snd (spawn_tcp_single E cfg t d)) = registry_of d"
    by (auto simp: spawn_tcp_single_def registry_of_def res_simps split: sum.splits option.splits)
  have 4: "registry_of (snd (spawn_pq cfg t d)) = registry_of d"
    by (auto simp: spawn_pq_def registry_of_def split: sum.splits)
  have "registry_of (snd (spawn_accept_loop E cfg t d)) = registry_of d"
    by (simp add: spawn_accept_loop_def 1 2 3 4 split: role.splits option.splits)
  moreover assume "spawn_accept_loop E cfg t d = (b, d')"
  ultimately show ?thesis by simp
qed

lemma add_rotation_registry:
  "registry_ok (d\<lparr> dm_targets := AList.update (tr_name rt) x (dm_targets d) \<rparr>) \<Longrightarrow> registry_ok (add_rotation cfg rt d)"
  by (simp add: add_rotation_def registry_ok_def Let_def alist_doms split: option.splits)

lemma build_names:
  "build_tenant_runtime C D h B t cfg = (Inr rt, fs') \<Longrightarrow> tr_name rt = t_name t \<and> reg_tenant (tr_metrics rt) = t_name t"
  by (auto simp: build_tenant_runtime_def Let_def res_simps split: sum.splits prod.splits)

lemma register_registry:
  assumes "registry_ok d" "tr_name rt = t_name t" "reg_tenant (tr_metrics rt) = t_name t"
  shows "registry_ok (register_tenant cfg t rt d)"
  unfolding register_tenant_def
  by (rule add_rotation_registry) (use assms in \<open>auto simp: registry_ok_def alist_doms\<close>)

lemma count_registry [simp]: "registry_ok (d\<lparr> dm_counters := c \<rparr>) = registry_ok d"
  by (simp add: registry_ok_def)

lemma add_tenant_registry:
  assumes "registry_ok d"
  shows "registry_ok (add_tenant C E cfg name d)"
proof (cases "find_tenant name (c_tenants cfg)")
  case (Some t)
  obtain r fs where b: "build_here C E (dm_fs d) t cfg = (r, fs)" by (meson surj_pair)
  show ?thesis
  proof (cases r)
    case (Inr rt)
    obtain sp d' where s: "spawn_accept_loop E cfg t (register_tenant cfg t rt (d\<lparr> dm_fs := fs \<rparr>)) = (sp, d')"
      by (meson surj_pair)
    have "registry_ok (d\<lparr> dm_fs := fs \<rparr>)" using assms by (simp add: registry_ok_def)
    moreover have "tr_name rt = t_name t \<and> reg_tenant (tr_metrics rt) = t_name t"
      using b Inr unfolding build_here_def by (auto dest: build_names)
    ultimately have "registry_ok (register_tenant cfg t rt (d\<lparr> dm_fs := fs \<rparr>))"
      by (simp add: register_registry)
    then have "registry_ok d'" using spawn_registry [OF s] registry_ok_of by metis
    then show ?thesis using Some b Inr s by (simp add: add_tenant_def)
  qed (use assms Some b in \<open>simp add: add_tenant_def registry_ok_def\<close>)
qed (use assms in \<open>simp add: add_tenant_def\<close>)

lemma purge_registry:
  assumes "registry_ok d"
  shows "registry_ok (purge_tenant name d)"
  using assms by (auto simp: registry_ok_def purge_tenant_def alist_doms)

lemma remove_tenant_registry:
  assumes "registry_ok d"
  shows "registry_ok (remove_tenant E name d)"
proof -
  have sni: "registry_ok (remove_sni_tenant E name listen disp d)" for listen disp
  proof -
    have "registry_ok (purge_tenant name (d\<lparr> dm_triggers := x, dm_dispatches := y \<rparr>))" for x y
      using assms by (intro purge_registry) (simp add: registry_ok_def)
    then show ?thesis using assms
      by (simp add: remove_sni_tenant_def Let_def drain_group_def registry_ok_def split: option.splits prod.splits sum.splits)
  qed
  have p: "registry_ok (purge_tenant name (d\<lparr> dm_shutdowns := AList.update name True (dm_shutdowns d), dm_tasks := y \<rparr>))" for y
    using assms by (intro purge_registry) (auto simp: registry_ok_def alist_doms)
  have "registry_ok (remove_single_tenant E name d)"
    using assms p [of "AList.delete name (dm_tasks d)"]
    by (auto simp: remove_single_tenant_def Let_def registry_ok_def alist_doms purge_tenant_def split: option.splits)
  then show ?thesis using sni by (simp add: remove_tenant_def split: option.splits prod.splits)
qed

lemma apply_changes_registry:
  assumes "registry_ok d"
  shows "registry_ok (apply_changes cfg name d)"
  using assms
  by (auto simp: apply_changes_def registry_ok_def Let_def alist_doms split: option.splits)

lemma fold_registry: "(\<And>n d. registry_ok d \<Longrightarrow> registry_ok (f n d)) \<Longrightarrow> registry_ok d \<Longrightarrow> registry_ok (fold f xs d)"
  by (induction xs arbitrary: d) auto

lemma sighup_registry:
  assumes "registry_ok d"
  shows "registry_ok (sighup C E loaded d)"
  using assms
  by (cases loaded)
     (auto simp: sighup_def Let_def intro!: fold_registry remove_tenant_registry add_tenant_registry apply_changes_registry)

lemma map_of_map_vals: "map_of (map (\<lambda>(k, v). (k, f k v)) m) = (\<lambda>k. map_option (f k) (map_of m k))"
  by (induction m) auto

lemma map_of_map_const: "map_of (map (\<lambda>(k, v). (k, c)) m) = (\<lambda>k. map_option (\<lambda>_. c) (map_of m k))"
  by (induction m) auto

lemma signal_registry: "registry_ok d \<Longrightarrow> registry_ok (on_signal C d s)"
proof (cases s)
  case (SigHup E loaded)
  then show "registry_ok d \<Longrightarrow> ?thesis" by (simp add: sighup_registry)
next
  case (SigUsr2 fmt_ts now)
  then show "registry_ok d \<Longrightarrow> ?thesis"
    by (simp add: sigusr2_def registry_ok_def map_of_map_vals dom_def)
next
  case SigTerm
  then show "registry_ok d \<Longrightarrow> ?thesis"
    by (auto simp: sigterm_def registry_ok_def map_of_map_const dom_def subset_iff)
qed (simp add: sigusr1_def registry_ok_def)

interpretation daemon_run: step_invariant "on_signal C" registry_ok for C
  by unfold_locales (rule signal_registry)


subsection \<open>What concerns one tenant\<close>

text \<open>The entries of a tenant in the shared maps.\<close>

record tenant_view =
  tv_named :: bool
  tv_config :: "tenant_config option"
  tv_admission :: "hot_admission option"
  tv_audit :: "channel option"
  tv_target :: "rotation_target option"
  tv_task :: "tenant_task option"
  tv_shutdown :: "bool option"
  tv_monitor :: "rotation_policy option"

definition view :: "string \<Rightarrow> daemon \<Rightarrow> tenant_view" where
  "view n d = \<lparr> tv_named = (n \<in> set (dm_names d)), tv_config = find_tenant n (dm_configs d),
     tv_admission = map_of (dm_admissions d) n, tv_audit = map_of (dm_audits d) n, tv_target = map_of (dm_targets d) n,
     tv_task = map_of (dm_tasks d) n, tv_shutdown = map_of (dm_shutdowns d) n, tv_monitor = map_of (dm_monitors d) n \<rparr>"

lemmas alist_maps = update_conv' delete_conv'

lemma find_tenant_append: "t_name t \<noteq> n \<Longrightarrow> find_tenant n (ts @ [t]) = find_tenant n ts"
  by (induction ts) (simp_all add: find_tenant_def)

lemma find_tenant_filter: "m \<noteq> n \<Longrightarrow> find_tenant n (filter (\<lambda>c. t_name c \<noteq> m) ts) = find_tenant n ts"
  by (induction ts) (auto simp: find_tenant_def)

lemma find_tenant_name: "find_tenant n ts = Some t \<Longrightarrow> t_name t = n"
  by (auto simp: find_tenant_def find_Some_iff)

lemmas view_simps = view_def alist_maps find_tenant_append find_tenant_filter

lemma apply_changes_frame: "m \<noteq> n \<Longrightarrow> view n (apply_changes cfg m d) = view n d"
  by (simp add: apply_changes_def view_simps Let_def split: option.splits)

lemma register_frame:
  "tr_name rt \<noteq> n \<Longrightarrow> t_name t \<noteq> n \<Longrightarrow> view n (register_tenant cfg t rt d) = view n d"
  by (simp add: register_tenant_def add_rotation_def view_simps Let_def split: option.splits)

lemma spawn_frame:
  assumes "t_name t \<noteq> n"
  shows "view n (snd (spawn_accept_loop E cfg t d)) = view n d"
proof -
  have "view n (snd (spawn_sni_new_group E cfg t tls sni d)) = view n d" for tls sni
    by (auto simp: spawn_sni_new_group_def install_group_def view_simps res_simps split: sum.splits)
  moreover have "view n (snd (spawn_sni_join E cfg t tls sni disp d)) = view n d" for tls sni disp
    by (auto simp: spawn_sni_join_def view_simps split: sum.splits prod.splits)
  moreover have "view n (snd (spawn_tcp_single E cfg t d)) = view n d"
    using assms by (auto simp: spawn_tcp_single_def view_simps res_simps split: sum.splits option.splits)
  moreover have "view n (snd (spawn_pq cfg t d)) = view n d"
    using assms by (auto simp: spawn_pq_def view_simps split: sum.splits)
  ultimately show ?thesis by (simp add: spawn_accept_loop_def split: role.splits option.splits)
qed

lemma view_fs [simp]: "view n (d\<lparr> dm_fs := fs \<rparr>) = view n d"
  by (simp add: view_def)

lemma view_counters [simp]: "view n (d\<lparr> dm_counters := c \<rparr>) = view n d"
  by (simp add: view_def)

lemma add_tenant_frame:
  assumes "m \<noteq> n"
  shows "view n (add_tenant C E cfg m d) = view n d"
proof (cases "find_tenant m (c_tenants cfg)")
  case (Some t)
  then have t: "t_name t \<noteq> n" using assms find_tenant_name by blast
  obtain r fs where b: "build_here C E (dm_fs d) t cfg = (r, fs)" by (meson surj_pair)
  show ?thesis
  proof (cases r)
    case (Inr rt)
    then have "tr_name rt \<noteq> n" using b t unfolding build_here_def by (auto dest: build_names)
    then show ?thesis using Some b Inr t
        spawn_frame [OF t, of E cfg "register_tenant cfg t rt (d\<lparr> dm_fs := fs \<rparr>)"]
      by (auto simp: add_tenant_def register_frame split: prod.split)
  qed (use Some b in \<open>simp add: add_tenant_def\<close>)
qed (simp add: add_tenant_def)

lemma view_listeners [simp]:
  "view n (d\<lparr> dm_triggers := a \<rparr>) = view n d" "view n (d\<lparr> dm_dispatches := b \<rparr>) = view n d" "view n (d\<lparr> dm_groups := g \<rparr>) = view n d"
  by (simp_all add: view_def)

lemma purge_frame: "m \<noteq> n \<Longrightarrow> view n (purge_tenant m d) = view n d"
  by (simp add: purge_tenant_def view_simps)

lemma view_update_shutdown: "m \<noteq> n \<Longrightarrow> view n (d\<lparr> dm_shutdowns := AList.update m b (dm_shutdowns d) \<rparr>) = view n d"
  by (simp add: view_simps)

lemma view_delete_task: "m \<noteq> n \<Longrightarrow> view n (d\<lparr> dm_tasks := AList.delete m (dm_tasks d) \<rparr>) = view n d"
  by (simp add: view_simps)

lemma view_delete_shutdown:
  "m \<noteq> n \<Longrightarrow> map_of s n = map_of (dm_shutdowns d) n \<Longrightarrow> view n (d\<lparr> dm_shutdowns := AList.delete m s \<rparr>) = view n d"
  by (simp add: view_simps)

lemma remove_sni_frame:
  assumes "m \<noteq> n"
  shows "view n (remove_sni_tenant E m listen disp d) = view n d"
  unfolding remove_sni_tenant_def Let_def drain_group_def
  by (auto simp: purge_frame assms split: option.splits prod.splits sum.splits)

lemma remove_single_frame:
  assumes "m \<noteq> n"
  shows "view n (remove_single_tenant E m d) = view n d"
proof -
  let ?d = "d\<lparr> dm_shutdowns := AList.update m True (dm_shutdowns d), dm_tasks := AList.delete m (dm_tasks d) \<rparr>"
  have d: "view n ?d = view n d" using assms by (simp add: view_simps)
  have "view n ((purge_tenant m ?d)\<lparr> dm_shutdowns := AList.delete m s \<rparr>) = view n d"
    if "map_of s n = map_of (dm_shutdowns d) n" for s
    using view_delete_shutdown [OF assms, of s "purge_tenant m ?d"] purge_frame [OF assms, of ?d] d that assms
    by (simp add: purge_tenant_def alist_maps)
  then show ?thesis using assms d
    by (auto simp: remove_single_tenant_def Let_def view_update_shutdown alist_maps split: option.splits)
qed

lemma remove_tenant_frame: "m \<noteq> n \<Longrightarrow> view n (remove_tenant E m d) = view n d"
  by (simp add: remove_tenant_def remove_sni_frame remove_single_frame split: option.splits prod.splits)

lemma fold_frame: "(\<And>m d. m \<noteq> n \<Longrightarrow> view n (f m d) = view n d) \<Longrightarrow> n \<notin> set xs \<Longrightarrow> view n (fold f xs d) = view n d"
  by (induction xs arbitrary: d) auto

lemmas reload_frames = fold_frame [OF apply_changes_frame] fold_frame [OF add_tenant_frame] fold_frame [OF remove_tenant_frame]

text \<open>Traversing a hash set visits every element once.\<close>

definition traversal_ok :: "reload_env \<Rightarrow> bool" where
  "traversal_ok E \<longleftrightarrow> (\<forall>xs. mset (re_order E xs) = mset xs)"

lemma traversal_set: "traversal_ok E \<Longrightarrow> set (re_order E xs) = set xs"
  unfolding traversal_ok_def by (metis set_mset_mset)

lemma traversal_distinct: "traversal_ok E \<Longrightarrow> distinct (re_order E xs) = distinct xs"
  unfolding traversal_ok_def by (metis mset_eq_imp_distinct_iff)

lemma no_hot_change: "filter (\<lambda>c. ch_kind c = Hot) (material_changes p q) = [] \<longleftrightarrow> t_limits p = t_limits q"
  by (simp add: material_changes_def change_eqs)

lemma apply_changes_view:
  assumes "tv_config (view n d) = Some p" "find_tenant n (c_tenants cfg) = Some q"
  shows "view n (apply_changes cfg n d) = (view n d)\<lparr> tv_admission :=
    if t_limits p = t_limits q then tv_admission (view n d)
    else map_option (set_limits (t_limits q)) (tv_admission (view n d)) \<rparr>"
proof -
  have p: "find_tenant n (dm_configs d) = Some p" using assms(1) by (simp add: view_def)
  show ?thesis
    by (cases "map_of (dm_admissions d) n") (simp_all add: apply_changes_def p assms(2) Let_def no_hot_change view_simps)
qed

lemma sighup_view:
  assumes E: "traversal_ok E" and n: "n \<in> set (dm_names d)"
    and p: "find_tenant n (dm_configs d) = Some p" and q: "find_tenant n (c_tenants cfg) = Some q"
  shows "view n (sighup C E (Inr cfg) d) = (view n d)\<lparr> tv_admission :=
    if t_limits p = t_limits q then tv_admission (view n d)
    else map_option (set_limits (t_limits q)) (tv_admission (view n d)) \<rparr>"
proof -
  let ?new = "remdups (map t_name (c_tenants cfg))"
  let ?d0 = "count sighup_cycles_total_update d"
  define us where "us = re_order E (filter (\<lambda>n. n \<in> set (dm_names d)) ?new)"
  have new: "n \<in> set ?new" using q by (auto simp: find_tenant_def find_Some_iff)
  then have "n \<in> set us" "distinct us" using n by (simp_all add: us_def traversal_set [OF E] traversal_distinct [OF E])
  then obtain xs ys where us: "us = xs @ n # ys" "n \<notin> set xs" "n \<notin> set ys"
    by (metis distinct.simps(2) distinct_append not_distinct_conv_prefix split_list)
  let ?d1 = "fold (apply_changes cfg) xs ?d0"
  have 1: "view n ?d1 = view n d" using us(2) by (simp add: reload_frames)
  have 2: "view n (fold (apply_changes cfg) us ?d0) = view n (apply_changes cfg n ?d1)"
    using us by (simp add: reload_frames)
  have 3: "tv_config (view n ?d1) = Some p" using 1 p by (simp add: view_def)
  have "view n (sighup C E (Inr cfg) d) = view n (fold (apply_changes cfg) us ?d0)"
  proof -
    let ?rm = "re_order E (filter (\<lambda>n. n \<notin> set ?new) (dm_names d))"
      and ?ad = "re_order E (filter (\<lambda>n. n \<notin> set (dm_names d)) ?new)"
    have "n \<notin> set ?rm" "n \<notin> set ?ad" using new n by (simp_all add: traversal_set [OF E])
    then have "view n (fold (remove_tenant E) ?rm (fold (add_tenant C E cfg) ?ad x)) = view n x" for x
      by (simp add: reload_frames)
    then show ?thesis by (simp add: sighup_def Let_def us_def)
  qed
  then show ?thesis using 2 apply_changes_view [OF 3 q] 1 by simp
qed

subsection \<open>Starting\<close>

lemma build_all_names:
  "build_all C E cfg fs ts = Inr (rts, fs') \<Longrightarrow>
   map tr_name rts = map t_name ts \<and> map (\<lambda>rt. reg_tenant (tr_metrics rt)) rts = map t_name ts"
proof (induction ts arbitrary: fs rts)
  case (Cons t ts)
  then obtain rt fs1 rts1 where "build_here C E fs t cfg = (Inr rt, fs1)" "build_all C E cfg fs1 ts = Inr (rts1, fs')" "rts = rt # rts1"
    by (auto simp: res_simps split: sum.splits prod.splits)
  then show ?case using Cons.IH unfolding build_here_def by (auto dest: build_names)
qed simp

lemma register_all_registry:
  "registry_ok d \<Longrightarrow> map tr_name rts = map t_name ts \<Longrightarrow> map (\<lambda>rt. reg_tenant (tr_metrics rt)) rts = map t_name ts \<Longrightarrow>
   registry_ok (fold (\<lambda>(t, rt). register_tenant cfg t rt) (zip ts rts) d)"
proof (induction ts arbitrary: rts d)
  case (Cons t ts)
  then obtain rt rts' where "rts = rt # rts'" by (cases rts) auto
  then show ?case using Cons by (simp add: register_registry)
qed simp

lemma register_started [simp]: "dm_started (register_tenant cfg t rt d) = dm_started d"
  by (simp add: register_tenant_def add_rotation_def Let_def split: option.splits)

lemma register_all_started: "dm_started (fold (\<lambda>(t, rt). register_tenant cfg t rt) xs d) = dm_started d"
  by (induction xs arbitrary: d) auto

lemma start_group_registry: "start_group E g d = Inr d' \<Longrightarrow> registry_of d' = registry_of d"
  by (auto simp: start_group_def res_simps registry_of_def dest!: install_group_registry split: if_splits list.splits option.splits)

lemma start_groups_registry: "try_fold (\<lambda>d g. start_group E g d) d gs = Inr d' \<Longrightarrow> registry_of d' = registry_of d"
  by (induction gs arbitrary: d) (auto simp: res_simps dest: start_group_registry)

lemma start_pq_registry: "registry_of (start_pq ts d) = registry_of d"
  by (simp add: start_pq_def registry_of_def)

lemma start_daemon_registry:
  assumes "start_daemon C E bound (Inr cfg) = Inr d"
  shows "registry_ok d" and "set (dm_started d) = t_name ` set (c_tenants cfg)"
proof -
  obtain rts fs where b: "build_all C E cfg (h_fs (re_host E)) (c_tenants cfg) = Inr (rts, fs)"
    and r: "registry_of d = registry_of (fold (\<lambda>(t, rt). register_tenant cfg t rt) (zip (c_tenants cfg) rts)
       (empty_daemon fs\<lparr> dm_started := map tr_name rts \<rparr>))"
    using assms by (cases "c_role cfg") (auto simp: start_daemon_def Let_def res_simps start_pq_registry dest: start_groups_registry)
  note n = build_all_names [OF b]
  have "registry_ok (empty_daemon fs\<lparr> dm_started := map tr_name rts \<rparr>)"
    by (simp add: registry_ok_def empty_daemon_def)
  then show "registry_ok d" using register_all_registry n r registry_ok_of by metis
  have "dm_started d = map tr_name rts"
    using arg_cong [OF r, of dm_started] by (simp add: registry_of_def register_all_started)
  then show "set (dm_started d) = t_name ` set (c_tenants cfg)" using n by simp
qed

subsection \<open>Tenants added at run time\<close>

lemma spawn_started: "spawn_accept_loop E cfg t d = (b, d') \<Longrightarrow> dm_started d' = dm_started d"
  using arg_cong [OF spawn_registry, of E cfg t d b d' dm_started] by (simp add: registry_of_def)

lemma add_started: "dm_started (add_tenant C E cfg m d) = dm_started d"
proof (cases "find_tenant m (c_tenants cfg)")
  case (Some t)
  obtain r fs where b: "build_here C E (dm_fs d) t cfg = (r, fs)" by (meson surj_pair)
  then show ?thesis using Some by (cases r) (auto simp: add_tenant_def spawn_started split: prod.split)
qed (simp add: add_tenant_def)

lemma remove_started: "set (dm_started (remove_tenant E m d)) \<subseteq> set (dm_started d)"
proof -
  have p: "set (dm_started (purge_tenant m d)) \<subseteq> set (dm_started d)" for d by (auto simp: purge_tenant_def)
  have "set (dm_started (remove_sni_tenant E m listen disp d)) \<subseteq> set (dm_started d)" for listen disp
    using p [of "d\<lparr> dm_triggers := x, dm_dispatches := y \<rparr>" for x y]
    by (simp add: remove_sni_tenant_def drain_group_def Let_def split: option.split prod.split sum.split)
  moreover have "set (dm_started (remove_single_tenant E m d)) \<subseteq> set (dm_started d)"
    using p [of "d\<lparr> dm_shutdowns := x, dm_tasks := y \<rparr>" for x y]
    by (simp add: remove_single_tenant_def Let_def split: option.split)
  ultimately show ?thesis by (simp add: remove_tenant_def split: option.split prod.split)
qed

lemma apply_started: "dm_started (apply_changes cfg m d) = dm_started d"
  by (simp add: apply_changes_def Let_def split: option.splits)

lemma fold_started:
  "(\<And>m d. set (dm_started (f m d)) \<subseteq> set (dm_started d)) \<Longrightarrow> set (dm_started (fold f xs d)) \<subseteq> set (dm_started d)"
  by (induction xs arbitrary: d) (auto, blast)

lemma sighup_started: "set (dm_started (sighup C E loaded d)) \<subseteq> set (dm_started d)"
proof (cases loaded)
  case (Inr cfg)
  have 1: "set (dm_started (fold (apply_changes cfg) xs d)) \<subseteq> set (dm_started d)" for xs d
    by (rule fold_started) (simp add: apply_started)
  have 2: "set (dm_started (fold (add_tenant C E cfg) xs d)) \<subseteq> set (dm_started d)" for xs d
    by (rule fold_started) (simp add: add_started)
  have 3: "set (dm_started (fold (remove_tenant E) xs d)) \<subseteq> set (dm_started d)" for xs d
    by (rule fold_started) (rule remove_started)
  have "set (dm_started (fold (remove_tenant E) xs (fold (add_tenant C E cfg) ys (fold (apply_changes cfg) zs
      (count sighup_cycles_total_update d))))) \<subseteq> set (dm_started d)" for xs ys zs
    by (rule subset_trans [OF 3 subset_trans [OF 2 subset_trans [OF 1]]]) simp
  then show ?thesis using Inr by (simp add: sighup_def Let_def)
qed (simp add: sighup_def)

lemma signals_started: "set (dm_started (foldl (on_signal C) d sigs)) \<subseteq> set (dm_started d)"
proof (induction sigs arbitrary: d)
  case (Cons s sigs)
  have "set (dm_started (on_signal C d s)) \<subseteq> set (dm_started d)"
    by (cases s) (simp_all add: sighup_started sigusr1_def sigusr2_def sigterm_def)
  then show ?case using Cons.IH by (metis foldl_Cons subset_trans)
qed simp

subsection \<open>Tenants that were registered but are not served\<close>

text \<open>
  An accept loop that cannot be spawned leaves no task and no dispatch entry; the tenant is
  registered all the same, and a later reload that drops it from the configuration finds no
  task to join and leaves it registered.
\<close>

lemma failed_spawn_leaves_no_task:
  "spawn_accept_loop E cfg t d = (False, d') \<Longrightarrow> dm_tasks d' = dm_tasks d \<and> dm_dispatches d' = dm_dispatches d"
  by (auto simp: spawn_accept_loop_def spawn_pq_def spawn_tcp_single_def spawn_sni_new_group_def spawn_sni_join_def res_simps
      split: role.splits option.splits sum.splits prod.splits)

lemma unserved_tenant_stays:
  assumes "map_of (dm_tasks d) n = None" "\<forall>(listen, disp) \<in> set (dm_dispatches d). n \<notin> set (tenant_names (hot_sni_load disp))"
  shows "dm_names (remove_tenant E n d) = dm_names d"
proof -
  have "List.find (\<lambda>(listen, disp). n \<in> set (tenant_names (hot_sni_load disp))) (dm_dispatches d) = None"
    using assms(2) by (auto simp: find_None_iff)
  then show ?thesis using assms(1)
    by (simp add: remove_tenant_def remove_single_tenant_def Let_def split: option.split)
qed

subsection \<open>A concrete daemon\<close>

definition start_reload :: reload_env where
  "start_reload = \<lparr> re_host = start_host, re_build = (\<lambda>n. start_env), re_driver = demo_driver, re_tls = demo_files,
     re_drained = (\<lambda>n. True), re_order = (\<lambda>xs. xs), re_token = (\<lambda>n. 0) \<rparr>"

definition start_config :: config where
  "start_config = demo_config\<lparr> c_role := ServePq, c_tenants := [] \<rparr>"

lemma start_reload_ok [simp]: "traversal_ok start_reload"
  by (simp add: traversal_ok_def start_reload_def)

lemma start_daemon_starts: "start_daemon start_crates start_reload True (Inr start_config) = Inr (empty_daemon start_fs)"
  using start_identity
  by (simp add: start_daemon_def start_config_def demo_config_def start_reload_def start_host_def resolve_serve_pq_def
      start_pq_def empty_daemon_def)

definition one_tenant :: "tenant_limits option \<Rightarrow> tenant_config" where
  "one_tenant l = (demo_tenant ''a'' ''a.x'')\<lparr> t_limits := l \<rparr>"

definition one_limit :: "tenant_limits option" where
  "one_limit = Some \<lparr> max_concurrent = Some 1, rate_limit_per_source = None \<rparr>"

definition running :: daemon where
  "running = (empty_daemon start_fs)\<lparr> dm_names := [''a''], dm_configs := [one_tenant None],
     dm_admissions := [(''a'', build_admission None)] \<rparr>"

lemma running_simps [simp]:
  "dm_names running = [''a'']" "find_tenant ''a'' (dm_configs running) = Some (one_tenant None)"
  "map_of (dm_admissions running) ''a'' = Some (build_admission None)"
  "find_tenant ''a'' (c_tenants (demo_config\<lparr> c_tenants := [one_tenant l] \<rparr>)) = Some (one_tenant l)"
  "t_limits (one_tenant l) = l" "one_limit \<noteq> None"
  by (simp_all add: running_def find_tenant_def one_tenant_def demo_tenant_def one_limit_def)

subsection \<open>What a reload does\<close>





text \<open>
  The snapshot that reloads compare with keeps the limits of the start: after a reload
  applied new limits to a tenant, a second reload with the original configuration of the
  tenant is taken for no change, and the limits of the first reload stay in force.
\<close>

lemma restored_limits_are_not_applied:
  assumes "traversal_ok E" "traversal_ok E'" "n \<in> set (dm_names d)" "find_tenant n (dm_configs d) = Some p"
    and "find_tenant n (c_tenants cfg) = Some q" "t_limits q \<noteq> t_limits p" "find_tenant n (c_tenants cfg') = Some p"
    and "map_of (dm_admissions d) n = Some h"
  shows "map_of (dm_admissions (sighup C E' (Inr cfg') (sighup C E (Inr cfg) d))) n = Some (set_limits (t_limits q) h)"
proof -
  let ?d = "sighup C E (Inr cfg) d"
  note v = sighup_view [OF assms(1,3,4,5), of C]
  have "n \<in> set (dm_names ?d)" "find_tenant n (dm_configs ?d) = Some p" "map_of (dm_admissions ?d) n = Some (set_limits (t_limits q) h)"
    using v assms(3,4,6,8) by (auto simp: view_def)
  then show ?thesis using sighup_view [OF assms(2) _ _ assms(7), of ?d p C] by (simp add: view_def)
qed

text \<open>
  The end of the daemon closes only the channels of the tenants it started with: the channel
  of a tenant that the start-up configuration does not name, added by a reload, is left as it
  is, with what is queued in it.
\<close>

lemma added_tenants_are_not_closed_at_exit:
  assumes "start_daemon C E bound (Inr cfg) = Inr d" "n \<notin> t_name ` set (c_tenants cfg)"
  shows "map_of (dm_audits (final_drain (foldl (on_signal C) d sigs))) n = map_of (dm_audits (foldl (on_signal C) d sigs)) n"
proof -
  have "n \<notin> set (dm_started (foldl (on_signal C) d sigs))"
    using signals_started start_daemon_registry(2) [OF assms(1)] assms(2) by blast
  then show ?thesis by (simp add: final_drain_def map_of_map_vals option.map_ident)
qed

end
