(* ===== verification/Auditcli.thy ===== *)
theory Auditcli
  imports Rotation Export Keyfiles Audit_Channel
begin

text \<open>
  The command line tool for audit logs (\<open>qaudit/src/main.rs\<close>): creating a log with its keys,
  appending, verifying, exporting, rotating and verifying a chain, all on files. A command takes
  its parsed arguments and the files and gives its result and the files after it.

  The record \<open>cli_io\<close> holds what the commands meet outside: \<open>canonicalize\<close> (\<open>None\<close>: an error),
  whether two paths are one inode, whether a file's metadata can be read, how the private
  temporary file of an output fares, how \<open>save\<close> fares, and how a plain write fares.
  \<open>cli_draw\<close> holds entropy, clocks and the random log id.
\<close>

text \<open>A plain write finishes, cannot open its file, or fails after a number of bytes.\<close>

datatype write_fate = Finishes | Not_opened | Fails_after nat

record cli_io =
  ci_canon :: "string \<Rightarrow> string option"
  ci_same :: "string \<Rightarrow> string \<Rightarrow> bool"
  ci_stat :: "string \<Rightarrow> bool"
  ci_out :: "string \<Rightarrow> save_io"
  ci_save :: save_io
  ci_write :: "string \<Rightarrow> write_fate"

record cli_draw =
  dr_entropy :: "nat \<Rightarrow> nat"
  dr_event_time :: timestamp
  dr_now :: timestamp
  dr_rnd :: log_id

definition parse_kv :: "string \<Rightarrow> string + string \<times> string" where
  "parse_kv s = ok_or (''expected key=value, got '' @ s) (split_once (CHR ''='') s)"

subsection \<open>Outputs\<close>

definition ensure_overwritable :: "cli_io \<Rightarrow> filesystem \<Rightarrow> string \<Rightarrow> bool \<Rightarrow> string + unit" where
  "ensure_overwritable E fs path force =
     (if \<not> ci_stat E path then Inl (''checking '' @ path)
      else case fs path of
        Some n \<Rightarrow>
          if \<not> is_file n then Inl (''refusing non-regular output file '' @ path)
          else if \<not> force then Inl (''refusing to overwrite existing file '' @ path @ '' (pass --force)'')
          else Inr ()
      | None \<Rightarrow> Inr ())"

definition parent_dir :: "string \<Rightarrow> string" where
  "parent_dir path = (case path_parent path of Some p \<Rightarrow> if p = [] then ''.'' else p | None \<Rightarrow> ''.'')"

definition output_identity :: "cli_io \<Rightarrow> filesystem \<Rightarrow> string \<Rightarrow> string + string" where
  "output_identity E fs path =
     (if fs path \<noteq> None then ok_or (''resolving '' @ path) (ci_canon E path)
      else
        and_then (ok_or ''output path must name a file'' (path_file_name path)) (\<lambda>name.
        and_then (ok_or (''resolving output directory '' @ parent_dir path) (ci_canon E (parent_dir path))) (\<lambda>dir.
        Inr (path_join dir name))))"

fun distinct_from :: "cli_io \<Rightarrow> filesystem \<Rightarrow> string \<Rightarrow> string \<Rightarrow> string list \<Rightarrow> string + unit" where
  "distinct_from E fs path identity [] = Inr ()"
| "distinct_from E fs path identity (other # others) =
     and_then (output_identity E fs other) (\<lambda>other_identity.
     and_then (ensure (\<not> (identity = other_identity \<or> (fs path \<noteq> None \<and> fs other \<noteq> None \<and> ci_same E path other)))
        (''paths must be distinct files: '' @ path @ '' and '' @ other)) (\<lambda>_.
     distinct_from E fs path identity others))"

fun distinct_after :: "cli_io \<Rightarrow> filesystem \<Rightarrow> string list \<Rightarrow> string list \<Rightarrow> string + unit" where
  "distinct_after E fs seen [] = Inr ()"
| "distinct_after E fs seen (path # paths) =
     and_then (output_identity E fs path) (\<lambda>identity.
     and_then (distinct_from E fs path identity seen) (\<lambda>_.
     distinct_after E fs (seen @ [path]) paths))"

definition ensure_distinct_paths :: "cli_io \<Rightarrow> filesystem \<Rightarrow> string list \<Rightarrow> string + unit" where
  "ensure_distinct_paths E fs paths = distinct_after E fs [] paths"

text \<open>
  \<open>write_output\<close>: the bytes go to a private temporary file in the same directory, which then
  takes the place of the path. \<open>produced\<close> is what the writing closure gives.
\<close>

definition write_output :: "cli_io \<Rightarrow> filesystem \<Rightarrow> string \<Rightarrow> bool \<Rightarrow> string + bytes \<Rightarrow> (string + unit) \<times> filesystem" where
  "write_output E fs path force produced =
     (let io = ci_out E path in
      case and_then (ensure_overwritable E fs path force) (\<lambda>_.
           and_then (ensure (tmp_ok io) (''creating temporary output for '' @ path)) (\<lambda>_.
           and_then produced (\<lambda>b.
           and_then (ensure (write_ok io) ''write'') (\<lambda>_.
           and_then (ensure (sync_ok io) ''sync'') (\<lambda>_.
           and_then (ensure (persist_ok io \<and> (force \<or> fs path = None)) (''publishing '' @ path)) (\<lambda>_.
           Inr b)))))) of
        Inl e \<Rightarrow> (Inl e, fs)
      | Inr b \<Rightarrow> (ensure (dirsync_ok io) ''sync directory'', fs(path \<mapsto> new_file b private_mode)))"

definition write_key :: "cli_io \<Rightarrow> filesystem \<Rightarrow> string \<Rightarrow> bytes \<Rightarrow> bool \<Rightarrow> (string + unit) \<times> filesystem" where
  "write_key E fs path b force = write_output E fs path force (Inr b)"

text \<open>\<open>fs::write\<close>: truncates in place, keeping the mode of a file that exists.\<close>

definition plain_write :: "cli_io \<Rightarrow> filesystem \<Rightarrow> string \<Rightarrow> bytes \<Rightarrow> (string + unit) \<times> filesystem" where
  "plain_write E fs path b =
     (let mode = (case fs path of Some n \<Rightarrow> permissions n | None \<Rightarrow> public_mode);
          opens = (case fs path of Some n \<Rightarrow> is_file n | None \<Rightarrow> True) in
      if \<not> opens then (Inl (''writing '' @ path), fs)
      else case ci_write E path of
        Finishes \<Rightarrow> (Inr (), fs(path \<mapsto> new_file b mode))
      | Not_opened \<Rightarrow> (Inl (''writing '' @ path), fs)
      | Fails_after k \<Rightarrow> (Inl (''writing '' @ path), fs(path \<mapsto> new_file (take k b) mode)))"

text \<open>Sequencing of steps that change the files.\<close>

definition then_fs :: "(string + 'a) \<times> filesystem \<Rightarrow> ('a \<Rightarrow> filesystem \<Rightarrow> (string + 'b) \<times> filesystem) \<Rightarrow> (string + 'b) \<times> filesystem" where
  "then_fs r f = (case r of (Inl e, fs) \<Rightarrow> (Inl e, fs) | (Inr x, fs) \<Rightarrow> f x fs)"

subsection \<open>Keys\<close>

definition derive_key_path :: "string \<Rightarrow> string \<Rightarrow> string" where
  "derive_key_path log_path ext =
     path_join (case path_parent log_path of Some p \<Rightarrow> p | None \<Rightarrow> ''.'')
       ((case path_file_stem log_path of Some s \<Rightarrow> s | None \<Rightarrow> ''qaudit'') @ ''.'' @ ext)"

definition resolve_key_path :: "filesystem \<Rightarrow> string option \<Rightarrow> string \<Rightarrow> string \<Rightarrow> string" where
  "resolve_key_path fs explicit log_path ext =
     (case explicit of
        Some p \<Rightarrow> p
      | None \<Rightarrow>
          (let derived = derive_key_path log_path ext; legacy = ''qaudit.'' @ ext in
           if fs derived \<noteq> None then derived else if fs legacy \<noteq> None then legacy else derived))"

definition challenge :: bytes where
  "challenge = ascii ''qaudit-keypair-consistency-v1''"

definition load_keypair :: "'a crates_scheme \<Rightarrow> nat \<Rightarrow> filesystem \<Rightarrow> string \<Rightarrow> string \<Rightarrow> string + keypair" where
  "load_keypair C e fs sk_path pk_path =
     and_then (ok_or (''reading secret key '' @ sk_path) (read_file fs sk_path)) (\<lambda>sk_bytes.
     and_then (ok_or (''reading public key '' @ pk_path) (read_file fs pk_path)) (\<lambda>pk_bytes.
     and_then (map_err (\<lambda>_. ''decoding secret key'') (SecretKey_from_bytes sk_bytes)) (\<lambda>sk.
     and_then (map_err (\<lambda>_. ''decoding public key'') (PublicKey_from_bytes pk_bytes)) (\<lambda>pk.
     let keypair = KeyPair_from_parts pk sk in
     and_then (map_err (\<lambda>_. ''checking secret key'') (KeyPair_sign C keypair e challenge)) (\<lambda>sig.
     and_then (map_err (\<lambda>_. ''secret and public key files do not form a valid keypair'')
        (verify_sig C (kp_pk keypair) challenge sig 0)) (\<lambda>_.
     Inr keypair))))))"

definition bind_loaded :: "'a log_crates_scheme \<Rightarrow> audit_log \<Rightarrow> keypair \<Rightarrow> string + audit_log" where
  "bind_loaded C l kp =
     (case bind_keypair C l kp of
        (Inl _, _) \<Rightarrow> Inl ''rebinding signing keypair to loaded log''
      | (Inr _, l1) \<Rightarrow> Inr l1)"

subsection \<open>Commands\<close>

record init_args =
  ia_log :: string
  ia_sk :: "string option"
  ia_pk :: "string option"
  ia_label :: string
  ia_force :: bool

definition cmd_init :: "'a log_crates_scheme \<Rightarrow> cli_io \<Rightarrow> cli_draw \<Rightarrow> init_args \<Rightarrow> filesystem \<Rightarrow> (string + unit) \<times> filesystem" where
  "cmd_init C E D a fs =
     (let sk_path = unwrap_or (derive_key_path (ia_log a) ''sk'') (ia_sk a);
          pk_path = unwrap_or (derive_key_path (ia_log a) ''pk'') (ia_pk a) in
      case and_then (ensure_distinct_paths E fs [ia_log a, sk_path, pk_path]) (\<lambda>_.
           and_then (ensure_overwritable E fs (ia_log a) (ia_force a)) (\<lambda>_.
           and_then (ensure_overwritable E fs sk_path (ia_force a)) (\<lambda>_.
           and_then (ensure_overwritable E fs pk_path (ia_force a)) (\<lambda>_.
           map_err (\<lambda>_. ''ML-DSA-87 keygen failed'') (KeyPair_generate C (dr_entropy D 0)))))) of
        Inl e \<Rightarrow> (Inl e, fs)
      | Inr kp \<Rightarrow>
          then_fs (write_key E fs sk_path (kp_sk kp) (ia_force a)) (\<lambda>_ fs1.
          then_fs (write_key E fs1 pk_path (kp_pk kp) (ia_force a)) (\<lambda>_ fs2.
          (case create_with_label C kp (ia_label a) (dr_now D) (dr_rnd D) of
             Inl _ \<Rightarrow> (Inl ''creating audit log'', fs2)
           | Inr l \<Rightarrow> write_output E fs2 (ia_log a) (ia_force a) (map_err (\<lambda>_. ''writing log'') (save_to C l))))))"

record append_args =
  aa_log :: string
  aa_sk :: "string option"
  aa_pk :: "string option"
  aa_actor :: string
  aa_action :: string
  aa_resource :: string
  aa_outcome :: string
  aa_meta :: "(string \<times> string) list"

definition append_event :: "timestamp \<Rightarrow> append_args \<Rightarrow> audit_event" where
  "append_event now a =
     build now (metas (aa_meta a)
       (set_outcome (aa_outcome a) (set_resource (aa_resource a) (set_action (aa_action a) (set_actor (aa_actor a) builder)))))"

definition cmd_append :: "'a log_crates_scheme \<Rightarrow> cli_io \<Rightarrow> cli_draw \<Rightarrow> append_args \<Rightarrow> filesystem \<Rightarrow> (string + log_entry) \<times> filesystem" where
  "cmd_append C E D a fs =
     (let sk_path = resolve_key_path fs (aa_sk a) (aa_log a) ''sk'';
          pk_path = resolve_key_path fs (aa_pk a) (aa_log a) ''pk'' in
      case and_then (map_err (\<lambda>_. ''opening log '' @ aa_log a) (open_log C fs (aa_log a))) (\<lambda>l.
           and_then (ensure_distinct_paths E fs [aa_log a, sk_path, pk_path]) (\<lambda>_.
           and_then (map_err (\<lambda>_. ''existing log failed verification; refusing to append'') (al_verify C l)) (\<lambda>_.
           and_then (load_keypair C (dr_entropy D 0) fs sk_path pk_path) (\<lambda>kp.
           and_then (ensure (kp_pk kp = pubkey (header l))
              ''supplied --pk does not match the log's stored public key; refusing to append'') (\<lambda>_.
           bind_loaded C l kp))))) of
        Inl e \<Rightarrow> (Inl e, fs)
      | Inr l1 \<Rightarrow>
          (case al_append C (dr_entropy D 1) (dr_now D) l1 (append_event (dr_event_time D) a) of
             (Inl _, _) \<Rightarrow> (Inl ''signing & appending entry'', fs)
           | (Inr entry, l2) \<Rightarrow>
               (case save C (ci_save E) fs (aa_log a) l2 of
                  (Inl _, fs') \<Rightarrow> (Inl (''rewriting log '' @ aa_log a), fs')
                | (Inr _, fs') \<Rightarrow> (Inr entry, fs'))))"

text \<open>The check of an independently supplied public key, shared by \<open>verify\<close> and \<open>verify-chain\<close>.\<close>

definition with_pk :: "filesystem \<Rightarrow> string option \<Rightarrow> audit_log \<Rightarrow> string + audit_log" where
  "with_pk fs pk_path l =
     (case pk_path of
        None \<Rightarrow> Inr l
      | Some p \<Rightarrow>
          and_then (ok_or (''reading public key '' @ p) (read_file fs p)) (\<lambda>pk_bytes.
          and_then (map_err (\<lambda>_. ''decoding public key'') (decode_pubkey_any pk_bytes)) (\<lambda>pk.
          and_then (ensure (pk = pubkey (header l)) ''supplied --pk does not match the log's header pubkey'') (\<lambda>_.
          Inr (override_pubkey l pk)))))"

definition cmd_verify :: "'a log_crates_scheme \<Rightarrow> filesystem \<Rightarrow> string \<Rightarrow> string option \<Rightarrow> string + u64 \<times> hash" where
  "cmd_verify C fs log_path pk_path =
     and_then (map_err (\<lambda>_. ''opening log '' @ log_path) (open_log C fs log_path)) (\<lambda>l.
     and_then (with_pk fs pk_path l) (\<lambda>l.
     and_then (map_err (\<lambda>_. ''audit log failed verification'') (al_verify C l)) (\<lambda>_.
     Inr (al_len l, current_root C l))))"

subsection \<open>Text for the terminal\<close>

text \<open>
  Strings are their UTF-8 bytes; \<open>code_points\<close> is \<open>str::chars\<close>. A control character or a
  bidirectional control is shown as \<open>char::escape_default\<close> writes it, everything else as it is.
\<close>

definition utf8_rest :: "nat \<Rightarrow> nat" where
  "utf8_rest b = (if b < 0xC0 then 0 else if b < 0xE0 then 1 else if b < 0xF0 then 2 else 3)"

definition utf8_lead :: "nat \<Rightarrow> nat" where
  "utf8_lead b = (if b < 0x80 then b else if b < 0xE0 then b mod 32 else if b < 0xF0 then b mod 16 else b mod 8)"

fun utf8_chars :: "nat list \<Rightarrow> nat list" where
  "utf8_chars [] = []"
| "utf8_chars (b # bs) =
     foldl (\<lambda>a c. a * 64 + c mod 64) (utf8_lead b) (take (utf8_rest b) bs) # utf8_chars (drop (utf8_rest b) bs)"

definition code_points :: "string \<Rightarrow> nat list" where
  "code_points s = utf8_chars (map of_char s)"

definition is_control :: "nat \<Rightarrow> bool" where
  "is_control c \<longleftrightarrow> c < 32 \<or> (127 \<le> c \<and> c < 160)"

definition is_bidi :: "nat \<Rightarrow> bool" where
  "is_bidi c \<longleftrightarrow> (0x202A \<le> c \<and> c \<le> 0x202E) \<or> (0x2066 \<le> c \<and> c \<le> 0x2069)"

definition hex_digit :: "nat \<Rightarrow> nat" where
  "hex_digit d = (if d < 10 then 48 + d else 87 + d)"

fun hex_nat :: "nat \<Rightarrow> nat list" where
  "hex_nat n = (if n < 16 then [hex_digit n] else hex_nat (n div 16) @ [hex_digit (n mod 16)])"

declare hex_nat.simps [simp del]

definition escape_default :: "nat \<Rightarrow> nat list" where
  "escape_default c =
     (if c = 9 then [92, 116] else if c = 13 then [92, 114] else if c = 10 then [92, 110]
      else if c \<in> {39, 34, 92} then [92, c]
      else if 32 \<le> c \<and> c \<le> 126 then [c]
      else [92, 117, 123] @ hex_nat c @ [125])"

definition terminal_text :: "nat list \<Rightarrow> nat list" where
  "terminal_text value = concat (map (\<lambda>c. if is_control c \<or> is_bidi c then escape_default c else [c]) value)"

text \<open>
  What the commands print is a list of lines of code points. \<open>show_time\<close> is chrono's rendering
  of a time in a format (the empty one: \<open>Display\<close>), \<open>to_json\<close> is \<open>serde_json\<close>'s rendering of an
  object; \<open>ellipsis\<close> is U+2026.
\<close>

abbreviation ellipsis :: nat where "ellipsis \<equiv> 0x2026"

definition show_text :: "string \<Rightarrow> nat list" where
  "show_text s = terminal_text (code_points s)"

definition show_nat :: "nat \<Rightarrow> nat list" where
  "show_nat n = code_points (dec_nat n)"

definition pad_left :: "nat \<Rightarrow> nat list \<Rightarrow> nat list" where
  "pad_left w s = replicate (w - length s) 32 @ s"

definition show_hex :: "'a crates_scheme \<Rightarrow> bytes \<Rightarrow> nat list" where
  "show_hex C b = code_points (hex_encode C b)"

definition inspect_members :: "'a crates_scheme \<Rightarrow> (string \<Rightarrow> timestamp \<Rightarrow> string) \<Rightarrow> log_entry \<Rightarrow> (string \<times> json) list" where
  "inspect_members C show_time e =
     [(''index'', JNum (dec_nat (unat (le_index e)))), (''appended_at'', JStr (show_time ''rfc3339'' (appended_at e))),
      (''actor'', JStr (actor (event e))), (''action'', JStr (action (event e))),
      (''resource'', JStr (resource (event e))), (''outcome'', JStr (outcome (event e))),
      (''metadata'', JObj (metadata (event e))),
      (''prev_root'', JStr (hex_encode C (prev_root e))), (''new_root'', JStr (hex_encode C (new_root e))),
      (''signature_prefix'', JStr (hex_encode C (take 16 (le_signature e))))]"

definition inspect_entry :: "'a crates_scheme \<Rightarrow> (string \<Rightarrow> timestamp \<Rightarrow> string) \<Rightarrow> log_entry \<Rightarrow> nat list list" where
  "inspect_entry C show_time e =
     [code_points ''['' @ pad_left 6 (show_nat (unat (le_index e))) @ code_points ''] '' @
      code_points (show_time ''%Y-%m-%d %H:%M:%SZ'' (appended_at e)) @ code_points ''  '' @ show_text (actor (event e)) @
      code_points '' :: '' @ show_text (action (event e)) @ code_points '' -> '' @ show_text (resource (event e)) @
      code_points '' ('' @ show_text (outcome (event e)) @ code_points '')''] @
     map (\<lambda>(k, v). code_points ''           meta.'' @ show_text k @ code_points '' = '' @ show_text v) (metadata (event e)) @
     [code_points ''           root = '' @ show_hex C (new_root e)]"

definition inspect_lines :: "'a crates_scheme \<Rightarrow> (string \<Rightarrow> timestamp \<Rightarrow> string) \<Rightarrow> nat \<Rightarrow> audit_log \<Rightarrow> nat list list" where
  "inspect_lines C show_time shown l =
     [code_points ''log_id = '' @ show_hex C (lh_log_id (header l)) @ code_points ''   suite = '' @
      show_text (suite (header l)) @ code_points ''   entries = '' @ show_nat (unat (al_len l))] @
     (if label (header l) = [] then [] else [code_points ''label  = '' @ show_text (label (header l))]) @
     [[]] @
     concat (map (inspect_entry C show_time) (take shown (entries l))) @
     (if shown < length (entries l)
      then [[], ellipsis # show_nat (length (entries l) - shown) @ code_points '' more entries omitted (use --limit to widen)'']
      else [])"

definition cmd_inspect :: "'a log_crates_scheme \<Rightarrow> ((string \<times> json) list \<Rightarrow> string) \<Rightarrow> (string \<Rightarrow> timestamp \<Rightarrow> string) \<Rightarrow> filesystem \<Rightarrow> string \<Rightarrow> nat option \<Rightarrow> bool \<Rightarrow> string + nat list list" where
  "cmd_inspect C to_json show_time fs log_path limit as_json =
     and_then (map_err (\<lambda>_. ''opening log '' @ log_path) (open_log C fs log_path)) (\<lambda>l.
     let n = length (entries l); shown = min (unwrap_or n limit) n in
     Inr (if as_json
          then map (\<lambda>e. code_points (to_json (inspect_members C show_time e))) (take shown (entries l))
          else inspect_lines C show_time shown l))"

datatype cli_output = Nothing | Text string | Raw bytes

definition cli_pubkey :: "'a log_crates_scheme \<Rightarrow> cli_io \<Rightarrow> string \<Rightarrow> string option \<Rightarrow> bool \<Rightarrow> filesystem \<Rightarrow> (string + cli_output) \<times> filesystem" where
  "cli_pubkey C E log_path out hex fs =
     (case map_err (\<lambda>_. ''opening log '' @ log_path) (open_log C fs log_path) of
        Inl e \<Rightarrow> (Inl e, fs)
      | Inr l \<Rightarrow>
          (case out of
             Some path \<Rightarrow>
               (case ensure_distinct_paths E fs [log_path, path] of
                  Inl e \<Rightarrow> (Inl e, fs)
                | Inr _ \<Rightarrow> then_fs (plain_write E fs path (pubkey (header l))) (\<lambda>_ fs'. (Inr Nothing, fs')))
           | None \<Rightarrow>
               if hex then (Inr (Text (hex_encode C (pubkey (header l)) @ [CHR 0x0A])), fs)
               else (Inr (Raw (pubkey (header l))), fs)))"

definition info_lines :: "'a crates_scheme \<Rightarrow> (string \<Rightarrow> timestamp \<Rightarrow> string) \<Rightarrow> string \<Rightarrow> audit_log \<Rightarrow> nat list list" where
  "info_lines C show_time log_path l =
     (let h = header l in
      [code_points ''log file:      '' @ code_points log_path,
       code_points ''log_id:        '' @ show_hex C (lh_log_id h),
       code_points ''suite:         '' @ show_text (suite h),
       code_points ''wire_version:  '' @ show_nat (unat (wire_version h)),
       code_points ''created_at:    '' @ code_points (show_time [] (created_at h)),
       code_points ''label:         '' @ (if label h = [] then code_points ''<none>'' else show_text (label h)),
       code_points ''pubkey:        '' @ show_hex C (take 16 (pubkey h)) @ [ellipsis] @ code_points '' ('' @
         show_nat (length (pubkey h)) @ code_points '' bytes)'',
       code_points ''entries:       '' @ show_nat (unat (al_len l)),
       code_points ''current root:  '' @ show_hex C (current_root C l)])"

definition cmd_info :: "'a log_crates_scheme \<Rightarrow> (string \<Rightarrow> timestamp \<Rightarrow> string) \<Rightarrow> filesystem \<Rightarrow> string \<Rightarrow> string + nat list list" where
  "cmd_info C show_time fs log_path =
     and_then (map_err (\<lambda>_. ''opening log '' @ log_path) (open_log C fs log_path)) (\<lambda>l.
     Inr (info_lines C show_time log_path l))"

datatype export_format = Xml | Jsonl

definition export_payload :: "'a log_crates_scheme \<Rightarrow> 'w xml_writer \<Rightarrow> (bool \<Rightarrow> timestamp \<Rightarrow> string) \<Rightarrow> timestamp \<Rightarrow> export_format \<Rightarrow> audit_log \<Rightarrow> string + string" where
  "export_payload C W rfc3339 now format l =
     (case format of
        Xml \<Rightarrow> map_err (\<lambda>_. ''XML export'') (export_xml W C rfc3339 now l)
      | Jsonl \<Rightarrow> map_err (\<lambda>_. ''JSONL export'') (export_jsonl C rfc3339 l))"

definition cmd_export :: "'a log_crates_scheme \<Rightarrow> cli_io \<Rightarrow> 'w xml_writer \<Rightarrow> (bool \<Rightarrow> timestamp \<Rightarrow> string) \<Rightarrow> timestamp \<Rightarrow> string \<Rightarrow> export_format \<Rightarrow> string option \<Rightarrow> bool \<Rightarrow> filesystem \<Rightarrow> (string + cli_output) \<times> filesystem" where
  "cmd_export C E W rfc3339 now log_path format out no_verify fs =
     (case and_then (map_err (\<lambda>_. ''opening log '' @ log_path) (open_log C fs log_path)) (\<lambda>l.
           and_then (if no_verify then Inr ()
              else map_err (\<lambda>_. ''pre-export verification failed; refusing to export an invalid log'') (al_verify C l)) (\<lambda>_.
           export_payload C W rfc3339 now format l)) of
        Inl e \<Rightarrow> (Inl e, fs)
      | Inr payload \<Rightarrow>
          (case out of
             Some path \<Rightarrow>
               (case ensure_distinct_paths E fs [log_path, path] of
                  Inl e \<Rightarrow> (Inl e, fs)
                | Inr _ \<Rightarrow> then_fs (plain_write E fs path (ascii payload)) (\<lambda>_ fs'. (Inr Nothing, fs')))
           | None \<Rightarrow> (Inr (Text payload), fs)))"

subsection \<open>Rotation\<close>

record rotate_args =
  ra_in :: string
  ra_out :: string
  ra_sk :: string
  ra_pk :: string
  ra_new_label :: string
  ra_new_log_id :: string
  ra_new_sk :: "string option"
  ra_new_pk :: "string option"
  ra_force :: bool

definition rotate_keys :: "rotate_args \<Rightarrow> string list" where
  "rotate_keys a = [ra_sk a, ra_pk a] @ (case ra_new_sk a of Some k \<Rightarrow> [k] | None \<Rightarrow> []) @ (case ra_new_pk a of Some k \<Rightarrow> [k] | None \<Rightarrow> [])"

definition rotate_checks :: "cli_io \<Rightarrow> filesystem \<Rightarrow> rotate_args \<Rightarrow> string + unit" where
  "rotate_checks E fs a =
     and_then (ensure_distinct_paths E fs [ra_in a, ra_out a]) (\<lambda>_.
     and_then (try_map (\<lambda>key.
         and_then (ensure_distinct_paths E fs [ra_in a, key]) (\<lambda>_. ensure_distinct_paths E fs [ra_out a, key])) (rotate_keys a)) (\<lambda>_.
     and_then (ensure_overwritable E fs (ra_out a) (ra_force a)) (\<lambda>_.
     ensure ((ra_new_sk a = None) = (ra_new_pk a = None)) ''--new-sk and --new-pk must be supplied together'')))"

definition rotate_signer :: "'a crates_scheme \<Rightarrow> nat \<Rightarrow> filesystem \<Rightarrow> rotate_args \<Rightarrow> keypair \<Rightarrow> string + signer" where
  "rotate_signer C e fs a kp =
     (case (ra_new_sk a, ra_new_pk a) of
        (Some new_sk, Some new_pk) \<Rightarrow>
          and_then (map_err (\<lambda>x. ''loading new audit keypair: '' @ x) (load_keypair C e fs new_sk new_pk)) (\<lambda>new_kp.
          and_then (ensure (kp_pk new_kp \<noteq> kp_pk kp) ''--new-sk/--new-pk are the SAME audit key as --sk/--pk'') (\<lambda>_.
          Inr (keypair_signer C new_kp)))
      | _ \<Rightarrow> Inr (keypair_signer C kp))"

definition rewrite_log :: "'a log_crates_scheme \<Rightarrow> cli_io \<Rightarrow> filesystem \<Rightarrow> string \<Rightarrow> audit_log \<Rightarrow> (string + unit) \<times> filesystem" where
  "rewrite_log C E fs path l =
     (case save C (ci_save E) fs path l of
        (Inl _, fs') \<Rightarrow> (Inl (''rewriting sealed input log '' @ path), fs')
      | (Inr _, fs') \<Rightarrow> (Inr (), fs'))"

definition cmd_rotate :: "'a log_crates_scheme \<Rightarrow> cli_io \<Rightarrow> cli_draw \<Rightarrow> rotate_args \<Rightarrow> filesystem \<Rightarrow> (string + unit) \<times> filesystem" where
  "cmd_rotate C E D a fs =
     (case and_then (rotate_checks E fs a) (\<lambda>_.
           and_then (map_err (\<lambda>_. ''opening log '' @ ra_in a) (open_log C fs (ra_in a))) (\<lambda>old.
           and_then (map_err (\<lambda>_. ''input log failed verification; refusing rotation'') (al_verify C old)) (\<lambda>_.
           and_then (load_keypair C (dr_entropy D 0) fs (ra_sk a) (ra_pk a)) (\<lambda>kp.
           and_then (ensure (kp_pk kp = pubkey (header old)) ''supplied --pk does not match the input log's stored public key'') (\<lambda>_.
           and_then (bind_loaded C old kp) (\<lambda>l1.
           and_then (rotate_signer C (dr_entropy D 1) fs a kp) (\<lambda>new_signer.
           map_err (\<lambda>_. ''rotating log'')
             (rotate_to C (dr_entropy D 2) (dr_entropy D 3) (dr_now D) (dr_rnd D) l1 new_signer (ra_new_label a) (ra_new_log_id a))))))))) of
        Inl e \<Rightarrow> (Inl e, fs)
      | Inr (sealed_old, new_open) \<Rightarrow>
          then_fs (write_output E fs (ra_out a) (ra_force a) (map_err (\<lambda>_. ''writing new log'') (save_to C new_open))) (\<lambda>_ fs1.
          rewrite_log C E fs1 (ra_in a) sealed_old))"

text \<open>The logs that \<open>verify-chain\<close> loads and accepts, in the order of the arguments.\<close>

definition chain_logs :: "'a log_crates_scheme \<Rightarrow> filesystem \<Rightarrow> string list \<Rightarrow> string option \<Rightarrow> string + audit_log list" where
  "chain_logs C fs paths pk_path =
     and_then (ensure (length paths \<ge> 2) ''verify-chain requires at least 2 --log arguments'') (\<lambda>_.
     and_then (try_map (\<lambda>path.
         and_then (map_err (\<lambda>_. ''opening log '' @ path) (open_log C fs path)) (\<lambda>l. with_pk fs pk_path l)) paths) (\<lambda>logs.
     and_then (map_err (\<lambda>_. ''audit chain failed verification'') (verify_chain C logs)) (\<lambda>_.
     Inr logs)))"

definition cmd_verify_chain :: "'a log_crates_scheme \<Rightarrow> filesystem \<Rightarrow> string list \<Rightarrow> string option \<Rightarrow> string + nat \<times> u64 \<times> hash" where
  "cmd_verify_chain C fs paths pk_path =
     and_then (chain_logs C fs paths pk_path) (\<lambda>logs.
     Inr (length logs, sum_list (map al_len logs), current_root C (last logs)))"

subsection \<open>Facts\<close>

lemma bind_loaded_Inr [res_simps]: "bind_loaded C l kp = Inr l1 \<longleftrightarrow> bind_keypair C l kp = (Inr (), l1)"
  by (auto simp: bind_loaded_def split: prod.splits sum.splits)

lemma rewrite_log_Inr: "rewrite_log C E fs path l = (Inr (), fs') \<longleftrightarrow> save C (ci_save E) fs path l = (Inr (), fs')"
  by (auto simp: rewrite_log_def split: prod.splits sum.splits)

lemma then_fs_Inr: "then_fs r f = (Inr y, fs') \<longleftrightarrow> (\<exists>x fs. r = (Inr x, fs) \<and> f x fs = (Inr y, fs'))"
  by (auto simp: then_fs_def split: prod.splits sum.splits)

end
