(* ===== verification/Log_Types.thy ===== *)
theory Log_Types
  imports Audit_Channel Instances
begin

text \<open>
  The types of an audit log: identifiers of 16 bytes, roots of 32 bytes, metadata sorted by key
  and a tree in step with the entries. Every log that the operations of \<open>log.rs\<close> can produce, in
  any order, has them.
\<close>

text \<open>What the decoder gives has the types of the fields: roots of 32 bytes and sorted metadata.\<close>

definition cbor_typed :: "'a log_crates_scheme \<Rightarrow> bool" where
  "cbor_typed C \<longleftrightarrow> (\<forall>b e r. cbor_read_entry C b = Some (e, r) \<longrightarrow> entry_wf e)"

definition log_typed :: "'a log_crates_scheme \<Rightarrow> audit_log \<Rightarrow> bool" where
  "log_typed C l \<longleftrightarrow> log_wf l \<and> log_inv C l"

lemma read_entries_typed:
  assumes t: "cbor_typed C"
  shows "read_entries C b = Inr es \<Longrightarrow> list_all entry_wf es"
proof (induction "length b" arbitrary: b es rule: less_induct)
  case less
  show ?case
  proof (cases "b = []")
    case False
    then obtain e rest es' where e: "cbor_read_entry C b = Some (e, rest)" "es = e # es'" "read_entries C rest = Inr es'"
      "length rest < length b"
      using less.prems by (subst (asm) read_entries.simps) (auto simp: res_simps split: option.splits prod.splits if_splits)
    have "entry_wf e" using t e(1) unfolding cbor_typed_def by blast
    then show ?thesis using less.hyps [OF e(4,3)] e(2) by simp
  qed (use less.prems in \<open>simp add: read_entries.simps\<close>)
qed

lemma read_from_typed:
  assumes "cbor_typed C" and b: "read_from C b = Inr l"
  shows "log_wf l \<and> log_inv C l \<and> header_ok (header l) \<and> al_signer l = None"
proof -
  obtain x rest where h: "de_header C x = Inr (header l, rest)" "read_entries C rest = Inr (entries l)"
    using b by (auto simp: read_from_def res_simps split: if_splits)
  have "header_wf (header l)" using h(1)
    by (auto simp: de_header_def header_wf_def de_log_id_def de_opt_def de_bytes_32_def res_simps split: option.splits if_splits)
  then show ?thesis using read_from_inv [OF b] read_entries_typed [OF assms(1) h(2)] by (simp add: log_wf_def)
qed

lemma open_log_typed:
  assumes "cbor_typed C" "open_log C fs path = Inr l"
  shows "log_wf l \<and> log_inv C l \<and> header_ok (header l) \<and> al_signer l = None"
  using assms(2) read_from_typed [OF assms(1)] by (auto simp: open_log_def split: option.splits if_splits)

subsection \<open>Operations\<close>

lemma append_typed:
  assumes b: "blake3_ok C" and t: "log_typed C l" and ev: "event_wf ev" and len: "Suc (length (entries l)) < 2 ^ 64"
    and ap: "al_append C e now l ev = (Inr x, l')"
  shows "log_typed C l'"
proof -
  note sh = al_append_shape [OF ap]
  obtain h where h: "content_hash C (event x) = Inr h" "l' = l\<lparr> tree := mt_append C (tree l) h, entries := entries l @ [x] \<rparr>"
    using ap unfolding al_append_Inr by auto
  then have i: "log_inv C l'" using t by (auto simp: log_typed_def log_inv_iff intro: event_hashes_snoc)
  have "length (prev_root x) = 32" "length (new_root x) = 32"
    using tree_root_length [OF b, of l] tree_root_length [OF b i] t sh len by (simp_all add: log_typed_def)
  then show ?thesis using i t sh ev by (simp add: log_typed_def log_wf_def entry_wf_def)
qed

lemma fresh_typed: "header_wf h \<Longrightarrow> log_typed C \<lparr> header = h, entries = [], tree = MerkleTree_new, al_signer = s \<rparr>"
  by (simp add: log_typed_def log_wf_def log_inv_iff event_hashes_def)

lemma rotate_typed:
  assumes b: "blake3_ok C" and t: "log_typed C l" and len: "Suc (length (entries l)) < 2 ^ 64"
    and rnd: "length rnd = 16" and rot: "rotate_to C e1 e2 now rnd l s lbl hex = Inr (old, new)"
  shows "log_typed C old" "log_typed C new"
proof -
  obtain nid l1 x1 x2 where n: "new_id C hex rnd = Inr nid"
    and a1: "al_append C e1 now l (close_event C now (lh_log_id (header l)) nid lbl) = (Inr x1, l1)"
    and a2: "al_append C e2 now \<lparr> header = rotated_header C now l1 s lbl nid, entries = [],
          tree = MerkleTree_new, al_signer = Some s \<rparr>
       (open_event C now nid (lh_log_id (header l1)) (mt_root C (tree l1)) (label (header l1))) = (Inr x2, new)"
    and old: "old = l1\<lparr> al_signer := None \<rparr>"
    by (rule rotate_to_Inr [OF rot])
  have nid: "length nid = 16" using n rnd by (auto simp: new_id_def split: if_splits option.splits)
  have l1: "log_typed C l1" by (rule append_typed [OF b t rotation_event_wf(1) len a1])
  then show "log_typed C old" using old by (simp add: log_typed_def log_wf_def log_inv_iff)
  have "length (mt_root C (tree l1)) = 32"
    using tree_root_length [OF b, of l1] l1 al_append_shape [OF a1] len by (simp add: log_typed_def)
  then have "header_wf (rotated_header C now l1 s lbl nid)"
    using l1 nid by (simp add: header_wf_def rotated_header_def log_typed_def log_wf_def)
  from append_typed [OF b fresh_typed [OF this] rotation_event_wf(2) _ a2] show "log_typed C new" by simp
qed

text \<open>The logs a program holds: created, read from bytes, and what the operations make of them.\<close>

inductive held_log :: "'a log_crates_scheme \<Rightarrow> audit_log \<Rightarrow> bool" for C where
  held_create: "length rnd = 16 \<Longrightarrow> create_with_signer s lbl now rnd = Inr l \<Longrightarrow> held_log C l"
| held_read: "read_from C b = Inr l \<Longrightarrow> held_log C l"
| held_append: "held_log C l \<Longrightarrow> event_wf ev \<Longrightarrow> Suc (length (entries l)) < 2 ^ 64 \<Longrightarrow> al_append C e now l ev = (r, l') \<Longrightarrow> held_log C l'"
| held_bind: "held_log C l \<Longrightarrow> bind_signer C l s = (r, l') \<Longrightarrow> held_log C l'"
| held_override: "held_log C l \<Longrightarrow> held_log C (override_pubkey l pk)"
| held_old: "held_log C l \<Longrightarrow> Suc (length (entries l)) < 2 ^ 64 \<Longrightarrow> length rnd = 16 \<Longrightarrow>
    rotate_to C e1 e2 now rnd l s lbl hex = Inr (old, new) \<Longrightarrow> held_log C old"
| held_new: "held_log C l \<Longrightarrow> Suc (length (entries l)) < 2 ^ 64 \<Longrightarrow> length rnd = 16 \<Longrightarrow>
    rotate_to C e1 e2 now rnd l s lbl hex = Inr (old, new) \<Longrightarrow> held_log C new"

lemma held_log_typed:
  assumes b: "blake3_ok C" and t: "cbor_typed C"
  shows "held_log C l \<Longrightarrow> log_typed C l"
proof (induction rule: held_log.induct)
  case (held_create rnd s lbl now l)
  then show ?case using fresh_typed [of "header l" C "Some s"] by (auto simp: create_with_signer_def header_wf_def)
next
  case (held_read b l)
  then show ?case using read_from_typed [OF t] by (simp add: log_typed_def)
next
  case (held_append l ev e now r l')
  then show ?case using append_typed [OF b held_append(5,2,3)] al_append_Inl [of C e now l ev _ l'] by (cases r) auto
next
  case (held_bind l s r l')
  then show ?case by (auto simp: bind_signer_def log_typed_def log_wf_def log_inv_iff split: if_splits sum.splits)
next
  case (held_override l pk)
  then show ?case by (simp add: override_pubkey_def log_typed_def log_wf_def log_inv_iff header_wf_def)
next
  case held_old
  then show ?case using rotate_typed(1) [OF b] by blast
next
  case held_new
  then show ?case using rotate_typed(2) [OF b] by blast
qed

subsection \<open>The property\<close>

text \<open>
  C24. Every log a program holds, created or read from any bytes and then appended to, bound,
  given another key or rotated in any order, has a log id of 16 bytes, predecessor fields of
  16 and 32 bytes, entries with roots of 32 bytes and sorted metadata, and a tree that is the
  tree of its entries.
\<close>

theorem held_logs_are_well_typed:
  assumes "blake3_ok C" "cbor_typed C" "held_log C l"
  shows "header_wf (header l) \<and> list_all entry_wf (entries l) \<and> log_inv C l \<and>
    (length (entries l) < 2 ^ 64 \<longrightarrow> length (current_root C l) = 32)"
  using held_log_typed [OF assms] tree_root_length [OF assms(1), of l]
  by (simp add: log_typed_def log_wf_def current_root_def)

lemma toy_typed: "cbor_typed toy_log"
proof -
  have "entry_wf demo_entry" using demo_log_wf by (simp add: log_wf_def demo_log_def)
  then show ?thesis by (auto simp: cbor_typed_def toy_log_def toy_read_entry_def split: list.splits if_splits)
qed

theorem held_logs_are_well_typed_witness:
  "list_all entry_wf (entries demo_log) \<and> log_inv toy_log demo_log"
proof -
  have "held_log toy_log demo_log0" using held_create [OF _ demo_log0_created] by simp
  moreover have "event_wf demo_event" by (simp add: event_wf_def demo_event_def build_def builder_defs)
  ultimately have "held_log toy_log demo_log" using held_append [OF _ _ _ demo_append] by (simp add: demo_log0_def)
  then show ?thesis using held_logs_are_well_typed [OF _ toy_typed] by simp
qed

end
