(* ===== verification/Cli_Theorems.thy ===== *)
theory Cli_Theorems
  imports Auditcli Channel_Theorems Audit_Theorems Log_Types
begin

text \<open>
  The properties of the command line tool: what it creates verifies, what it appends to stays
  verified, what it rotates chains, and text from a log cannot steer the terminal.
\<close>

subsection \<open>Named hypotheses\<close>

text \<open>A signature of a secret key verifies under no well-formed public key but its own.\<close>

definition mldsa_exclusive :: "'a crates_scheme \<Rightarrow> bool" where
  "mldsa_exclusive C \<longleftrightarrow> (\<forall>e sk m ctx sig pk.
     mldsa_try_sign C e sk m ctx = Some sig \<and> length pk = PK_LEN \<and> mldsa_pk_parses C pk \<and> mldsa_verify C pk m sig ctx \<longrightarrow>
     pk = mldsa_get_public_key C sk)"

definition cli_crates_ok :: "'a log_crates_scheme \<Rightarrow> bool" where
  "cli_crates_ok C \<longleftrightarrow> mldsa_ok C \<and> mldsa_exclusive C \<and> blake3_ok C \<and> cbor_log_ok C \<and> cbor_typed C"

subsection \<open>Concrete arguments\<close>

definition cli_ok :: cli_io where
  "cli_ok = \<lparr> ci_canon = Some, ci_same = (\<lambda>p q. False), ci_stat = (\<lambda>p. True), ci_out = (\<lambda>p. demo_io), ci_save = demo_io,
     ci_write = (\<lambda>p. Finishes) \<rparr>"

definition cli_at :: "timestamp \<Rightarrow> cli_draw" where
  "cli_at t = \<lparr> dr_entropy = (\<lambda>i. 5), dr_event_time = 7, dr_now = t, dr_rnd = replicate 16 1 \<rparr>"

definition cli_files :: filesystem where
  "cli_files = [''l.qa'' \<mapsto> new_file (MAGIC @ [1]) private_mode, ''l.sk'' \<mapsto> new_file (kp_sk demo_keypair) private_mode,
     ''l.pk'' \<mapsto> new_file (kp_pk demo_keypair) private_mode]"

lemma toy_exclusive: "mldsa_exclusive toy_log"
  unfolding mldsa_exclusive_def toy_log_fields by (auto simp: toy_crates_def replicate_eq_replicate)

lemma toy_cli [simp]: "cli_crates_ok toy_log"
  by (simp add: cli_crates_ok_def toy_exclusive toy_typed)

lemma cli_key_paths:
  "derive_key_path ''l.qa'' ''sk'' = ''l.sk''" "derive_key_path ''l.qa'' ''pk'' = ''l.pk''"
  by (simp_all add: derive_key_path_def path_parent_def path_file_stem_def path_file_name_def path_join_def strip_slashes_def)

lemma cli_keypair: "load_keypair toy_log e cli_files ''l.sk'' ''l.pk'' = Inr demo_keypair"
proof -
  have "KeyPair_sign toy_log demo_keypair e challenge = Inr (replicate SIG_LEN (5 + sum_list challenge))"
    using demo_sign [of e challenge] by (simp add: demo_signer_def keypair_signer_def)
  moreover from KeyPair_sign_verifies [OF demo_keypair_good this]
  have "verify_sig toy_log (kp_pk demo_keypair) challenge (replicate SIG_LEN (5 + sum_list challenge)) 0 = Inr ()" .
  moreover have "KeyPair_from_parts (kp_pk demo_keypair) (kp_sk demo_keypair) = demo_keypair"
    by (simp add: KeyPair_from_parts_def)
  moreover have "length (kp_pk demo_keypair) = PUBLIC_KEY_LEN" "length (kp_sk demo_keypair) = SECRET_KEY_LEN"
    by (simp_all add: demo_keypair_def key_lens)
  ultimately show ?thesis
    by (simp add: load_keypair_def cli_files_def read_file_def new_file_def SecretKey_from_bytes_def PublicKey_from_bytes_def Let_def)
qed

subsection \<open>Outputs\<close>

lemma distinct_from_path:
  "distinct_from E fs path i others = Inr () \<Longrightarrow> output_identity E fs path = Inr i \<Longrightarrow> path \<notin> set others"
  by (induction others) (auto simp: res_simps)

lemma distinct_after_distinct:
  "distinct_after E fs seen paths = Inr () \<Longrightarrow> distinct paths \<and> set paths \<inter> set seen = {}"
proof (induction paths arbitrary: seen)
  case (Cons p ps)
  then obtain i where "output_identity E fs p = Inr i" "distinct_from E fs p i seen = Inr ()"
    "distinct_after E fs (seen @ [p]) ps = Inr ()"
    by (auto simp: res_simps)
  then show ?case using Cons.IH distinct_from_path by fastforce
qed simp

lemma ensure_distinct: "ensure_distinct_paths E fs paths = Inr () \<Longrightarrow> distinct paths"
  using distinct_after_distinct by (auto simp: ensure_distinct_paths_def)

lemma write_output_cases:
  assumes "write_output E fs path force produced = (r, fs')"
  shows "fs' = fs \<and> r \<noteq> Inr () \<or> (\<exists>b. produced = Inr b \<and> fs' = fs(path \<mapsto> new_file b private_mode) \<and> (force \<or> fs path = None))"
  using assms by (auto simp: write_output_def Let_def res_simps split: sum.splits)

lemma write_output_ok:
  "write_output E fs path force produced = (Inr u, fs') \<Longrightarrow>
   \<exists>b. produced = Inr b \<and> fs' = fs(path \<mapsto> new_file b private_mode) \<and> (force \<or> fs path = None)"
  using write_output_cases by fastforce

subsection \<open>Logs on files\<close>

lemma load_keypair_good:
  assumes "mldsa_ok C" "mldsa_exclusive C" "load_keypair C e fs sk pk = Inr kp"
  shows "keypair_good C kp" "length (kp_pk kp) = PUBLIC_KEY_LEN" "signer_ok C (keypair_signer C kp)"
proof -
  obtain sig where s: "KeyPair_sign C kp e challenge = Inr sig" "verify_sig C (kp_pk kp) challenge sig 0 = Inr ()"
    using assms(3) by (auto simp: load_keypair_def Let_def res_simps)
  then show k: "keypair_good C kp" and l: "length (kp_pk kp) = PUBLIC_KEY_LEN"
    using assms(1,2) unfolding mldsa_exclusive_def keypair_good_def keypair_matches_def
    by (auto simp: KeyPair_sign_def verify_sig_def key_lens split: if_splits option.splits)
  show "signer_ok C (keypair_signer C kp)"
    using keypair_backend.obj_good [OF k] l by (simp add: signer_ok_def keypair_signer_def)
qed

lemma bound_live_ok:
  assumes "log_wf l" "log_inv C l" "signer_ok C (keypair_signer C kp)" "bind_keypair C l kp = (Inr u, l1)"
  shows "live_ok C l1 \<and> l1 = l\<lparr> al_signer := Some (keypair_signer C kp) \<rparr> \<and> al_verify C l = Inr ()"
  using assms by (auto simp: bind_keypair_def bind_signer_def live_ok_def log_ok_def log_inv_def log_wf_def signer_bound_def
      signer_ok_def al_verify_def split: if_splits sum.splits)

lemma live_header_ok: "live_ok C l \<Longrightarrow> header_ok (header l)"
  by (auto simp: live_ok_def log_ok_def al_verify_def verify_with_pubkey_def res_simps)

lemma written_reads:
  assumes "cbor_log_ok C" "live_ok C l" "save_to C l = Inr b" "fs path = Some n" "is_file n" "contents n = b"
  shows "open_log C fs path = Inr (l\<lparr> al_signer := None \<rparr>)"
  using read_from_save_to [OF assms(1) _ _ live_header_ok [OF assms(2)] assms(3)] assms
  by (simp add: open_log_def live_ok_def log_ok_def)

lemma sealed_verifies: "live_ok C l \<Longrightarrow> al_verify C (l\<lparr> al_signer := None \<rparr>) = Inr ()"
  by (simp add: live_ok_def log_ok_def al_verify_def)

lemma metas_wf: "bt_wf (b_metadata b) \<Longrightarrow> bt_wf (b_metadata (metas ps b))"
  by (simp add: metas_metadata bt_fold_wf)

lemma append_event_wf: "event_wf (append_event now a)"
proof -
  have "metadata (append_event now a) = b_metadata (metas (aa_meta a)
      (set_outcome (aa_outcome a) (set_resource (aa_resource a) (set_action (aa_action a) (set_actor (aa_actor a) builder)))))"
    by (simp add: append_event_def build_def)
  then show ?thesis unfolding event_wf_def using metas_wf by (simp add: builder_defs)
qed

subsection \<open>A log on files\<close>

definition cli_event_args :: append_args where
  "cli_event_args = \<lparr> aa_log = ''l.qa'', aa_sk = None, aa_pk = None, aa_actor = ''svc'', aa_action = ''login'',
     aa_resource = [], aa_outcome = ''ok'', aa_meta = [] \<rparr>"

lemma demo_saves: "save_to toy_log demo_log0 = Inr (MAGIC @ [1])" "save_to toy_log demo_log = Inr (MAGIC @ [1, 2])"
  by (simp_all add: save_to_def demo_log_def demo_log0_def toy_log_def)

lemma cli_opens: "open_log toy_log cli_files ''l.qa'' = Inr (demo_log0\<lparr> al_signer := None \<rparr>)"
  using written_reads [OF toy_cbor_log_ok demo_live demo_saves(1), of cli_files "''l.qa''" "new_file (MAGIC @ [1]) private_mode"]
  by (simp add: cli_files_def new_file_def)

lemma cli_binds: "bind_keypair toy_log (demo_log0\<lparr> al_signer := None \<rparr>) demo_keypair = (Inr (), demo_log0)"
  using sealed_verifies [OF demo_live]
  by (simp add: bind_keypair_def bind_signer_def al_verify_def demo_log0_def demo_signer_def demo_header_def demo_keypair_def
      keypair_signer_def)

lemma cli_event: "append_event 7 cli_event_args = demo_event"
  by (simp add: append_event_def cli_event_args_def demo_event_def builder_defs metas_def build_def unwrap_or_def)

lemma cli_paths_distinct: "ensure_distinct_paths cli_ok cli_files [''l.qa'', ''l.sk'', ''l.pk''] = Inr ()"
  by (simp add: ensure_distinct_paths_def output_identity_def cli_ok_def cli_files_def)

lemma cli_append: "\<exists>fs'. cmd_append toy_log cli_ok (cli_at 9) cli_event_args cli_files = (Inr demo_entry, fs')"
proof -
  have k: "resolve_key_path cli_files None ''l.qa'' ''sk'' = ''l.sk''" "resolve_key_path cli_files None ''l.qa'' ''pk'' = ''l.pk''"
    by (simp_all add: resolve_key_path_def cli_key_paths Let_def cli_files_def)
  have a: "al_append toy_log 5 9 demo_log0 demo_event = (Inr demo_entry, demo_log)"
    by (rule demo_append)
  have b: "bind_loaded toy_log (demo_log0\<lparr> al_signer := None \<rparr>) demo_keypair = Inr demo_log0"
    using cli_binds by (simp add: bind_loaded_Inr)
  have p: "kp_pk demo_keypair = pubkey (header (demo_log0\<lparr> al_signer := None \<rparr>))"
    by (simp add: demo_log0_def demo_header_def demo_keypair_def)
  obtain fs' where sv: "save toy_log (ci_save cli_ok) cli_files ''l.qa'' demo_log = (Inr (), fs')"
    by (simp add: save_def demo_saves cli_files_def new_file_def cli_ok_def demo_io_def)
  have f: "aa_log cli_event_args = ''l.qa''" "aa_sk cli_event_args = None" "aa_pk cli_event_args = None"
    by (simp_all add: cli_event_args_def)
  have d: "dr_entropy (cli_at 9) i = 5" "dr_event_time (cli_at 9) = 7" "dr_now (cli_at 9) = 9" for i
    by (simp_all add: cli_at_def)
  show ?thesis
    using sealed_verifies [OF demo_live] p [symmetric]
    by (simp add: cmd_append_def Let_def f d k cli_opens cli_paths_distinct cli_keypair a b sv cli_event)
qed

subsection \<open>Appending\<close>

lemma cmd_append_steps:
  assumes C: "cli_crates_ok C" and a: "cmd_append C E D a fs = (r, fs')"
    and len: "\<And>l. open_log C fs (aa_log a) = Inr l \<Longrightarrow> Suc (length (entries l)) < 2 ^ 64"
  shows "fs' = fs \<and> (\<forall>x. r \<noteq> Inr x) \<or> (\<exists>l0 l x rs. open_log C fs (aa_log a) = Inr l0 \<and> al_verify C l0 = Inr () \<and> live_ok C l \<and>
    header l = header l0 \<and> entries l = entries l0 @ [x] \<and> event x = append_event (dr_event_time D) a \<and>
    save C (ci_save E) fs (aa_log a) l = (rs, fs') \<and> (\<forall>y. r = Inr y \<longrightarrow> y = x \<and> rs = Inr ()))"
proof (cases "fs' = fs \<and> (\<forall>x. r \<noteq> Inr x)")
  case False
  let ?sk = "resolve_key_path fs (aa_sk a) (aa_log a) ''sk''" and ?pk = "resolve_key_path fs (aa_pk a) (aa_log a) ''pk''"
  obtain l0 kp l1 x l rs where l0: "open_log C fs (aa_log a) = Inr l0"
    and kp: "load_keypair C (dr_entropy D 0) fs ?sk ?pk = Inr kp" and b: "bind_keypair C l0 kp = (Inr (), l1)"
    and ap: "al_append C (dr_entropy D 1) (dr_now D) l1 (append_event (dr_event_time D) a) = (Inr x, l)"
    and sv: "save C (ci_save E) fs (aa_log a) l = (rs, fs')" and r: "\<forall>y. r = Inr y \<longrightarrow> y = x \<and> rs = Inr ()"
    using False a unfolding cmd_append_def Let_def
    by (auto simp: res_simps split: sum.splits prod.splits)
  have c: "mldsa_ok C" "mldsa_exclusive C" "blake3_ok C" "cbor_typed C" using C by (simp_all add: cli_crates_ok_def)
  have t: "log_wf l0" "log_inv C l0" using open_log_typed [OF c(4) l0] by simp_all
  have l1: "live_ok C l1" "l1 = l0\<lparr> al_signer := Some (keypair_signer C kp) \<rparr>" "al_verify C l0 = Inr ()"
    using bound_live_ok [OF t load_keypair_good(3) [OF c(1,2) kp] b] by blast+
  have "Suc (length (entries l1)) < 2 ^ 64" using len [OF l0] l1(2) by simp
  then have "live_ok C l" using append_live_ok [OF c(3) l1(1) append_event_wf _ ap] by blast
  then show ?thesis using l0 l1 al_append_shape [OF ap] sv r by auto
qed simp

text \<open>
  C18. An append that succeeds started from a log that verifies and leaves at its path a log
  that verifies, with the same header and exactly one more entry, the one returned, which
  holds the event of the arguments; every other file is as it was. An append that fails
  leaves all files as they were, or such a log at its path.
\<close>

theorem cli_append_extends_a_verified_log:
  assumes "cli_crates_ok C" "cmd_append C E D a fs = (r, fs')"
    and "\<And>l. open_log C fs (aa_log a) = Inr l \<Longrightarrow> Suc (length (entries l)) < 2 ^ 64"
  shows "fs' = fs \<and> (\<forall>x. r \<noteq> Inr x) \<or>
    (\<exists>l0 l x. open_log C fs (aa_log a) = Inr l0 \<and> al_verify C l0 = Inr () \<and>
       open_log C fs' (aa_log a) = Inr l \<and> al_verify C l = Inr () \<and> header l = header l0 \<and>
       entries l = entries l0 @ [x] \<and> event x = append_event (dr_event_time D) a \<and>
       (\<forall>y. r = Inr y \<longrightarrow> y = x) \<and> (\<forall>q. q \<noteq> aa_log a \<longrightarrow> fs' q = fs q))"
proof (cases "fs' = fs \<and> (\<forall>x. r \<noteq> Inr x)")
  case False
  then obtain l0 l x rs where l0: "open_log C fs (aa_log a) = Inr l0" "al_verify C l0 = Inr ()" and l: "live_ok C l"
    and e: "header l = header l0" "entries l = entries l0 @ [x]" "event x = append_event (dr_event_time D) a"
    and sv: "save C (ci_save E) fs (aa_log a) l = (rs, fs')" and r: "\<forall>y. r = Inr y \<longrightarrow> y = x \<and> rs = Inr ()"
    using cmd_append_steps [OF assms] by blast
  obtain b n where "save_to C l = Inr b" "fs' (aa_log a) = Some n" "is_file n" "contents n = b"
    using save_result [OF sv] False r by blast
  then have o: "open_log C fs' (aa_log a) = Inr (l\<lparr> al_signer := None \<rparr>)"
    using written_reads [OF _ l] assms(1) by (simp add: cli_crates_ok_def)
  have "\<forall>q. q \<noteq> aa_log a \<longrightarrow> fs' q = fs q" using save_frame [OF sv] by blast
  then show ?thesis using l0 o sealed_verifies [OF l] e r
    by (intro disjI2 exI [of _ l0] exI [of _ "l\<lparr> al_signer := None \<rparr>"] exI [of _ x]) simp
qed simp

theorem cli_append_extends_a_verified_log_witness:
  "\<exists>fs' l. cmd_append toy_log cli_ok (cli_at 9) cli_event_args cli_files = (Inr demo_entry, fs') \<and>
     open_log toy_log fs' ''l.qa'' = Inr l \<and> al_verify toy_log l = Inr () \<and> entries l = [demo_entry]"
proof -
  obtain fs' where fs': "cmd_append toy_log cli_ok (cli_at 9) cli_event_args cli_files = (Inr demo_entry, fs')"
    using cli_append by blast
  have a: "aa_log cli_event_args = ''l.qa''" by (simp add: cli_event_args_def)
  have "Suc (length (entries l)) < 2 ^ 64" if "open_log toy_log cli_files (aa_log cli_event_args) = Inr l" for l
    using that cli_opens by (auto simp: a demo_log0_def)
  from cli_append_extends_a_verified_log [OF toy_cli fs' this]
  show ?thesis using fs' cli_opens by (auto simp: a demo_log0_def)
qed

subsection \<open>Creating\<close>

lemma created_live_ok:
  assumes "mldsa_ok C" "KeyPair_generate C e = Inr kp" "create_with_label C kp lbl now rnd = Inr l" "length rnd = 16"
  shows "live_ok C l" "entries l = []" "pubkey (header l) = kp_pk kp" "label (header l) = lbl"
proof -
  have kp: "keypair_good C kp" "length (kp_pk kp) = PUBLIC_KEY_LEN"
    using assms(1,2) KeyPair_generate_matches mldsa_keygen_lengths [OF assms(1), of e]
    by (auto simp: keypair_good_def keypair_matches_def KeyPair_generate_def key_lens split: option.splits)
  have s: "signer_ok C (keypair_signer C kp)"
    using keypair_backend.obj_good [OF kp(1)] kp(2) by (simp add: signer_ok_def keypair_signer_def)
  show "live_ok C l" "entries l = []" "pubkey (header l) = kp_pk kp" "label (header l) = lbl"
    using create_log_ok [OF s, of lbl now rnd l] s assms(3,4)
    by (auto simp: live_ok_def create_with_label_def create_with_signer_def signer_ok_def log_wf_def header_wf_def keypair_signer_def)
qed

text \<open>
  C32. Creating a log without the force flag changes no file that exists, whatever fails. When it
  succeeds, the key files hold a generated pair, the secret one readable by its owner only,
  and the log opens, verifies, is empty, and names the pair's public key and the label.
\<close>

theorem cli_init_creates_a_verifiable_log:
  assumes "cli_crates_ok C" "cmd_init C E D a fs = (r, fs')" "length (dr_rnd D) = 16"
  shows "(\<not> ia_force a \<longrightarrow> (\<forall>p n. fs p = Some n \<longrightarrow> fs' p = Some n)) \<and>
    (r = Inr () \<longrightarrow> (\<exists>kp l. KeyPair_generate C (dr_entropy D 0) = Inr kp \<and>
       fs' (unwrap_or (derive_key_path (ia_log a) ''sk'') (ia_sk a)) = Some (new_file (kp_sk kp) private_mode) \<and>
       fs' (unwrap_or (derive_key_path (ia_log a) ''pk'') (ia_pk a)) = Some (new_file (kp_pk kp) private_mode) \<and>
       open_log C fs' (ia_log a) = Inr l \<and> al_verify C l = Inr () \<and> entries l = [] \<and>
       pubkey (header l) = kp_pk kp \<and> label (header l) = ia_label a))"
proof -
  let ?sk = "unwrap_or (derive_key_path (ia_log a) ''sk'') (ia_sk a)" and ?pk = "unwrap_or (derive_key_path (ia_log a) ''pk'') (ia_pk a)"
  have "fs' p = Some n" if "\<not> ia_force a" "fs p = Some n" for p n
    using assms(2) that unfolding cmd_init_def Let_def write_key_def then_fs_def
    by (auto dest!: write_output_cases split: sum.splits prod.splits if_splits)
  moreover have "\<exists>kp l. KeyPair_generate C (dr_entropy D 0) = Inr kp \<and> fs' ?sk = Some (new_file (kp_sk kp) private_mode) \<and>
       fs' ?pk = Some (new_file (kp_pk kp) private_mode) \<and> open_log C fs' (ia_log a) = Inr l \<and> al_verify C l = Inr () \<and> entries l = [] \<and>
       pubkey (header l) = kp_pk kp \<and> label (header l) = ia_label a" if r: "r = Inr ()"
  proof -
    obtain kp where d: "distinct [ia_log a, ?sk, ?pk]" and kp: "KeyPair_generate C (dr_entropy D 0) = Inr kp"
      using assms(2) r ensure_distinct [of E fs] unfolding cmd_init_def Let_def by (fastforce simp: res_simps split: sum.splits)
    obtain l where l: "create_with_label C kp (ia_label a) (dr_now D) (dr_rnd D) = Inr l"
      by (simp add: create_with_label_def create_with_signer_def)
    obtain fs1 fs2 where w: "write_key E fs ?sk (kp_sk kp) (ia_force a) = (Inr (), fs1)"
      "write_key E fs1 ?pk (kp_pk kp) (ia_force a) = (Inr (), fs2)"
      and wl: "write_output E fs2 (ia_log a) (ia_force a) (map_err (\<lambda>_. ''writing log'') (save_to C l)) = (Inr (), fs')"
      using assms(2) r kp unfolding cmd_init_def Let_def by (auto simp: res_simps then_fs_Inr l split: sum.splits)
    obtain b where b: "save_to C l = Inr b" "fs' = fs2(ia_log a \<mapsto> new_file b private_mode)"
      using write_output_ok [OF wl] by (auto simp: res_simps)
    have fs2: "fs2 ?sk = Some (new_file (kp_sk kp) private_mode)" "fs2 ?pk = Some (new_file (kp_pk kp) private_mode)"
      using write_output_ok [OF w(1) [unfolded write_key_def]] write_output_ok [OF w(2) [unfolded write_key_def]] d by auto
    have c: "mldsa_ok C" "cbor_log_ok C" using assms(1) by (simp_all add: cli_crates_ok_def)
    note lo = created_live_ok [OF c(1) kp l assms(3)]
    have "open_log C fs' (ia_log a) = Inr (l\<lparr> al_signer := None \<rparr>)"
      using written_reads [OF c(2) lo(1) b(1), of fs' "ia_log a" "new_file b private_mode"] by (simp add: b(2) new_file_def)
    then show ?thesis using kp fs2 b(2) d lo sealed_verifies [OF lo(1)] by auto
  qed
  ultimately show ?thesis by blast
qed

definition cli_create_args :: init_args where
  "cli_create_args = \<lparr> ia_log = ''l.qa'', ia_sk = None, ia_pk = None, ia_label = ''demo'', ia_force = False \<rparr>"

lemma cli_fresh:
  assumes "fs path = None"
  shows "ensure_overwritable cli_ok fs path False = Inr ()"
    "write_output cli_ok fs path False (Inr b) = (Inr (), fs(path \<mapsto> new_file b private_mode))"
  using assms by (simp_all add: write_output_def ensure_overwritable_def cli_ok_def demo_io_def)

lemma cli_init: "\<exists>fs'. cmd_init toy_log cli_ok (cli_at 0) cli_create_args (\<lambda>p. None) = (Inr (), fs')"
proof -
  have g: "KeyPair_generate toy_log 5 = Inr demo_keypair"
    by (simp add: KeyPair_generate_def toy_log_def toy_crates_def demo_keypair_def)
  have c: "create_with_label toy_log demo_keypair ''demo'' 0 (replicate 16 1) = Inr demo_log0"
    using demo_log0_created by (simp add: create_with_label_def demo_signer_def)
  have d: "ensure_distinct_paths cli_ok (\<lambda>p. None) [''l.qa'', ''l.sk'', ''l.pk''] = Inr ()"
    by (simp add: ensure_distinct_paths_def output_identity_def cli_ok_def parent_dir_def path_parent_def path_file_name_def
        path_join_def strip_slashes_def)
  show ?thesis
    by (simp add: cmd_init_def Let_def cli_create_args_def cli_at_def cli_key_paths unwrap_or_def d g c write_key_def then_fs_def
        cli_fresh demo_saves)
qed

theorem cli_init_creates_a_verifiable_log_witness:
  "\<exists>fs' l. cmd_init toy_log cli_ok (cli_at 0) cli_create_args (\<lambda>p. None) = (Inr (), fs') \<and>
     fs' ''l.sk'' = Some (new_file (kp_sk demo_keypair) private_mode) \<and>
     open_log toy_log fs' ''l.qa'' = Inr l \<and> al_verify toy_log l = Inr () \<and> entries l = []"
proof -
  obtain fs' where fs': "cmd_init toy_log cli_ok (cli_at 0) cli_create_args (\<lambda>p. None) = (Inr (), fs')"
    using cli_init by blast
  have "KeyPair_generate toy_log (dr_entropy (cli_at 0) 0) = Inr demo_keypair"
    by (simp add: KeyPair_generate_def toy_log_def toy_crates_def demo_keypair_def cli_at_def)
  then show ?thesis
    using cli_init_creates_a_verifiable_log [OF toy_cli fs'] fs'
    by (auto simp: cli_create_args_def cli_key_paths unwrap_or_def cli_at_def)
qed

subsection \<open>Rotating\<close>

lemma chain_last_signer: "verify_chain C (ls @ [l\<lparr> al_signer := s \<rparr>]) = Inr () \<longleftrightarrow> verify_chain C (ls @ [l]) = Inr ()"
  by (cases "ls = []") (simp_all add: verify_chain_iff verify_windows_snoc link_spec_def al_verify_def)

lemma rotate_signer_ok:
  assumes "mldsa_ok C" "mldsa_exclusive C" "load_keypair C e fs sk pk = Inr kp" "rotate_signer C e' fs a kp = Inr s"
  shows "signer_ok C s"
  using assms load_keypair_good(3) [OF assms(1,2)]
  by (auto simp: rotate_signer_def res_simps split: option.splits)

lemma rotate_checks_distinct: "rotate_checks E fs a = Inr () \<Longrightarrow> ra_in a \<noteq> ra_out a"
  using ensure_distinct [of E fs "[ra_in a, ra_out a]"] by (auto simp: rotate_checks_def res_simps)

text \<open>
  A rotation stops with the files untouched, or it made two logs, wrote the new one, and then
  replaced the input by the sealed one; each of the two writes may have failed.
\<close>

lemma cmd_rotate_steps:
  assumes "cmd_rotate C E D a fs = (r, fs')" "\<not> (fs' = fs \<and> r \<noteq> Inr ())"
  obtains l kp l1 s old new rw fs1 where "ra_in a \<noteq> ra_out a" "open_log C fs (ra_in a) = Inr l"
    "load_keypair C (dr_entropy D 0) fs (ra_sk a) (ra_pk a) = Inr kp" "bind_keypair C l kp = (Inr (), l1)"
    "rotate_signer C (dr_entropy D 1) fs a kp = Inr s"
    "rotate_to C (dr_entropy D 2) (dr_entropy D 3) (dr_now D) (dr_rnd D) l1 s (ra_new_label a) (ra_new_log_id a) = Inr (old, new)"
    "write_output E fs (ra_out a) (ra_force a) (map_err (\<lambda>_. ''writing new log'') (save_to C new)) = (rw, fs1)"
    "fs' = fs1 \<and> r \<noteq> Inr () \<or> rw = Inr () \<and> (\<exists>rs. save C (ci_save E) fs1 (ra_in a) old = (rs, fs') \<and> (r = Inr () \<longrightarrow> rs = Inr ()))"
proof -
  obtain l kp l1 s old new where st: "rotate_checks E fs a = Inr ()" "open_log C fs (ra_in a) = Inr l"
    "load_keypair C (dr_entropy D 0) fs (ra_sk a) (ra_pk a) = Inr kp" "bind_keypair C l kp = (Inr (), l1)"
    "rotate_signer C (dr_entropy D 1) fs a kp = Inr s"
    "rotate_to C (dr_entropy D 2) (dr_entropy D 3) (dr_now D) (dr_rnd D) l1 s (ra_new_label a) (ra_new_log_id a) = Inr (old, new)"
    and tl: "then_fs (write_output E fs (ra_out a) (ra_force a) (map_err (\<lambda>_. ''writing new log'') (save_to C new))) (\<lambda>_ fs1.
          rewrite_log C E fs1 (ra_in a) old) = (r, fs')"
    using assms unfolding cmd_rotate_def by (auto simp: res_simps split: sum.splits)
  obtain rw fs1 where w: "write_output E fs (ra_out a) (ra_force a) (map_err (\<lambda>_. ''writing new log'') (save_to C new)) = (rw, fs1)"
    by (meson surj_pair)
  have "fs' = fs1 \<and> r \<noteq> Inr () \<or> rw = Inr () \<and> (\<exists>rs. save C (ci_save E) fs1 (ra_in a) old = (rs, fs') \<and> (r = Inr () \<longrightarrow> rs = Inr ()))"
    using tl w by (auto simp: then_fs_def rewrite_log_def split: prod.splits sum.splits)
  then show ?thesis by (rule that [OF rotate_checks_distinct [OF st(1)] st(2-6) w])
qed

definition rotated :: "'a log_crates_scheme \<Rightarrow> audit_log \<Rightarrow> audit_log \<Rightarrow> audit_log \<Rightarrow> bool" where
  "rotated C l old new \<longleftrightarrow> live_ok C old \<and> live_ok C new \<and> al_signer old = None \<and> header old = header l \<and>
     (\<exists>x. entries old = entries l @ [x]) \<and>
     (\<forall>ls. verify_chain C (ls @ [l]) = Inr () \<longrightarrow> verify_chain C (ls @ [old, new]) = Inr ())"

lemma loaded_rotates:
  assumes C: "cli_crates_ok C" and o: "open_log C fs path = Inr l" and kp: "load_keypair C e fs' sk pk = Inr kp"
    and b: "bind_keypair C l kp = (Inr (), l1)" and s: "rotate_signer C e' fs' a kp = Inr s"
    and rot: "rotate_to C e1 e2 now rnd l1 s lbl hex = Inr (old, new)"
    and rnd: "length rnd = 16" and len: "Suc (length (entries l)) < 2 ^ 64"
  shows "rotated C l old new"
proof -
  have c: "mldsa_ok C" "mldsa_exclusive C" "blake3_ok C" "cbor_typed C" using C by (simp_all add: cli_crates_ok_def)
  have t: "log_wf l" "log_inv C l" using open_log_typed [OF c(4) o] by simp_all
  have l1: "live_ok C l1" "l1 = l\<lparr> al_signer := Some (keypair_signer C kp) \<rparr>"
    using bound_live_ok [OF t load_keypair_good(3) [OF c(1,2) kp] b] by blast+
  note so = rotate_signer_ok [OF c(1,2) kp s]
  have n: "Suc (length (entries l1)) < 2 ^ 64" using len l1(2) by simp
  have lok: "log_ok C l1" and sg: "\<And>s. al_signer l1 = Some s \<Longrightarrow> signer_good C s" using l1(1) by (auto simp: live_ok_def)
  have "verify_chain C (ls @ [old, new]) = Inr ()" if "verify_chain C (ls @ [l]) = Inr ()" for ls
  proof -
    have "verify_chain C (ls @ [l1]) = Inr ()" using that l1(2) chain_last_signer by metis
    then show ?thesis by (rule chain_rotate [OF _ lok sg so n rot])
  qed
  then show ?thesis
    using rotate_live_ok(1,2) [OF c(3) l1(1) so n rnd rot] rotate_to_ok(4,5,6) [OF lok sg so n rot] l1(2)
    by (simp add: rotated_def)
qed

lemma try_map_opened:
  "map (open_log C fs) ps = map Inr ls \<Longrightarrow>
   try_map (\<lambda>path. and_then (map_err (\<lambda>_. ''opening log '' @ path) (open_log C fs path)) (\<lambda>l. with_pk fs None l)) ps = Inr ls"
  by (induction ps arbitrary: ls) (auto simp: with_pk_def)

lemma cmd_verify_chain_opened:
  assumes "map (open_log C fs) ps = map Inr ls" "verify_chain C ls = Inr ()" "2 \<le> length ps"
  shows "cmd_verify_chain C fs ps None = Inr (length ps, sum_list (map al_len ls), current_root C (last ls))"
  using try_map_opened [OF assms(1)] assms map_eq_imp_length_eq [OF assms(1)] by (simp add: cmd_verify_chain_def chain_logs_def)

lemma rotated_files:
  assumes c: "cbor_log_ok C" and r: "rotated C l old new" and io: "p \<noteq> q"
    and w: "write_output E fs q force (map_err f (save_to C new)) = (Inr (), fs1)"
    and sv: "save C io fs1 p old = (Inr (), fs')"
    and ps: "map (open_log C fs) ps = map Inr ls" "p \<notin> set ps" "q \<notin> set ps"
  shows "map (open_log C fs') (ps @ [p, q]) = map Inr ((ls @ [old]) @ [new\<lparr> al_signer := None \<rparr>])"
proof -
  obtain bn where bn: "save_to C new = Inr bn" "fs1 = fs(q \<mapsto> new_file bn private_mode)"
    using write_output_ok [OF w] by (auto simp: res_simps)
  obtain n where n: "save_to C old = Inr (contents n)" "fs' p = Some n" "is_file n"
    using save_result [OF sv] by auto
  have frame: "fs' x = fs1 x" if "x \<noteq> p" for x using save_frame [OF sv] that by blast
  have "open_log C fs' p = Inr old"
    using written_reads [OF c, of old "contents n" fs' p n] n r by (simp add: rotated_def)
  moreover have "open_log C fs' q = Inr (new\<lparr> al_signer := None \<rparr>)"
    using written_reads [OF c, of new bn fs' q "new_file bn private_mode"] frame [of q] io bn r
    by (simp add: new_file_def rotated_def)
  moreover have "fs' x = fs x" if "x \<in> set ps" for x
  proof -
    have "x \<noteq> p" "x \<noteq> q" using that ps(2,3) by auto
    then show ?thesis using frame bn(2) by simp
  qed
  then have "map (open_log C fs') ps = map Inr ls" using ps(1) open_log_frame [of ps fs' fs C] by simp
  ultimately show ?thesis by simp
qed

text \<open>The file encoding as a table of any headers and entries, for logs that are computed.\<close>

definition table_pos :: "'a list \<Rightarrow> 'a \<Rightarrow> bytes option" where
  "table_pos xs x = (if x \<in> set xs then Some [of_nat (length (takeWhile (\<lambda>y. y \<noteq> x) xs))] else None)"

definition table_at :: "'a list \<Rightarrow> bytes \<Rightarrow> ('a \<times> bytes) option" where
  "table_at xs b = (case b of [] \<Rightarrow> None | i # r \<Rightarrow> if unat i < length xs then Some (xs ! unat i, r) else None)"

definition toy_table :: "log_header list \<Rightarrow> log_entry list \<Rightarrow> log_crates" where
  "toy_table H E = toy_log\<lparr> cbor_header := table_pos H, cbor_entry := table_pos E,
     cbor_read_header := table_at H, cbor_read_entry := table_at E \<rparr>"

lemma table_at_pos:
  assumes "length xs < 256" "table_pos xs x = Some b"
  shows "table_at xs (b @ r) = Some (x, r)" "b \<noteq> []"
proof -
  have x: "x \<in> set xs" and b: "b = [of_nat (length (takeWhile (\<lambda>y. y \<noteq> x) xs))]"
    using assms(2) by (auto simp: table_pos_def split: if_splits)
  let ?n = "length (takeWhile (\<lambda>y. y \<noteq> x) xs)"
  have n: "?n < length xs" using x by (induction xs) auto
  then have "unat (of_nat ?n :: u8) = ?n" using assms(1) by (simp add: unat_of_nat take_bit_nat_eq_self)
  moreover have "xs ! ?n = x" using nth_length_takeWhile [OF n] by simp
  ultimately show "table_at xs (b @ r) = Some (x, r)" "b \<noteq> []" using n b by (simp_all add: table_at_def)
qed

lemma table_fields [simp]:
  "blake3 (toy_table H E) = blake3 toy_log" "hex_encode (toy_table H E) = hex_encode toy_log"
  "hex_decode (toy_table H E) = hex_decode toy_log" "mldsa_keygen (toy_table H E) = mldsa_keygen toy_log"
  "mldsa_sk_parses (toy_table H E) = mldsa_sk_parses toy_log" "mldsa_pk_parses (toy_table H E) = mldsa_pk_parses toy_log"
  "mldsa_get_public_key (toy_table H E) = mldsa_get_public_key toy_log"
  "mldsa_try_sign (toy_table H E) = mldsa_try_sign toy_log" "mldsa_verify (toy_table H E) = mldsa_verify toy_log"
  "cbor_event (toy_table H E) = cbor_event toy_log" "cbor_payload (toy_table H E) = cbor_payload toy_log"
  by (simp_all add: toy_table_def)

lemma table_cli:
  assumes "length H < 256" "length E < 256" "list_all entry_wf E"
  shows "cli_crates_ok (toy_table H E)"
proof -
  have "mldsa_ok (toy_table H E) = mldsa_ok toy_log" "mldsa_exclusive (toy_table H E) = mldsa_exclusive toy_log"
    "blake3_ok (toy_table H E) = blake3_ok toy_log"
    unfolding mldsa_ok_def mldsa_exclusive_def blake3_ok_def by simp_all
  moreover have "cbor_log_ok (toy_table H E)"
    using table_at_pos [OF assms(1)] table_at_pos [OF assms(2)] unfolding cbor_log_ok_def toy_table_def by (auto dest: table_at_pos(2) [OF assms(2)])
  moreover have "cbor_typed (toy_table H E)"
    using assms(3) by (auto simp: cbor_typed_def toy_table_def table_at_def list_all_length split: list.splits if_splits)
  ultimately show ?thesis using toy_cli by (simp add: cli_crates_ok_def)
qed

lemma table_merkle [simp]:
  "leaf_hash (toy_table H E) = leaf_hash toy_log" "node_hash (toy_table H E) = node_hash toy_log"
  by (simp_all add: fun_eq_iff leaf_hash_def node_hash_def)

lemma table_carry [simp]: "carry_up (toy_table H E) c f = carry_up toy_log c f"
  by (induction toy_log c f rule: carry_up.induct) simp_all

lemma table_bag [simp]: "bag (toy_table H E) a f = bag toy_log a f"
  by (induction toy_log a f rule: bag.induct) (simp_all split: option.splits)

lemma table_rotate: "rotate_to (toy_table H E) e1 e2 now rnd l s lbl hex = rotate_to toy_log e1 e2 now rnd l s lbl hex"
proof -
  have m: "mt_root (toy_table H E) = mt_root toy_log" "mt_append_root (toy_table H E) = mt_append_root toy_log"
    by (simp_all add: fun_eq_iff mt_root_def mt_append_root_def mt_append_def Let_def)
  have a: "al_append (toy_table H E) = al_append toy_log"
    unfolding al_append_def m content_hash_def to_canonical_cbor_def payload_bytes_def table_fields ..
  show ?thesis
    unfolding rotate_to_def a m close_event_def open_event_def rotated_header_def new_id_def table_fields ..
qed

lemma table_signer: "keypair_signer (toy_table H E) kp = keypair_signer toy_log kp"
  by (simp add: keypair_signer_def KeyPair_sign_def fun_eq_iff)

lemma table_keypair: "load_keypair (toy_table H E) e fs sk pk = load_keypair toy_log e fs sk pk"
  unfolding load_keypair_def KeyPair_sign_def verify_sig_def table_fields ..

text \<open>
  C19. Rotating the last log of a verified chain of files gives a verified chain: \<open>verify-chain\<close>
  accepts the files before it, the sealed input and the new output, in this order, with the
  same key or with a new one.
\<close>

theorem cli_rotation_verifies:
  assumes "cli_crates_ok C" "cmd_rotate C E D a fs = (Inr (), fs')" "length (dr_rnd D) = 16"
    and "map (open_log C fs) (ps @ [ra_in a]) = map Inr (ls @ [l])" "verify_chain C (ls @ [l]) = Inr ()"
    and "Suc (length (entries l)) < 2 ^ 64" "ra_in a \<notin> set ps" "ra_out a \<notin> set ps"
  shows "\<exists>total root. cmd_verify_chain C fs' (ps @ [ra_in a, ra_out a]) None = Inr (length ps + 2, total, root)"
proof -
  obtain l' kp l1 s old new rw fs1 where io: "ra_in a \<noteq> ra_out a" and l': "open_log C fs (ra_in a) = Inr l'"
    and kp: "load_keypair C (dr_entropy D 0) fs (ra_sk a) (ra_pk a) = Inr kp" and b: "bind_keypair C l' kp = (Inr (), l1)"
    and s: "rotate_signer C (dr_entropy D 1) fs a kp = Inr s"
    and rot: "rotate_to C (dr_entropy D 2) (dr_entropy D 3) (dr_now D) (dr_rnd D) l1 s (ra_new_label a) (ra_new_log_id a) = Inr (old, new)"
    and w: "write_output E fs (ra_out a) (ra_force a) (map_err (\<lambda>_. ''writing new log'') (save_to C new)) = (rw, fs1)"
    and sv: "rw = Inr ()" "save C (ci_save E) fs1 (ra_in a) old = (Inr (), fs')"
    by (rule cmd_rotate_steps [OF assms(2)]) auto
  have ps: "map (open_log C fs) ps = map Inr ls" and l: "l' = l" using assms(4) l' by auto
  have r: "rotated C l old new"
    using loaded_rotates [OF assms(1) l' kp b s rot assms(3)] assms(6) l by simp
  have o: "map (open_log C fs') (ps @ [ra_in a, ra_out a]) = map Inr ((ls @ [old]) @ [new\<lparr> al_signer := None \<rparr>])"
    using rotated_files [OF _ r io _ sv(2) ps assms(7,8)] w sv(1) assms(1) by (simp add: cli_crates_ok_def)
  have "verify_chain C ((ls @ [old]) @ [new]) = Inr ()" using r assms(5) by (simp add: rotated_def)
  then have "verify_chain C ((ls @ [old]) @ [new\<lparr> al_signer := None \<rparr>]) = Inr ()" using chain_last_signer by blast
  then show ?thesis using cmd_verify_chain_opened [OF o] map_eq_imp_length_eq [OF ps] by simp
qed

definition cli_rotate_args :: rotate_args where
  "cli_rotate_args = \<lparr> ra_in = ''l.qa'', ra_out = ''m.qa'', ra_sk = ''l.sk'', ra_pk = ''l.pk'', ra_new_label = ''next'',
     ra_new_log_id = [], ra_new_sk = None, ra_new_pk = None, ra_force = False \<rparr>"

definition cli_rotated :: "audit_log \<times> audit_log" where
  "cli_rotated = (case rotate_to toy_log 5 5 20 (replicate 16 1) demo_log0 demo_signer ''next'' [] of
     Inr p \<Rightarrow> p | Inl _ \<Rightarrow> (demo_log0, demo_log0))"

definition cli_table :: log_crates where
  "cli_table = toy_table [demo_header, header (snd cli_rotated)] (entries (fst cli_rotated) @ entries (snd cli_rotated))"

definition cli_old_files :: filesystem where
  "cli_old_files = cli_files(''l.qa'' \<mapsto> new_file (MAGIC @ [0]) private_mode)"

lemma cli_rotated_eq:
  "rotate_to toy_log 5 5 20 (replicate 16 1) demo_log0 demo_signer ''next'' [] = Inr (fst cli_rotated, snd cli_rotated)"
  using demo_rotates [of demo_log0 5 5 "replicate 16 1"] by (auto simp: cli_rotated_def)

lemma cli_rotated_live:
  "live_ok toy_log (fst cli_rotated)" "live_ok toy_log (snd cli_rotated)"
  "length (entries (fst cli_rotated)) = 1" "length (entries (snd cli_rotated)) = 1" "header (fst cli_rotated) = demo_header"
  using rotate_live_ok [OF _ demo_live demo_signer_ok(1) _ _ cli_rotated_eq]
    rotate_to_ok [OF demo_log0_ok _ demo_signer_ok(1) _ cli_rotated_eq]
  by (auto simp: demo_log0_def map_eq_Cons_conv)

lemma cli_table_ok: "cli_crates_ok cli_table"
  unfolding cli_table_def using cli_rotated_live by (intro table_cli) (auto simp: live_ok_def log_wf_def)

lemma table_saves:
  assumes "header l \<in> set H" "set (entries l) \<subseteq> set E"
  shows "\<exists>b. save_to (toy_table H E) l = Inr b"
proof -
  have "\<exists>b. cbor_entries (toy_table H E) es = Inr b" if "set es \<subseteq> set E" for es
    using that by (induction es) (auto simp: toy_table_def table_pos_def)
  then obtain b where "cbor_entries (toy_table H E) (entries l) = Inr b" using assms(2) by blast
  moreover obtain h where "cbor_header (toy_table H E) (header l) = Some h" using assms(1) by (simp add: toy_table_def table_pos_def)
  ultimately show ?thesis by (simp add: save_to_def)
qed

lemma cli_table_live: "live_ok cli_table demo_log0"
proof (rule created_live_ok(1))
  show "mldsa_ok cli_table" using cli_table_ok by (simp add: cli_crates_ok_def)
  show "KeyPair_generate cli_table 5 = Inr demo_keypair"
    by (simp add: KeyPair_generate_def cli_table_def) (simp add: toy_log_def toy_crates_def demo_keypair_def)
  show "create_with_label cli_table demo_keypair ''demo'' 0 (replicate 16 1) = Inr demo_log0"
    using demo_log0_created by (simp add: create_with_label_def demo_signer_def cli_table_def table_signer)
qed simp

lemma cli_table_opens: "open_log cli_table cli_old_files ''l.qa'' = Inr (demo_log0\<lparr> al_signer := None \<rparr>)"
proof (rule written_reads [where n = "new_file (MAGIC @ [0]) private_mode", OF _ cli_table_live])
  show "cbor_log_ok cli_table" using cli_table_ok by (simp add: cli_crates_ok_def)
  show "save_to cli_table demo_log0 = Inr (MAGIC @ [0])"
    by (simp add: save_to_def cli_table_def toy_table_def demo_log0_def table_pos_def)
qed (simp_all add: cli_old_files_def new_file_def)

lemma cli_rotate_checks: "rotate_checks cli_ok cli_old_files cli_rotate_args = Inr ()"
  by (simp add: rotate_checks_def cli_rotate_args_def rotate_keys_def ensure_distinct_paths_def output_identity_def cli_ok_def
      cli_old_files_def cli_files_def ensure_overwritable_def parent_dir_def path_parent_def path_file_name_def path_join_def
      strip_slashes_def)

lemma cli_rotates: "\<exists>fs'. cmd_rotate cli_table cli_ok (cli_at 20) cli_rotate_args cli_old_files = (Inr (), fs')"
proof -
  have "header (fst cli_rotated) \<in> set [demo_header, header (snd cli_rotated)]" using cli_rotated_live(5) by simp
  then obtain b1 b2 where b: "save_to cli_table (fst cli_rotated) = Inr b1" "save_to cli_table (snd cli_rotated) = Inr b2"
    using table_saves [of "fst cli_rotated"] table_saves [of "snd cli_rotated"] unfolding cli_table_def by fastforce
  have "read_file cli_old_files q = read_file cli_files q" if "q \<noteq> ''l.qa''" for q
    using that by (simp add: read_file_def cli_old_files_def)
  then have kp: "load_keypair cli_table e cli_old_files ''l.sk'' ''l.pk'' = Inr demo_keypair" for e
    using cli_keypair [of e] unfolding cli_table_def table_keypair by (simp add: load_keypair_def)
  have v: "al_verify cli_table (demo_log0\<lparr> al_signer := None \<rparr>) = Inr ()" by (rule sealed_verifies [OF cli_table_live])
  have bd: "bind_loaded cli_table (demo_log0\<lparr> al_signer := None \<rparr>) demo_keypair = Inr demo_log0"
    using v by (simp add: bind_loaded_Inr bind_keypair_def bind_signer_def cli_table_def table_signer)
      (simp add: demo_log0_def demo_signer_def demo_header_def demo_keypair_def keypair_signer_def)
  have p: "kp_pk demo_keypair = pubkey (header demo_log0)" by (simp add: demo_log0_def demo_header_def demo_keypair_def)
  have rs: "rotate_signer cli_table e cli_old_files cli_rotate_args demo_keypair = Inr demo_signer" for e
    by (simp add: rotate_signer_def cli_rotate_args_def cli_table_def table_signer demo_signer_def)
  have rot: "rotate_to cli_table 5 5 20 (replicate 16 1) demo_log0 demo_signer ''next'' [] = Inr (fst cli_rotated, snd cli_rotated)"
    unfolding cli_table_def table_rotate by (rule cli_rotated_eq)
  have f: "ra_in cli_rotate_args = ''l.qa''" "ra_out cli_rotate_args = ''m.qa''" "ra_sk cli_rotate_args = ''l.sk''"
    "ra_pk cli_rotate_args = ''l.pk''" "ra_new_label cli_rotate_args = ''next''" "ra_new_log_id cli_rotate_args = []"
    "\<not> ra_force cli_rotate_args"
    by (simp_all add: cli_rotate_args_def)
  have d: "dr_entropy (cli_at 20) i = 5" "dr_now (cli_at 20) = 20" "dr_rnd (cli_at 20) = replicate 16 1" for i
    by (simp_all add: cli_at_def)
  have w: "write_output cli_ok cli_old_files ''m.qa'' False (Inr b2) = (Inr (), cli_old_files(''m.qa'' \<mapsto> new_file b2 private_mode))"
    by (rule cli_fresh) (simp add: cli_old_files_def cli_files_def)
  have "\<exists>fs'. save cli_table (ci_save cli_ok) (cli_old_files(''m.qa'' \<mapsto> new_file b2 private_mode)) ''l.qa'' (fst cli_rotated) = (Inr (), fs')"
    by (simp add: save_def b cli_ok_def demo_io_def cli_old_files_def new_file_def)
  then show ?thesis
    by (simp add: cmd_rotate_def cli_rotate_checks f d cli_table_opens v kp p bd rs rot b w then_fs_def rewrite_log_Inr case_prod_beta)
qed

theorem cli_rotation_verifies_witness:
  "\<exists>fs' total root. cmd_rotate cli_table cli_ok (cli_at 20) cli_rotate_args cli_old_files = (Inr (), fs') \<and>
     cmd_verify_chain cli_table fs' [''l.qa'', ''m.qa''] None = Inr (2, total, root)"
proof -
  obtain fs' where r: "cmd_rotate cli_table cli_ok (cli_at 20) cli_rotate_args cli_old_files = (Inr (), fs')"
    using cli_rotates by blast
  have a: "ra_in cli_rotate_args = ''l.qa''" "ra_out cli_rotate_args = ''m.qa''" by (simp_all add: cli_rotate_args_def)
  have "verify_chain cli_table ([] @ [demo_log0\<lparr> al_signer := None \<rparr>]) = Inr ()"
    using sealed_verifies [OF cli_table_live] by (simp add: verify_chain_iff) (simp add: demo_log0_def demo_header_def)
  from cli_rotation_verifies [OF cli_table_ok r _ _ this, of "[]"]
  have "\<exists>total root. cmd_verify_chain cli_table fs' [''l.qa'', ''m.qa''] None = Inr (0 + 2, total, root)"
    using cli_table_opens by (simp add: a cli_at_def)
  then show ?thesis using r by (auto simp: numeral_2_eq_2)
qed

subsection \<open>Commands that only read the log\<close>

lemma plain_write_frame: "plain_write E fs path b = (r, fs') \<Longrightarrow> q \<noteq> path \<Longrightarrow> fs' q = fs q"
  by (auto simp: plain_write_def Let_def split: if_splits write_fate.splits)

lemma then_fs_snd: "snd (then_fs r (\<lambda>_ fs'. (x, fs'))) = snd r"
  by (auto simp: then_fs_def split: prod.splits sum.splits)

lemma read_only_output:
  assumes "(case out of Some path \<Rightarrow>
       (case ensure_distinct_paths E fs [log, path] of Inl e \<Rightarrow> (Inl e, fs)
        | Inr _ \<Rightarrow> then_fs (plain_write E fs path b) (\<lambda>_ fs'. (x, fs')))
     | None \<Rightarrow> (y, fs)) = (r, fs')"
  shows "fs' log = fs log \<and> (\<forall>q. Some q \<noteq> out \<longrightarrow> fs' q = fs q)"
proof (cases out)
  case (Some path)
  show ?thesis
  proof (cases "ensure_distinct_paths E fs [log, path]")
    case (Inr u)
    then have "path \<noteq> log" using ensure_distinct [of E fs "[log, path]"] by auto
    moreover have "fs' = snd (plain_write E fs path b)"
      using assms Some Inr then_fs_snd [where r = "plain_write E fs path b" and x = x] by simp
    then have "fs' q = fs q" if "q \<noteq> path" for q using plain_write_frame [OF surjective_pairing that] by metis
    ultimately show ?thesis using Some by auto
  qed (use assms Some in auto)
qed (use assms in auto)

text \<open>Exporting changes no file but its output, never the log, and exports only a verified log unless told otherwise.\<close>

lemma export_only_reads:
  assumes "cmd_export C E W rfc3339 now log format out no_verify fs = (r, fs')"
  shows "fs' log = fs log \<and> (\<forall>q. Some q \<noteq> out \<longrightarrow> fs' q = fs q)"
    and "\<not> no_verify \<Longrightarrow> r = Inr x \<Longrightarrow> \<exists>l. open_log C fs log = Inr l \<and> al_verify C l = Inr ()"
proof -
  let ?p = "and_then (map_err (\<lambda>_. ''opening log '' @ log) (open_log C fs log)) (\<lambda>l.
           and_then (if no_verify then Inr ()
              else map_err (\<lambda>_. ''pre-export verification failed; refusing to export an invalid log'') (al_verify C l)) (\<lambda>_.
           export_payload C W rfc3339 now format l))"
  show "fs' log = fs log \<and> (\<forall>q. Some q \<noteq> out \<longrightarrow> fs' q = fs q)"
  proof (cases ?p)
    case (Inl e)
    then show ?thesis using assms by (simp add: cmd_export_def)
  next
    case (Inr payload)
    then show ?thesis using assms read_only_output [where out = out and E = E and fs = fs and log = log and b = "ascii payload" and x = "Inr Nothing" and
        y = "Inr (cli_output.Text payload)" and r = r and fs' = fs']
      unfolding cmd_export_def by simp
  qed
  show "\<exists>l. open_log C fs log = Inr l \<and> al_verify C l = Inr ()" if nv: "\<not> no_verify" and rx: "r = Inr x"
  proof -
    obtain payload where "?p = Inr payload" using assms rx unfolding cmd_export_def by (cases ?p) auto
    then show ?thesis using nv by (auto simp: res_simps)
  qed
qed

subsection \<open>Text for the terminal\<close>

definition displayable :: "nat list \<Rightarrow> bool" where
  "displayable s \<longleftrightarrow> list_all (\<lambda>c. \<not> is_control c \<and> \<not> is_bidi c) s"

text \<open>The rendering of a time is printable ASCII.\<close>

definition times_plain :: "(string \<Rightarrow> timestamp \<Rightarrow> string) \<Rightarrow> bool" where
  "times_plain show_time \<longleftrightarrow> (\<forall>f t. list_all (\<lambda>c. 32 \<le> (of_char c :: nat) \<and> (of_char c :: nat) < 127) (show_time f t))"

lemma displayable_simps [simp]:
  "displayable []" "displayable (a @ b) \<longleftrightarrow> displayable a \<and> displayable b"
  "displayable (c # s) \<longleftrightarrow> (\<not> is_control c \<and> \<not> is_bidi c) \<and> displayable s"
  by (auto simp: displayable_def)

lemma utf8_ascii: "list_all (\<lambda>b. b < 128) s \<Longrightarrow> utf8_chars s = s"
  by (induction s) (simp_all add: utf8_rest_def utf8_lead_def)

lemma printable_displayable: "list_all (\<lambda>b. 32 \<le> b \<and> b < 127) s \<Longrightarrow> displayable s"
  by (induction s) (auto simp: is_control_def is_bidi_def)

lemma plain_displayable:
  assumes "list_all (\<lambda>c. 32 \<le> (of_char c :: nat) \<and> (of_char c :: nat) < 127) s"
  shows "displayable (code_points s)"
proof -
  have "list_all (\<lambda>b. 32 \<le> b \<and> b < 127) (map of_char s :: nat list)" using assms by (simp add: list_all_length)
  moreover from this have "list_all (\<lambda>b. b < 128) (map of_char s :: nat list)" by (auto simp: list_all_length)
  ultimately show ?thesis using printable_displayable by (simp add: code_points_def utf8_ascii)
qed

lemma show_hex_displayable: "hex_digits C \<Longrightarrow> displayable (show_hex C b)"
proof -
  assume "hex_digits C"
  then have "set (hex_encode C b) \<subseteq> set ''0123456789abcdef''" by (simp add: hex_digits_def)
  moreover have "list_all (\<lambda>c. 32 \<le> (of_char c :: nat) \<and> (of_char c :: nat) < 127) ''0123456789abcdef''" by simp
  ultimately have "list_all (\<lambda>c. 32 \<le> (of_char c :: nat) \<and> (of_char c :: nat) < 127) (hex_encode C b)"
    unfolding list_all_iff by blast
  then show ?thesis by (simp add: show_hex_def plain_displayable)
qed

lemma show_nat_displayable [simp]: "displayable (show_nat n)"
  unfolding show_nat_def
  by (rule plain_displayable) (auto simp: list_all_iff is_digit_def dest!: dec_nat_digits)

lemma pad_left_displayable [simp]: "displayable (pad_left w s) \<longleftrightarrow> displayable s"
proof -
  have "displayable (replicate n 32)" for n by (induction n) (simp_all add: is_control_def is_bidi_def)
  then show ?thesis by (simp add: pad_left_def)
qed

lemma hex_nat_displayable: "displayable (hex_nat n)"
proof (induction n rule: hex_nat.induct)
  case (1 n)
  have d: "displayable [hex_digit (n mod 16)]"
    by (auto simp: hex_digit_def is_control_def is_bidi_def)
  show ?case using 1 d by (cases "n < 16") (simp_all add: hex_nat.simps [of n])
qed

lemma escape_default_displayable: "displayable (escape_default c)"
  by (simp add: escape_default_def hex_nat_displayable) (auto simp: is_control_def is_bidi_def)

interpretation terminal_esc: char_escape "\<lambda>c. if is_control c \<or> is_bidi c then escape_default c else [c]"
    "\<lambda>c. is_control c \<or> is_bidi c" "\<lambda>c. is_control c \<or> is_bidi c"
  by unfold_locales (use escape_default_displayable in \<open>auto simp: displayable_def list_all_iff split: if_splits\<close>)

lemma terminal_text_displayable: "displayable (terminal_text s)"
  using terminal_esc.escaped_clean unfolding displayable_def terminal_text_def list_all_iff by blast

lemma terminal_text_id: "displayable s \<Longrightarrow> terminal_text s = s"
  using terminal_esc.escaped_id [of s] by (simp add: displayable_def terminal_text_def)

lemma show_text_displayable [simp]: "displayable (show_text s)"
  by (simp add: show_text_def terminal_text_displayable)

lemma inspect_entry_displayable:
  assumes "hex_digits C" "times_plain show_time"
  shows "list_all displayable (inspect_entry C show_time e)"
proof -
  have "displayable (code_points (show_time f t))" for f t
    using assms(2) plain_displayable by (simp add: times_plain_def)
  then show ?thesis using show_hex_displayable [OF assms(1)]
    by (auto simp: inspect_entry_def plain_displayable list_all_iff)
qed

lemma inspect_lines_displayable:
  assumes "hex_digits C" "times_plain show_time"
  shows "list_all displayable (inspect_lines C show_time n l)"
proof -
  have "list_all displayable (concat (map (inspect_entry C show_time) es))" for es
    using inspect_entry_displayable [OF assms] by (induction es) auto
  moreover have "\<not> is_control ellipsis" "\<not> is_bidi ellipsis" by (simp_all add: is_control_def is_bidi_def)
  ultimately show ?thesis using show_hex_displayable [OF assms(1)]
    by (simp add: inspect_lines_def plain_displayable)
qed

lemma inspect_lines_length:
  "length (inspect_lines C show_time n l) = 2 + of_bool (label (header l) \<noteq> []) +
     sum_list (map (\<lambda>e. 2 + length (metadata (event e))) (take n (entries l))) + 2 * of_bool (n < length (entries l))"
proof -
  have "length (concat (map (inspect_entry C show_time) es)) = sum_list (map (\<lambda>e. 2 + length (metadata (event e))) es)" for es
    by (induction es) (simp_all add: inspect_entry_def)
  then show ?thesis by (simp add: inspect_lines_def)
qed



end
