(* ===== verification/Cli_Main.thy ===== *)
theory Cli_Main
  imports Cli_Theorems
begin

text \<open>
  The entry point of the command line tool (\<open>main\<close> of \<open>qaudit/src/main.rs\<close>): the subcommands, what each
  prints and how printing fares, and the exit. \<open>writeln!\<close> and \<open>write_all\<close> on standard output give an
  error that the command returns; \<open>println!\<close> and \<open>eprintln!\<close> panic instead. \<open>main\<close> turns an error of
  the first kind for a closed pipe into success.

  The second half runs any sequence of commands on the same files and shows that a log is
  append-only under all of them.
\<close>

subsection \<open>Printing\<close>

datatype io_kind = BrokenPipe | Other_io

text \<open>\<open>anyhow::Error\<close> as far as \<open>downcast_ref\<close> sees it: an \<open>io::Error\<close>, or anything else.\<close>

datatype cli_error = Io_error io_kind | Other_error string

datatype cli_exit = Exit_ok | Exit_error cli_error | Exit_panic

text \<open>What one call writes: a line of code points or a block of bytes.\<close>

datatype chunk = Line "nat list" | Block bytes

text \<open>
  What a run meets: files, entropy and clocks, the result of every call that writes to standard
  output, whether the report on standard error can be written, and the renderings that crates
  and Unicode tables define (\<open>w_debug\<close>: \<open>Debug\<close> of a string).
\<close>

record 'w cli_world =
  w_io :: cli_io
  w_draw :: cli_draw
  w_out :: "nat \<Rightarrow> io_kind option"
  w_err :: bool
  w_json :: "(string \<times> json) list \<Rightarrow> string"
  w_time :: "string \<Rightarrow> timestamp \<Rightarrow> string"
  w_debug :: "string \<Rightarrow> nat list"
  w_xml :: "'w xml_writer"
  w_rfc3339 :: "bool \<Rightarrow> timestamp \<Rightarrow> string"
  w_now :: timestamp

text \<open>The calls in order up to the first that fails, and its error.\<close>

fun write_calls :: "(nat \<Rightarrow> io_kind option) \<Rightarrow> nat \<Rightarrow> chunk list \<Rightarrow> chunk list \<times> io_kind option" where
  "write_calls F k [] = ([], None)"
| "write_calls F k (c # cs) =
     (case F k of
        Some e \<Rightarrow> ([], Some e)
      | None \<Rightarrow> (case write_calls F (Suc k) cs of (done, r) \<Rightarrow> (c # done, r)))"

type_synonym cli_run = "cli_exit \<times> chunk list \<times> filesystem"

definition write_out :: "'w cli_world \<Rightarrow> chunk list \<Rightarrow> filesystem \<Rightarrow> cli_run" where
  "write_out W cs fs =
     (case write_calls (w_out W) 0 cs of
        (done, None) \<Rightarrow> (Exit_ok, done, fs)
      | (done, Some k) \<Rightarrow> (Exit_error (Io_error k), done, fs))"

definition println_out :: "'w cli_world \<Rightarrow> chunk list \<Rightarrow> filesystem \<Rightarrow> cli_run" where
  "println_out W cs fs =
     (case write_calls (w_out W) 0 cs of
        (done, None) \<Rightarrow> (Exit_ok, done, fs)
      | (done, Some _) \<Rightarrow> (Exit_panic, done, fs))"

definition eprintln_report :: "'w cli_world \<Rightarrow> filesystem \<Rightarrow> cli_run" where
  "eprintln_report W fs = (if w_err W then Exit_ok else Exit_panic, [], fs)"

text \<open>The error path that all commands share.\<close>

definition or_fail :: "(string + 'a) \<times> filesystem \<Rightarrow> ('a \<Rightarrow> filesystem \<Rightarrow> cli_run) \<Rightarrow> cli_run" where
  "or_fail r f = (case r of (Inl e, fs) \<Rightarrow> (Exit_error (Other_error e), [], fs) | (Inr x, fs) \<Rightarrow> f x fs)"

subsection \<open>What the commands print\<close>

definition verify_line :: "'a crates_scheme \<Rightarrow> u64 \<times> hash \<Rightarrow> nat list" where
  "verify_line C = (\<lambda>(n, root). code_points ''ok: '' @ show_nat (unat n) @ code_points '' entries verified, root = '' @ show_hex C root)"

definition chain_lines :: "'a log_crates_scheme \<Rightarrow> (string \<Rightarrow> nat list) \<Rightarrow> audit_log list \<Rightarrow> nat list list" where
  "chain_lines C debug logs =
     (code_points ''ok: '' @ show_nat (length logs) @ code_points '' logs, '' @ show_nat (unat (sum_list (map al_len logs))) @
      code_points '' entries total, terminal root = '' @ show_hex C (current_root C (last logs))) #
     map (\<lambda>(i, l). code_points ''  ['' @ show_nat i @ code_points ''] '' @ show_nat (unat (al_len l)) @ code_points '' entries '' @
        [0x2014] @ code_points '' log_id='' @ show_hex C (lh_log_id (header l)) @ code_points '' label='' @ debug (label (header l)))
       (enumerate 0 logs)"

subsection \<open>Commands and exit\<close>

record verify_args =
  va_log :: string
  va_pk :: "string option"

record inspect_args =
  na_log :: string
  na_limit :: "nat option"
  na_json :: bool

record pubkey_args =
  pa_log :: string
  pa_out :: "string option"
  pa_hex :: bool

record info_args =
  fa_log :: string

record export_args =
  ea_log :: string
  ea_format :: export_format
  ea_out :: "string option"
  ea_no_verify :: bool

record verify_chain_args =
  ca_log :: "string list"
  ca_pk :: "string option"

datatype cmd =
    Init init_args
  | Append append_args
  | Verify verify_args
  | Inspect inspect_args
  | Pubkey pubkey_args
  | Info info_args
  | Export export_args
  | Rotate rotate_args
  | VerifyChain verify_chain_args

definition run_cmd :: "'a log_crates_scheme \<Rightarrow> 'w cli_world \<Rightarrow> cmd \<Rightarrow> filesystem \<Rightarrow> cli_run" where
  "run_cmd C W c fs =
     (case c of
        Init a \<Rightarrow> or_fail (cmd_init C (w_io W) (w_draw W) a fs) (\<lambda>_. eprintln_report W)
      | Append a \<Rightarrow> or_fail (cmd_append C (w_io W) (w_draw W) a fs) (\<lambda>_. eprintln_report W)
      | Verify a \<Rightarrow> or_fail (cmd_verify C fs (va_log a) (va_pk a), fs) (\<lambda>r. println_out W [Line (verify_line C r)])
      | Inspect a \<Rightarrow>
          or_fail (cmd_inspect C (w_json W) (w_time W) fs (na_log a) (na_limit a) (na_json a), fs) (\<lambda>rows. write_out W (map Line rows))
      | Pubkey a \<Rightarrow>
          or_fail (cli_pubkey C (w_io W) (pa_log a) (pa_out a) (pa_hex a) fs) (\<lambda>r fs'.
            case r of
              Nothing \<Rightarrow> eprintln_report W fs'
            | Text s \<Rightarrow> println_out W [Line (code_points (butlast s))] fs'
            | Raw b \<Rightarrow> write_out W [Block b] fs')
      | Info a \<Rightarrow> or_fail (cmd_info C (w_time W) fs (fa_log a), fs) (\<lambda>rows. println_out W (map Line rows))
      | Export a \<Rightarrow>
          or_fail (cmd_export C (w_io W) (w_xml W) (w_rfc3339 W) (w_now W) (ea_log a) (ea_format a) (ea_out a) (ea_no_verify a) fs) (\<lambda>r fs'.
            case r of
              Nothing \<Rightarrow> eprintln_report W fs'
            | Text s \<Rightarrow> write_out W [Block (ascii s)] fs'
            | Raw b \<Rightarrow> write_out W [Block b] fs')
      | Rotate a \<Rightarrow> or_fail (cmd_rotate C (w_io W) (w_draw W) a fs) (\<lambda>_. eprintln_report W)
      | VerifyChain a \<Rightarrow>
          or_fail (chain_logs C fs (ca_log a) (ca_pk a), fs) (\<lambda>logs. println_out W (map Line (chain_lines C (w_debug W) logs))))"

definition cli_main :: "'a log_crates_scheme \<Rightarrow> 'w cli_world \<Rightarrow> cmd \<Rightarrow> filesystem \<Rightarrow> cli_run" where
  "cli_main C W c fs =
     (case run_cmd C W c fs of
        (Exit_error (Io_error BrokenPipe), done, fs') \<Rightarrow> (Exit_ok, done, fs')
      | r \<Rightarrow> r)"

text \<open>A sequence of invocations, each in its own circumstances, on the files the one before left.\<close>

definition run_all :: "'a log_crates_scheme \<Rightarrow> ('w cli_world \<times> cmd) list \<Rightarrow> filesystem \<Rightarrow> filesystem" where
  "run_all C cs fs = foldl (\<lambda>fs (W, c). snd (snd (cli_main C W c fs))) fs cs"

subsection \<open>Printing and the files\<close>

lemma printed_files [simp]:
  "snd (snd (write_out W cs fs)) = fs" "snd (snd (println_out W cs fs)) = fs" "snd (snd (eprintln_report W fs)) = fs"
  by (auto simp: write_out_def println_out_def eprintln_report_def split: prod.splits option.splits)

lemma or_fail_files: "(\<And>x fs. snd (snd (f x fs)) = fs) \<Longrightarrow> snd (snd (or_fail r f)) = snd r"
  by (auto simp: or_fail_def split: prod.splits sum.splits)

lemma main_files: "snd (snd (cli_main C W c fs)) = snd (snd (run_cmd C W c fs))"
  by (auto simp: cli_main_def split: prod.splits cli_exit.splits cli_error.splits io_kind.splits)

text \<open>The files after a run are those the command left, whatever became of the output.\<close>

lemma run_files:
  "snd (snd (cli_main C W (Init a) fs)) = snd (cmd_init C (w_io W) (w_draw W) a fs)"
  "snd (snd (cli_main C W (Append b) fs)) = snd (cmd_append C (w_io W) (w_draw W) b fs)"
  "snd (snd (cli_main C W (Verify v) fs)) = fs"
  "snd (snd (cli_main C W (Inspect i) fs)) = fs"
  "snd (snd (cli_main C W (Pubkey k) fs)) = snd (cli_pubkey C (w_io W) (pa_log k) (pa_out k) (pa_hex k) fs)"
  "snd (snd (cli_main C W (Info f) fs)) = fs"
  "snd (snd (cli_main C W (Export x) fs)) =
     snd (cmd_export C (w_io W) (w_xml W) (w_rfc3339 W) (w_now W) (ea_log x) (ea_format x) (ea_out x) (ea_no_verify x) fs)"
  "snd (snd (cli_main C W (Rotate d) fs)) = snd (cmd_rotate C (w_io W) (w_draw W) d fs)"
  "snd (snd (cli_main C W (VerifyChain h) fs)) = fs"
  unfolding main_files run_cmd_def
  by (simp_all add: or_fail_files split: cli_output.split)

text \<open>The files a command is told to write over.\<close>

definition overwrites :: "cmd \<Rightarrow> string set" where
  "overwrites c =
     (case c of
        Init a \<Rightarrow> if ia_force a then {ia_log a, unwrap_or (derive_key_path (ia_log a) ''sk'') (ia_sk a),
                                        unwrap_or (derive_key_path (ia_log a) ''pk'') (ia_pk a)} else {}
      | Pubkey a \<Rightarrow> set_option (pa_out a)
      | Export a \<Rightarrow> set_option (ea_out a)
      | Rotate a \<Rightarrow> if ra_force a then {ra_out a} else {}
      | _ \<Rightarrow> {})"

lemma pubkey_frame:
  assumes "cli_pubkey C E log out hex fs = (r, fs')"
  shows "fs' log = fs log \<and> (\<forall>q. Some q \<noteq> out \<longrightarrow> fs' q = fs q)"
proof (cases "map_err (\<lambda>_. ''opening log '' @ log) (open_log C fs log)")
  case (Inr l)
  then show ?thesis
    using assms read_only_output [where out = out and E = E and fs = fs and log = log and b = "pubkey (header l)" and
        x = "Inr Nothing" and y = "if hex then Inr (cli_output.Text (hex_encode C (pubkey (header l)) @ [CHR 0x0A])) else Inr (Raw (pubkey (header l)))" and
        r = r and fs' = fs']
    by (simp add: cli_pubkey_def if_distrib split: if_splits option.splits)
qed (use assms in \<open>simp add: cli_pubkey_def\<close>)

lemma init_frame:
  assumes "cmd_init C E D a fs = (r, fs')"
    and "\<not> ia_force a \<or> p \<notin> {ia_log a, unwrap_or (derive_key_path (ia_log a) ''sk'') (ia_sk a), unwrap_or (derive_key_path (ia_log a) ''pk'') (ia_pk a)}"
    and "fs p = Some n"
  shows "fs' p = Some n"
  using assms unfolding cmd_init_def Let_def write_key_def then_fs_def
  by (auto dest!: write_output_cases split: sum.splits prod.splits if_splits)

lemma append_frame: "cmd_append C E D a fs = (r, fs') \<Longrightarrow> q \<noteq> aa_log a \<Longrightarrow> fs' q = fs q"
  unfolding cmd_append_def Let_def by (auto dest: save_frame split: sum.splits prod.splits)

lemma kept_files:
  "fs p \<noteq> None \<Longrightarrow> p \<notin> overwrites (Init a) \<Longrightarrow> snd (cmd_init C E D a fs) p = fs p"
  "p \<noteq> aa_log b \<Longrightarrow> snd (cmd_append C E D b fs) p = fs p"
  "p \<notin> set_option out \<Longrightarrow> snd (cli_pubkey C E log out hex fs) p = fs p"
  "p \<notin> set_option out \<Longrightarrow>
     snd (cmd_export C E W rfc3339 now log format out no_verify fs) p = fs p"
  using init_frame [of C E D a fs "fst (cmd_init C E D a fs)" "snd (cmd_init C E D a fs)" p]
    append_frame [of C E D b fs "fst (cmd_append C E D b fs)" "snd (cmd_append C E D b fs)" p]
    pubkey_frame [of C E log out hex fs "fst (cli_pubkey C E log out hex fs)" "snd (cli_pubkey C E log out hex fs)"]
    export_only_reads(1) [of C E W rfc3339 now log format out no_verify fs
      "fst (cmd_export C E W rfc3339 now log format out no_verify fs)"
      "snd (cmd_export C E W rfc3339 now log format out no_verify fs)"]
  by (auto simp: overwrites_def split: if_splits)

subsection \<open>Append-only\<close>

definition verified_at :: "'a log_crates_scheme \<Rightarrow> filesystem \<Rightarrow> string \<Rightarrow> audit_log \<Rightarrow> bool" where
  "verified_at C fs p l \<longleftrightarrow> open_log C fs p = Inr l \<and> al_verify C l = Inr ()"

definition grown :: "nat \<Rightarrow> audit_log \<Rightarrow> audit_log \<Rightarrow> bool" where
  "grown n l l' \<longleftrightarrow> header l' = header l \<and> (\<exists>xs. entries l' = entries l @ xs \<and> length xs \<le> n)"

lemma grown_refl [simp]: "grown n l l"
  by (simp add: grown_def)

lemma grown_trans: "grown m l l' \<Longrightarrow> grown n l' l'' \<Longrightarrow> grown (m + n) l l''"
  unfolding grown_def by (metis add_mono append.assoc length_append)

lemma grown_length: "grown n l l' \<Longrightarrow> length (entries l') \<le> length (entries l) + n"
  by (auto simp: grown_def)

lemma verified_frame: "fs' p = fs p \<Longrightarrow> verified_at C fs p l \<Longrightarrow> verified_at C fs' p l"
  by (simp add: verified_at_def open_log_def)

lemma verified_present: "verified_at C fs p l \<Longrightarrow> \<exists>n. fs p = Some n"
  by (auto simp: verified_at_def open_log_def split: option.splits)

lemma saved_verified:
  assumes "cbor_log_ok C" "live_ok C l" "save C io fs p l = (r, fs')"
  shows "fs' = fs \<or> verified_at C fs' p (l\<lparr> al_signer := None \<rparr>)"
  using save_result [OF assms(3)] written_reads [OF assms(1,2)] sealed_verifies [OF assms(2)]
  by (auto simp: verified_at_def)

lemma append_grows:
  assumes C: "cli_crates_ok C" and v: "verified_at C fs (aa_log a) l" and len: "Suc (length (entries l)) < 2 ^ 64"
    and a: "cmd_append C E D a fs = (r, fs')"
  shows "\<exists>l'. verified_at C fs' (aa_log a) l' \<and> grown 1 l l'"
proof -
  have o: "open_log C fs (aa_log a) = Inr l" using v by (simp add: verified_at_def)
  have "Suc (length (entries l')) < 2 ^ 64" if "open_log C fs (aa_log a) = Inr l'" for l' using that o len by simp
  from cmd_append_steps [OF C a this] consider "fs' = fs"
    | m x rs where "live_ok C m" "header m = header l" "entries m = entries l @ [x]" "save C (ci_save E) fs (aa_log a) m = (rs, fs')"
    using o by auto
  then show ?thesis
  proof cases
    case 1
    then show ?thesis using v by (metis grown_refl)
  next
    case 2
    have "grown 1 l (m\<lparr> al_signer := None \<rparr>)" using 2(2,3) by (simp add: grown_def)
    moreover have "cbor_log_ok C" using C by (simp add: cli_crates_ok_def)
    ultimately show ?thesis using saved_verified [OF _ 2(1,4)] v by (metis grown_refl)
  qed
qed

text \<open>Rotation seals the log at its input and leaves every other file but its output.\<close>

lemma rotate_grows:
  assumes C: "cli_crates_ok C" and v: "verified_at C fs p l" and len: "Suc (length (entries l)) < 2 ^ 64"
    and rnd: "length (dr_rnd D) = 16" and p: "\<not> (ra_force a \<and> p = ra_out a)" and a: "cmd_rotate C E D a fs = (r, fs')"
  shows "\<exists>l'. verified_at C fs' p l' \<and> grown 1 l l'"
proof (cases "fs' = fs \<and> r \<noteq> Inr ()")
  case True
  then show ?thesis using v grown_refl by blast
next
  case False
  obtain l0 kp l1 s old new rw fs1 where o: "open_log C fs (ra_in a) = Inr l0"
    and kp: "load_keypair C (dr_entropy D 0) fs (ra_sk a) (ra_pk a) = Inr kp" and b: "bind_keypair C l0 kp = (Inr (), l1)"
    and s: "rotate_signer C (dr_entropy D 1) fs a kp = Inr s"
    and rot: "rotate_to C (dr_entropy D 2) (dr_entropy D 3) (dr_now D) (dr_rnd D) l1 s (ra_new_label a) (ra_new_log_id a) = Inr (old, new)"
    and w: "write_output E fs (ra_out a) (ra_force a) (map_err (\<lambda>_. ''writing new log'') (save_to C new)) = (rw, fs1)"
    and e: "fs' = fs1 \<or> (\<exists>rs. save C (ci_save E) fs1 (ra_in a) old = (rs, fs'))"
    by (rule cmd_rotate_steps [OF a False]) blast
  have "fs1 p = fs p" using write_output_cases [OF w] verified_present [OF v] p by auto
  then have v1: "verified_at C fs1 p l" using verified_frame v by metis
  show ?thesis
  proof (cases "fs' = fs1 \<or> p \<noteq> ra_in a")
    case True
    then have "fs' p = fs1 p" using e save_frame by metis
    then show ?thesis using verified_frame v1 grown_refl by metis
  next
    case False
    then obtain rs where sv: "save C (ci_save E) fs1 p old = (rs, fs')" using e by auto
    have "l0 = l" using False o v by (simp add: verified_at_def)
    then have r: "rotated C l old new" using loaded_rotates [OF C o kp b s rot rnd] len by simp
    have c: "cbor_log_ok C" "live_ok C old" using C r by (simp_all add: cli_crates_ok_def rotated_def)
    have "grown 1 l (old\<lparr> al_signer := None \<rparr>)" using r by (auto simp: grown_def rotated_def)
    then show ?thesis using saved_verified [OF c sv] v1 False by blast
  qed
qed

lemma command_grows:
  assumes C: "cli_crates_ok C" and v: "verified_at C fs p l" and len: "Suc (length (entries l)) < 2 ^ 64"
    and rnd: "length (dr_rnd (w_draw W)) = 16" and p: "p \<notin> overwrites c"
  shows "\<exists>l'. verified_at C (snd (snd (cli_main C W c fs))) p l' \<and> grown 1 l l'"
proof -
  let ?fs' = "snd (snd (cli_main C W c fs))"
  have stays: ?thesis if "?fs' p = fs p" using verified_frame [where fs' = ?fs', OF _ v] that grown_refl by blast
  show ?thesis
  proof (cases c)
    case (Init a)
    moreover have "fs p \<noteq> None" using verified_present [OF v] by auto
    ultimately show ?thesis using kept_files(1) [of fs p a] p by (intro stays) (simp add: run_files)
  next
    case (Append a)
    show ?thesis
    proof (cases "p = aa_log a")
      case True
      then show ?thesis using append_grows [OF C _ len surjective_pairing] v Append by (simp add: run_files)
    next
      case False
      then show ?thesis using kept_files(2) Append by (intro stays) (simp add: run_files)
    qed
  next
    case (Pubkey a)
    then show ?thesis using kept_files(3) p by (intro stays) (simp add: run_files overwrites_def)
  next
    case (Export a)
    then show ?thesis using kept_files(4) p by (intro stays) (simp add: run_files overwrites_def)
  next
    case (Rotate a)
    then have "\<not> (ra_force a \<and> p = ra_out a)" using p by (auto simp: overwrites_def)
    then show ?thesis using rotate_grows [OF C v len rnd _ surjective_pairing] Rotate by (simp add: run_files)
  qed (use stays in \<open>simp_all add: run_files\<close>)
qed

text \<open>
  C10. Take a file that holds a verified log and run any sequence of commands of the tool on the same
  files, with any arguments, whatever system calls fail and whatever becomes of the output,
  as long as no command is told to write over that file. Afterwards the file holds a log that
  verifies, with the same header and all the old entries first, and at most one more for each
  command.
\<close>

theorem logs_are_append_only:
  assumes "cli_crates_ok C" "verified_at C fs p l" "length (entries l) + length cs < 2 ^ 64"
    and "\<And>W c. (W, c) \<in> set cs \<Longrightarrow> p \<notin> overwrites c \<and> length (dr_rnd (w_draw W)) = 16"
  shows "\<exists>l' xs. open_log C (run_all C cs fs) p = Inr l' \<and> al_verify C l' = Inr () \<and> header l' = header l \<and>
    entries l' = entries l @ xs \<and> length xs \<le> length cs"
proof -
  have "\<exists>l'. verified_at C (run_all C cs fs) p l' \<and> grown (length cs) l l'"
    using assms(2-4)
  proof (induction cs arbitrary: fs l)
    case (Cons wc cs)
    obtain W c where wc: "wc = (W, c)" by (cases wc)
    obtain l1 where l1: "verified_at C (snd (snd (cli_main C W c fs))) p l1" "grown 1 l l1"
      using command_grows [OF assms(1) Cons.prems(1)] Cons.prems(2,3) wc by fastforce
    have "length (entries l1) + length cs < 2 ^ 64" using grown_length [OF l1(2)] Cons.prems(2) by simp
    from Cons.IH [OF l1(1) this] Cons.prems(3) wc show ?case
      using grown_trans [OF l1(2)] by (fastforce simp: run_all_def)
  qed (auto simp: run_all_def)
  then show ?thesis by (auto simp: verified_at_def grown_def)
qed

definition closed_pipe :: "nat \<Rightarrow> unit cli_world" where
  "closed_pipe k = \<lparr> w_io = cli_ok, w_draw = cli_at 9, w_out = (\<lambda>i. if i < k then None else Some BrokenPipe), w_err = True,
     w_json = (\<lambda>m. []), w_time = (\<lambda>f t. ''now''), w_debug = code_points,
     w_xml = \<lparr> xw_new = (), xw_write = (\<lambda>w e. Inr w), xw_finish = (\<lambda>w. Inr []) \<rparr>, w_rfc3339 = (\<lambda>b t. ''now''), w_now = 9 \<rparr>"

theorem logs_are_append_only_witness:
  "\<exists>l' xs. open_log toy_log (run_all toy_log [(closed_pipe 0, Append cli_event_args), (closed_pipe 0, Info \<lparr> fa_log = ''l.qa'' \<rparr>)] cli_files) ''l.qa'' = Inr l' \<and>
     al_verify toy_log l' = Inr () \<and> header l' = demo_header \<and> entries l' = [] @ xs \<and> length xs \<le> Suc (Suc 0)"
proof -
  have "verified_at toy_log cli_files ''l.qa'' (demo_log0\<lparr> al_signer := None \<rparr>)"
    using cli_opens sealed_verifies [OF demo_live] by (simp add: verified_at_def)
  moreover have "''l.qa'' \<notin> overwrites c \<and> length (dr_rnd (w_draw W)) = 16"
    if "(W, c) \<in> set [(closed_pipe 0, Append cli_event_args), (closed_pipe 0, Info \<lparr> fa_log = ''l.qa'' \<rparr>)]" for W c
    using that by (auto simp: overwrites_def closed_pipe_def cli_at_def)
  ultimately show ?thesis
    using logs_are_append_only [OF toy_cli, where p = "''l.qa''" and l = "demo_log0\<lparr> al_signer := None \<rparr>" and
        cs = "[(closed_pipe 0, Append cli_event_args), (closed_pipe 0, Info \<lparr> fa_log = ''l.qa'' \<rparr>)]"]
    by (simp add: demo_log0_def)
qed

subsection \<open>A closed pipe\<close>

lemma write_calls_closed:
  assumes "\<And>i. F i \<noteq> None \<Longrightarrow> F i = Some BrokenPipe"
  shows "write_calls F k cs = (out, r) \<Longrightarrow> (r = None \<and> out = cs \<or> r = Some BrokenPipe) \<and> (\<exists>rest. cs = out @ rest)"
proof (induction cs arbitrary: k out)
  case (Cons c cs)
  then show ?case using assms(1) [of k] by (auto split: option.splits prod.splits)
qed simp

text \<open>
  With \<open>inspect\<close> a reader that goes away early is no error: the tool exits with success and has
  printed the first lines of what it would have printed.
\<close>

lemma inspect_into_a_closed_pipe:
  assumes "\<And>i. w_out W i \<noteq> None \<Longrightarrow> w_out W i = Some BrokenPipe"
    and "cmd_inspect C (w_json W) (w_time W) fs (na_log a) (na_limit a) (na_json a) = Inr rows"
  shows "\<exists>out rest. cli_main C W (Inspect a) fs = (Exit_ok, out, fs) \<and> map Line rows = out @ rest"
proof -
  obtain out r where w: "write_calls (w_out W) 0 (map Line rows) = (out, r)" by (meson surj_pair)
  with write_calls_closed [where F = "w_out W", OF assms(1)] have "r = None \<or> r = Some BrokenPipe" "\<exists>rest. map Line rows = out @ rest" by blast+
  then show ?thesis using assms(2) w by (auto simp: cli_main_def run_cmd_def or_fail_def write_out_def)
qed

text \<open>
  The commands that print with \<open>println!\<close> panic in the same situation: \<open>main\<close> never sees an error.
\<close>

lemma info_into_a_closed_pipe:
  assumes "cmd_info C (w_time W) fs (fa_log a) = Inr rows" "w_out W 0 = Some BrokenPipe"
  shows "cli_main C W (Info a) fs = (Exit_panic, [], fs)"
proof -
  obtain r rs where "rows = r # rs" using assms(1) by (auto simp: cmd_info_def info_lines_def Let_def res_simps)
  then show ?thesis using assms by (simp add: cli_main_def run_cmd_def or_fail_def println_out_def)
qed

end
