(* ===== verification/Portal.thy ===== *)
theory Portal
  imports Auditcli "HOL-Library.AList"
begin

text \<open>
  The read-only HTTP view of a log (\<open>qaudit-portal/src/main.rs\<close>): the snapshot taken at start, the
  pages with their escaping and pagination, and the JSON routes. Strings are their UTF-8
  bytes; the characters that are escaped are single bytes. What depends on the state is
  modelled; the constant captions of the page template \<open>index.html\<close> and the template itself are
  not. \<open>show_time\<close> is chrono's rendering of a time in a format.
\<close>

subsection \<open>The snapshot\<close>

fun error_text :: "error \<Rightarrow> string" where
  "error_text (Io e) = ''io error: '' @ e"
| "error_text (Cbor e) = ''serialization error: '' @ e"
| "error_text (BadSignature i) = ''invalid signature at entry '' @ dec_nat (unat i)"
| "error_text (BadKey e) = ''invalid key material: '' @ e"
| "error_text (ChainBroken i expected got) =
     ''merkle chain broken at index '' @ dec_nat (unat i) @ '': prev_root expected '' @ expected @ '', got '' @ got"
| "error_text (InvalidEntry i reason) = ''invalid entry at index '' @ dec_nat (unat i) @ '': '' @ reason"
| "error_text (BadHeader e) = ''invalid header: '' @ e"
| "error_text (VersionMismatch found supported) =
     ''version mismatch: log is v'' @ dec_nat (unat found) @ '', library supports v'' @ dec_nat (unat supported)"
| "error_text (Internal e) = ''internal error: '' @ e"
| "error_text (Panic e) = e"

record app_state =
  as_log :: audit_log
  as_log_path :: string
  as_verify_ok :: bool
  as_verify_error :: "string option"
  as_independent_key :: bool

text \<open>What \<open>main\<close> does before it serves; a panic of the verification ends the process.\<close>

definition verdict :: "'a log_crates_scheme \<Rightarrow> audit_log \<Rightarrow> string + bool \<times> string option" where
  "verdict C l =
     (case al_verify C l of
        Inr _ \<Rightarrow> Inr (True, None)
      | Inl (Panic e) \<Rightarrow> Inl e
      | Inl e \<Rightarrow> Inr (False, Some (error_text e)))"

definition load_state :: "'a log_crates_scheme \<Rightarrow> filesystem \<Rightarrow> string \<Rightarrow> string option \<Rightarrow> string + app_state" where
  "load_state C fs log_path pk_path =
     and_then (map_err (\<lambda>_. ''opening log '' @ log_path) (open_log C fs log_path)) (\<lambda>l.
     and_then (with_pk fs pk_path l) (\<lambda>l.
     and_then (verdict C l) (\<lambda>(ok, err).
     Inr \<lparr> as_log = l, as_log_path = log_path, as_verify_ok = ok, as_verify_error = err,
           as_independent_key = (pk_path \<noteq> None) \<rparr>)))"

subsection \<open>Pages\<close>

definition html_escape_char :: "char \<Rightarrow> string" where
  "html_escape_char c =
     (if c = CHR ''&'' then ''&amp;''
      else if c = CHR ''<'' then ''&lt;''
      else if c = CHR ''>'' then ''&gt;''
      else if c = quote then ''&quot;''
      else if c = CHR 0x27 then ''&#39;''
      else [c])"

definition html_escape :: "string \<Rightarrow> string" where
  "html_escape s = concat (map html_escape_char s)"

record view_options =
  vo_offset :: "nat option"
  vo_limit :: "nat option"
  vo_lang :: "string option"

definition bounds :: "view_options \<Rightarrow> nat \<Rightarrow> nat \<times> nat" where
  "bounds p n = (min (unwrap_or 0 (vo_offset p)) n, max 1 (min (unwrap_or 50 (vo_limit p)) 200))"

definition sat_add_usize :: "nat \<Rightarrow> nat \<Rightarrow> nat" where
  "sat_add_usize a b = min (a + b) (2 ^ 64 - 1)"

text \<open>The numbers of a page: where it starts, how long it may be, where it ends.\<close>

record page_view =
  v_offset :: nat
  v_limit :: nat
  v_end :: nat
  v_shown :: "log_entry list"
  v_prev :: "nat option"
  v_next :: "nat option"
  v_from :: nat
  v_to :: nat

definition view_page :: "view_options \<Rightarrow> log_entry list \<Rightarrow> page_view" where
  "view_page p es =
     (let n = length es; (offset, limit) = bounds p n; stop = min (sat_add_usize offset limit) n in
      \<lparr> v_offset = offset, v_limit = limit, v_end = stop, v_shown = take limit (drop offset es),
        v_prev = (if offset > 0 then Some (offset - limit) else None),
        v_next = (if stop < n then Some stop else None),
        v_from = (if offset < stop then offset + 1 else 0), v_to = (if offset < stop then stop else 0) \<rparr>)"

text \<open>UTF-8 bytes of the characters of the page that are not ASCII.\<close>

definition em_dash :: string where "em_dash = [CHR 0xE2, CHR 0x80, CHR 0x94]"
definition dots :: string where "dots = [CHR 0xE2, CHR 0x80, CHR 0xA6]"
definition check_mark :: string where "check_mark = [CHR 0xE2, CHR 0x9C, CHR 0x93]"
definition cross_mark :: string where "cross_mark = [CHR 0xE2, CHR 0x9C, CHR 0x97]"
definition left_arrow :: string where "left_arrow = [CHR 0xE2, CHR 0x86, CHR 0x90]"
definition right_arrow :: string where "right_arrow = [CHR 0xE2, CHR 0x86, CHR 0x92]"
definition a_acute :: string where "a_acute = [CHR 0xC3, CHR 0xA1]"
definition a_tilde :: string where "a_tilde = [CHR 0xC3, CHR 0xA3]"
definition c_cedilla :: string where "c_cedilla = [CHR 0xC3, CHR 0xA7]"
definition o_acute :: string where "o_acute = [CHR 0xC3, CHR 0xB3]"

definition tr :: "bool \<Rightarrow> string \<Rightarrow> string \<Rightarrow> string" where
  "tr pt en br = (if pt then br else en)"

definition view_badge :: "bool \<Rightarrow> app_state \<Rightarrow> string" where
  \<open>view_badge pt s =
     (if as_verify_ok s
      then ''<span class="badge ok">'' @ check_mark @ '' '' @ tr pt ''Signatures verified'' ''Assinaturas verificadas'' @ ''</span>''
      else ''<span class="badge bad">'' @ cross_mark @ '' '' @
           tr pt ''Verification failed'' (''Falha na verifica'' @ c_cedilla @ a_tilde @ ''o'') @ ''</span>'')\<close>

definition view_error :: "bool \<Rightarrow> app_state \<Rightarrow> string" where
  \<open>view_error pt s =
     (case as_verify_error s of
        Some e \<Rightarrow> ''<div class="err" role="alert">'' @
          tr pt ''Verification error'' (''Erro de verifica'' @ c_cedilla @ a_tilde @ ''o'') @ '': <code>'' @ html_escape e @ ''</code></div>''
      | None \<Rightarrow> [])\<close>

definition view_meta :: "(string \<times> string) list \<Rightarrow> string" where
  \<open>view_meta m = concat (map (\<lambda>(k, v). ''<div><code>'' @ html_escape k @ ''</code> = '' @ html_escape v @ ''</div>'') m)\<close>

definition view_row :: "'a crates_scheme \<Rightarrow> (string \<Rightarrow> timestamp \<Rightarrow> string) \<Rightarrow> log_entry \<Rightarrow> string" where
  \<open>view_row C show_time e =
     (let meta = view_meta (metadata (event e)) in
      ''<tr><td class="num">'' @ dec_nat (unat (le_index e)) @
      ''</td><td class="mono timestamp">'' @ show_time ''%Y-%m-%d %H:%M:%SZ'' (appended_at e) @
      ''</td><td>'' @ html_escape (actor (event e)) @
      ''</td><td><code>'' @ html_escape (action (event e)) @
      ''</code></td><td class="resource">'' @ html_escape (resource (event e)) @
      ''</td><td>'' @ html_escape (outcome (event e)) @
      ''</td><td class="meta">'' @ (if meta = [] then em_dash else meta) @
      ''</td><td class="mono root">'' @ hex_encode C (take 8 (new_root e)) @ dots @ ''</td></tr>'')\<close>

definition view_rows :: "'a crates_scheme \<Rightarrow> (string \<Rightarrow> timestamp \<Rightarrow> string) \<Rightarrow> bool \<Rightarrow> log_entry list \<Rightarrow> string" where
  \<open>view_rows C show_time pt shown =
     (let rows = concat (map (view_row C show_time) shown) in
      if rows = []
      then ''<tr><td colspan="8" class="empty">'' @
           tr pt ''No entries on this page.'' (''Nenhuma entrada nesta p'' @ a_acute @ ''gina.'') @ ''</td></tr>''
      else rows)\<close>

definition view_link :: "string \<Rightarrow> nat \<Rightarrow> nat \<Rightarrow> string \<Rightarrow> string \<Rightarrow> string" where
  \<open>view_link rel offset limit lang txt =
     ''<a class="button" rel="'' @ rel @ ''" href="/?offset='' @ dec_nat offset @ ''&amp;limit='' @ dec_nat limit @
     ''&amp;lang='' @ lang @ ''">'' @ txt @ ''</a>''\<close>

definition view_pagination :: "bool \<Rightarrow> page_view \<Rightarrow> string" where
  "view_pagination pt v =
     (let lang = tr pt ''en'' ''pt-BR'' in
      (case v_prev v of
         Some offset \<Rightarrow> view_link ''prev'' offset (v_limit v) lang (left_arrow @ '' '' @ tr pt ''Previous'' ''Anterior'')
       | None \<Rightarrow> []) @
      (case v_next v of
         Some offset \<Rightarrow> view_link ''next'' offset (v_limit v) lang (tr pt ''Next'' (''Pr'' @ o_acute @ ''xima'') @ '' '' @ right_arrow)
       | None \<Rightarrow> []))"

text \<open>The values the page template is filled with, but for its constant captions.\<close>

record page =
  pg_lang :: string
  pg_log_id :: string
  pg_offset :: nat
  pg_limit :: nat
  pg_badge :: string
  pg_err :: string
  pg_label :: string
  pg_entries :: nat
  pg_key_supplied :: bool
  pg_log_path :: string
  pg_created_at :: string
  pg_suite :: string
  pg_wire_version :: string
  pg_pk_prefix :: string
  pg_root :: string
  pg_from :: nat
  pg_to :: nat
  pg_rows :: string
  pg_pagination :: string

definition index :: "'a crates_scheme \<Rightarrow> (string \<Rightarrow> timestamp \<Rightarrow> string) \<Rightarrow> app_state \<Rightarrow> view_options \<Rightarrow> page" where
  "index C show_time s p =
     (let h = header (as_log s); pt = (vo_lang p = Some ''pt-BR''); v = view_page p (entries (as_log s)) in
      \<lparr> pg_lang = tr pt ''en'' ''pt-BR'', pg_log_id = hex_encode C (lh_log_id h), pg_offset = v_offset v, pg_limit = v_limit v,
        pg_badge = view_badge pt s, pg_err = view_error pt s,
        pg_label = html_escape (if label h = [] then tr pt ''Untitled log'' (''Registro sem t'' @ [CHR 0xC3, CHR 0xAD] @ ''tulo'') else label h),
        pg_entries = length (entries (as_log s)), pg_key_supplied = as_independent_key s,
        pg_log_path = html_escape (as_log_path s), pg_created_at = show_time [] (created_at h),
        pg_suite = html_escape (suite h), pg_wire_version = dec_nat (unat (wire_version h)),
        pg_pk_prefix = hex_encode C (take 16 (pubkey h)), pg_root = hex_encode C (current_root C (as_log s)),
        pg_from = v_from v, pg_to = v_to v, pg_rows = view_rows C show_time pt (v_shown v),
        pg_pagination = view_pagination pt v \<rparr>)"

subsection \<open>Routes\<close>

datatype json_value =
    JNull
  | JBool bool
  | JNat nat
  | JText string
  | JList "json_value list"
  | JMap "(string \<times> json_value) list"

definition json_opt :: "string option \<Rightarrow> json_value" where
  "json_opt x = (case x of Some s \<Rightarrow> JText s | None \<Rightarrow> JNull)"

definition api_info :: "'a crates_scheme \<Rightarrow> (string \<Rightarrow> timestamp \<Rightarrow> string) \<Rightarrow> app_state \<Rightarrow> json_value" where
  "api_info C show_time s =
     (let h = header (as_log s) in
      JMap [(''log_id'', JText (hex_encode C (lh_log_id h))), (''suite'', JText (suite h)),
            (''wire_version'', JNat (unat (wire_version h))), (''created_at'', JText (show_time ''rfc3339'' (created_at h))),
            (''label'', JText (label h)), (''entries'', JNat (unat (al_len (as_log s)))),
            (''current_root'', JText (hex_encode C (current_root C (as_log s)))),
            (''pubkey_bytes'', JNat (length (pubkey h))), (''signature_algorithm'', JText ''ml-dsa-87''),
            (''hash_algorithm'', JText ''blake3-256''), (''verify_ok'', JBool (as_verify_ok s)),
            (''verify_error'', json_opt (as_verify_error s)), (''snapshot'', JText ''startup''),
            (''independent_key_supplied'', JBool (as_independent_key s))])"

definition api_verify :: "'a crates_scheme \<Rightarrow> app_state \<Rightarrow> nat \<times> json_value" where
  "api_verify C s =
     (if as_verify_ok s
      then (200, JMap [(''ok'', JBool True), (''snapshot'', JText ''startup''),
                       (''independent_key_supplied'', JBool (as_independent_key s)),
                       (''entries'', JNat (unat (al_len (as_log s)))),
                       (''root'', JText (hex_encode C (current_root C (as_log s))))])
      else (422, JMap [(''ok'', JBool False), (''error'', json_opt (as_verify_error s))]))"

definition api_entry :: "'a crates_scheme \<Rightarrow> (string \<Rightarrow> timestamp \<Rightarrow> string) \<Rightarrow> log_entry \<Rightarrow> json_value" where
  "api_entry C show_time e =
     JMap [(''index'', JNat (unat (le_index e))), (''appended_at'', JText (show_time ''rfc3339'' (appended_at e))),
           (''actor'', JText (actor (event e))), (''action'', JText (action (event e))),
           (''resource'', JText (resource (event e))), (''outcome'', JText (outcome (event e))),
           (''metadata'', JMap (map (\<lambda>(k, v). (k, JText v)) (metadata (event e)))),
           (''prev_root'', JText (hex_encode C (prev_root e))), (''new_root'', JText (hex_encode C (new_root e))),
           (''signature'', JText (hex_encode C (le_signature e)))]"

definition api_entries :: "'a crates_scheme \<Rightarrow> (string \<Rightarrow> timestamp \<Rightarrow> string) \<Rightarrow> app_state \<Rightarrow> nat option \<Rightarrow> nat option \<Rightarrow> json_value" where
  "api_entries C show_time s offset limit =
     (let off = unwrap_or 0 offset; lim = min (unwrap_or 100 limit) 1000;
          es = map (api_entry C show_time) (take lim (drop off (entries (as_log s)))) in
      JMap [(''offset'', JNat off), (''limit'', JNat lim), (''total'', JNat (unat (al_len (as_log s)))),
            (''returned'', JNat (length es)), (''entries'', JList es)])"

definition api_pubkey :: "app_state \<Rightarrow> bytes" where
  "api_pubkey s = pubkey (header (as_log s))"

datatype body = Page page | Json json_value | Bytes bytes | Plain string | Asset string

record response =
  rs_status :: nat
  rs_headers :: "(string \<times> string) list"
  rs_body :: body

text \<open>\<open>HeaderMap::insert\<close> replaces what was there.\<close>

definition put_header :: "string \<times> string \<Rightarrow> response \<Rightarrow> response" where
  "put_header kv r = r\<lparr> rs_headers := AList.update (fst kv) (snd kv) (rs_headers r) \<rparr>"

definition security_values :: "(string \<times> string) list" where
  "security_values =
     [(''cache-control'', ''no-store''),
      (''content-security-policy'',
       ''default-src 'none'; style-src 'self'; base-uri 'none'; form-action 'none'; frame-ancestors 'none'' @ [CHR 0x27]),
      (''x-content-type-options'', ''nosniff''),
      (''x-frame-options'', ''DENY''),
      (''referrer-policy'', ''no-referrer'')]"

definition security_headers :: "response \<Rightarrow> response" where
  "security_headers r = fold put_header security_values r"

text \<open>
  The router for a \<open>GET\<close> request whose query was read; \<open>None\<close>: the query does not parse, which
  axum answers with 400 on the routes that read one. Other paths get 404.
\<close>

definition route :: "'a crates_scheme \<Rightarrow> (string \<Rightarrow> timestamp \<Rightarrow> string) \<Rightarrow> app_state \<Rightarrow> string \<Rightarrow> view_options option \<Rightarrow> response" where
  "route C show_time s path query =
     (let reply = (\<lambda>status ct b. \<lparr> rs_status = status, rs_headers = [(''content-type'', ct)], rs_body = b \<rparr>);
          js = (\<lambda>status v. reply status ''application/json'' (Json v));
          bad = reply 400 ''text/plain; charset=utf-8'' (Plain ''Failed to deserialize query string'') in
      if path = ''/'' then
        (case query of Some p \<Rightarrow> reply 200 ''text/html; charset=utf-8'' (Page (index C show_time s p)) | None \<Rightarrow> bad)
      else if path = ''/assets/style.css'' then reply 200 ''text/css; charset=utf-8'' (Asset ''style.css'')
      else if path = ''/api/info'' then js 200 (api_info C show_time s)
      else if path = ''/api/verify'' then (case api_verify C s of (status, v) \<Rightarrow> js status v)
      else if path = ''/api/entries'' then
        (case query of Some p \<Rightarrow> js 200 (api_entries C show_time s (vo_offset p) (vo_limit p)) | None \<Rightarrow> bad)
      else if path = ''/api/pubkey'' then reply 200 ''application/octet-stream'' (Bytes (api_pubkey s))
      else if path = ''/healthz'' then reply 200 ''text/plain; charset=utf-8'' (Plain ''ok'')
      else \<lparr> rs_status = 404, rs_headers = [], rs_body = Plain [] \<rparr>)"

definition serve :: "'a crates_scheme \<Rightarrow> (string \<Rightarrow> timestamp \<Rightarrow> string) \<Rightarrow> app_state \<Rightarrow> string \<Rightarrow> view_options option \<Rightarrow> response" where
  "serve C show_time s path query = security_headers (route C show_time s path query)"

end
