(* ===== verification/Portal_Theorems.thy ===== *)
theory Portal_Theorems
  imports Portal Cli_Theorems
begin

text \<open>
  The properties of the portal: the verdict it reports is that of the log it loaded, the table
  it renders reads back as the entries of the page whatever they contain, and its pages cover
  the log.
\<close>

subsection \<open>A reader of markup\<close>

text \<open>
  The specification of the rendered table: markup is a list of tags and texts, and the reader
  takes what stands between angle brackets for a tag and resolves the entities of the rest.
\<close>

datatype node = Tag string | Txt string

fun html_unescape :: "string \<Rightarrow> string" where
  "html_unescape [] = []"
| "html_unescape (c # s) =
     (if c \<noteq> CHR ''&'' then c # html_unescape s
      else if starts_with ''amp;'' s then CHR ''&'' # html_unescape (drop 4 s)
      else if starts_with ''lt;'' s then CHR ''<'' # html_unescape (drop 3 s)
      else if starts_with ''gt;'' s then CHR ''>'' # html_unescape (drop 3 s)
      else if starts_with ''quot;'' s then quote # html_unescape (drop 5 s)
      else if starts_with ''#39;'' s then CHR 0x27 # html_unescape (drop 4 s)
      else c # html_unescape s)"

function read_html :: "string \<Rightarrow> node list" where
  "read_html s =
     (if s = [] then []
      else if hd s = CHR ''<''
      then Tag (takeWhile (\<lambda>c. c \<noteq> CHR ''>'') (tl s)) # read_html (drop 1 (dropWhile (\<lambda>c. c \<noteq> CHR ''>'') (tl s)))
      else Txt (html_unescape (takeWhile (\<lambda>c. c \<noteq> CHR ''<'') s)) # read_html (dropWhile (\<lambda>c. c \<noteq> CHR ''<'') s))"
  by pat_completeness auto
termination
proof (relation "measure length")
  fix s :: string
  assume a: "s \<noteq> []" "hd s = CHR ''<''"
  have "length (dropWhile (\<lambda>c. c \<noteq> CHR ''>'') (tl s)) \<le> length (tl s)" by (rule length_dropWhile_le)
  then show "(drop 1 (dropWhile (\<lambda>c. c \<noteq> CHR ''>'') (tl s)), s) \<in> measure length"
    using a by (cases s) auto
next
  fix s :: string
  assume a: "s \<noteq> []" "hd s \<noteq> CHR ''<''"
  have "length (dropWhile (\<lambda>c. c \<noteq> CHR ''<'') (tl s)) \<le> length (tl s)" by (rule length_dropWhile_le)
  then show "(dropWhile (\<lambda>c. c \<noteq> CHR ''<'') s, s) \<in> measure length"
    using a by (cases s) auto
qed simp

declare read_html.simps [simp del]

fun html_render :: "node list \<Rightarrow> string" where
  "html_render [] = []"
| "html_render (Tag t # ns) = CHR ''<'' # t @ CHR ''>'' # html_render ns"
| "html_render (Txt s # ns) = html_escape s @ html_render ns"

text \<open>Adjacent texts are one text and an empty text is none.\<close>

fun join_texts :: "node list \<Rightarrow> node list" where
  "join_texts [] = []"
| "join_texts (Tag t # ns) = Tag t # join_texts ns"
| "join_texts (Txt s # ns) =
     (case join_texts ns of
        Txt s' # r \<Rightarrow> Txt (s @ s') # r
      | r \<Rightarrow> if s = [] then r else Txt s # r)"

definition tags_ok :: "node list \<Rightarrow> bool" where
  "tags_ok ns \<longleftrightarrow> list_all (\<lambda>n. case n of Tag t \<Rightarrow> CHR ''>'' \<notin> set t | Txt s \<Rightarrow> True) ns"

subsection \<open>Escaping\<close>

lemma html_escape_simps [simp]:
  "html_escape [] = []" "html_escape (c # s) = html_escape_char c @ html_escape s" "html_escape (a @ b) = html_escape a @ html_escape b"
  by (simp_all add: html_escape_def)

lemma html_unescape_escape: "html_unescape (html_escape s) = s"
proof (induction s)
  case (Cons c s)
  then show ?case by (simp add: html_escape_char_def starts_with_def)
qed simp

interpretation html_esc: char_escape html_escape_char "\<lambda>c. c \<in> {CHR ''&'', CHR ''<'', CHR ''>'', quote, CHR 0x27}"
    "\<lambda>c. c \<in> {CHR ''<'', CHR ''>'', quote, CHR 0x27}"
  by unfold_locales (auto simp: html_escape_char_def split: if_splits)

lemma html_escape_no_tags: "CHR ''<'' \<notin> set (html_escape s)" "CHR ''>'' \<notin> set (html_escape s)" "quote \<notin> set (html_escape s)"
  unfolding html_escape_def using html_esc.escaped_clean by blast+

lemma html_escape_nonempty: "html_escape s = [] \<longleftrightarrow> s = []"
  by (cases s) (auto simp: html_escape_char_def)

lemma html_escape_id: "set s \<inter> {CHR ''&'', CHR ''<'', CHR ''>'', quote, CHR 0x27} = {} \<Longrightarrow> html_escape s = s"
  unfolding html_escape_def by (rule html_esc.escaped_id) (auto simp: list_all_iff)

subsection \<open>Reading what was rendered\<close>

lemma read_text:
  assumes "s \<noteq> []" "r = [] \<or> hd r = CHR ''<''"
  shows "read_html (html_escape s @ r) = Txt s # read_html r"
proof -
  have ne: "html_escape s \<noteq> []" using assms(1) html_escape_nonempty by simp
  then have "hd (html_escape s @ r) \<noteq> CHR ''<''"
    using html_escape_no_tags(1) [of s] by (metis hd_append hd_in_set)
  moreover have "takeWhile (\<lambda>c. c \<noteq> CHR ''<'') (html_escape s @ r) = html_escape s"
    "dropWhile (\<lambda>c. c \<noteq> CHR ''<'') (html_escape s @ r) = r"
    using assms(2) html_escape_no_tags(1) [of s] by (cases r; auto simp: takeWhile_append dropWhile_append)+
  ultimately show ?thesis using ne by (subst read_html.simps) (simp add: html_unescape_escape)
qed

lemma read_tag: "CHR ''>'' \<notin> set t \<Longrightarrow> read_html (CHR ''<'' # t @ CHR ''>'' # r) = Tag t # read_html r"
  by (subst read_html.simps) (auto simp: takeWhile_append dropWhile_append)

lemma render_join: "html_render (join_texts ns) = html_render ns"
  by (induction ns rule: join_texts.induct) (auto split: list.splits node.splits)

lemma join_texts_tail:
  "join_texts ns = Txt s # r \<Longrightarrow> s \<noteq> [] \<and> (r = [] \<or> (\<exists>t r'. r = Tag t # r'))"
  by (induction ns arbitrary: s r rule: join_texts.induct) (auto split: list.splits node.splits if_splits)

fun joined :: "node list \<Rightarrow> bool" where
  "joined [] = True"
| "joined (Tag t # ns) = joined ns"
| "joined (Txt s # ns) = (s \<noteq> [] \<and> (case ns of Txt s' # r \<Rightarrow> False | _ \<Rightarrow> True) \<and> joined ns)"

lemma joined_join: "joined (join_texts ns)"
  by (induction ns rule: join_texts.induct) (auto split: list.splits node.splits)

lemma read_joined: "joined ns \<Longrightarrow> tags_ok ns \<Longrightarrow> read_html (html_render ns) = ns"
proof (induction ns rule: joined.induct)
  case 1
  then show ?case by (simp add: read_html.simps)
next
  case (2 t ns)
  then show ?case by (simp add: tags_ok_def read_tag)
next
  case (3 s ns)
  have "html_render ns = [] \<or> hd (html_render ns) = CHR ''<''"
    using 3(2) by (auto split: list.splits node.splits elim: html_render.elims)
  then show ?case using 3 by (simp add: read_text tags_ok_def)
qed

lemma tags_join: "tags_ok ns \<Longrightarrow> tags_ok (join_texts ns)"
  by (induction ns rule: join_texts.induct) (auto simp: tags_ok_def split: list.splits node.splits)

lemma read_render: "tags_ok ns \<Longrightarrow> read_html (html_render ns) = join_texts ns"
  using read_joined [OF joined_join tags_join] by (simp add: render_join)


subsection \<open>The table\<close>

text \<open>chrono writes a time with digits, separators and zone letters.\<close>

definition times_clean :: "(string \<Rightarrow> timestamp \<Rightarrow> string) \<Rightarrow> bool" where
  "times_clean show_time \<longleftrightarrow> (\<forall>f t. set (show_time f t) \<subseteq> set ''0123456789-+:. TZUC'')"

definition meta_nodes :: "(string \<times> string) list \<Rightarrow> node list" where
  "meta_nodes m =
     (if m = [] then [Txt em_dash]
      else concat (map (\<lambda>(k, v). [Tag ''div'', Tag ''code'', Txt k, Tag ''/code'', Txt ('' = '' @ v), Tag ''/div'']) m))"

definition row_nodes :: "'a crates_scheme \<Rightarrow> (string \<Rightarrow> timestamp \<Rightarrow> string) \<Rightarrow> log_entry \<Rightarrow> node list" where
  \<open>row_nodes C show_time e =
     [Tag ''tr'',
      Tag ''td class="num"'', Txt (dec_nat (unat (le_index e))), Tag ''/td'',
      Tag ''td class="mono timestamp"'', Txt (show_time ''%Y-%m-%d %H:%M:%SZ'' (appended_at e)), Tag ''/td'',
      Tag ''td'', Txt (actor (event e)), Tag ''/td'',
      Tag ''td'', Tag ''code'', Txt (action (event e)), Tag ''/code'', Tag ''/td'',
      Tag ''td class="resource"'', Txt (resource (event e)), Tag ''/td'',
      Tag ''td'', Txt (outcome (event e)), Tag ''/td'',
      Tag ''td class="meta"''] @ meta_nodes (metadata (event e)) @
     [Tag ''/td'', Tag ''td class="mono root"'', Txt (hex_encode C (take 8 (new_root e)) @ dots), Tag ''/td'', Tag ''/tr'']\<close>

lemma html_render_append: "html_render (a @ b) = html_render a @ html_render b"
  by (induction a rule: html_render.induct) simp_all

lemma render_meta: "html_render (meta_nodes m) = (if view_meta m = [] then em_dash else view_meta m)"
proof (cases "m = []")
  case True
  have "html_escape em_dash = em_dash" by (rule html_escape_id) (simp add: em_dash_def)
  then show ?thesis using True by (simp add: meta_nodes_def view_meta_def)
next
  case False
  have "html_render (concat (map (\<lambda>(k, v). [Tag ''div'', Tag ''code'', Txt k, Tag ''/code'', Txt ('' = '' @ v), Tag ''/div'']) m)) = view_meta m"
    by (induction m) (auto simp: view_meta_def html_render_append html_escape_char_def)
  moreover have "view_meta m \<noteq> []" using False by (cases m) (auto simp: view_meta_def)
  ultimately show ?thesis using False by (simp add: meta_nodes_def)
qed

lemma dec_nat_escape: "html_escape (dec_nat n) = dec_nat n"
  by (rule html_escape_id) (auto simp: is_digit_def dest!: dec_nat_digits)

lemma render_row:
  assumes "hex_digits C" "times_clean show_time"
  shows "html_render (row_nodes C show_time e) = view_row C show_time e"
proof -
  have h: "html_escape (hex_encode C b) = hex_encode C b" for b
    using assms(1) by (intro html_escape_id) (fastforce simp: hex_digits_def)
  have t: "html_escape (show_time f x) = show_time f x" for f x
    using assms(2) by (intro html_escape_id) (fastforce simp: times_clean_def)
  have d: "html_escape dots = dots" by (rule html_escape_id) (simp add: dots_def)
  show ?thesis
    by (simp add: row_nodes_def view_row_def html_render_append render_meta dec_nat_escape h t d Let_def)
qed

lemma row_tags: "tags_ok (row_nodes C show_time e)"
  by (auto simp: tags_ok_def row_nodes_def meta_nodes_def list_all_iff)

text \<open>
  C28. The rows of a page read back as exactly the cells of the entries it shows, one row an
  entry with the event's own text in each cell, whatever characters the log holds: no text of
  a log becomes markup, and none is lost.
\<close>

theorem rows_read_back_as_the_entries:
  assumes "hex_digits C" "times_clean show_time" "v_shown (view_page p (entries (as_log s))) = shown" "shown \<noteq> []"
  shows "read_html (pg_rows (index C show_time s p)) = join_texts (concat (map (row_nodes C show_time) shown))"
proof -
  have r: "concat (map (view_row C show_time) es) = html_render (concat (map (row_nodes C show_time) es))" for es
    by (induction es) (simp_all add: html_render_append render_row [OF assms(1,2)])
  have "view_row C show_time (hd shown) \<noteq> []" by (simp add: view_row_def Let_def)
  then have "concat (map (view_row C show_time) shown) \<noteq> []" using assms(4) by (cases shown) auto
  then have "pg_rows (index C show_time s p) = html_render (concat (map (row_nodes C show_time) shown))"
    using assms(3) r by (simp add: index_def view_rows_def Let_def)
  moreover have "tags_ok (concat (map (row_nodes C show_time) es))" for es
    using row_tags [of C show_time] by (induction es) (auto simp: tags_ok_def)
  ultimately show ?thesis by (simp add: read_render)
qed

definition first_page :: view_options where
  "first_page = \<lparr> vo_offset = None, vo_limit = Some 2, vo_lang = None \<rparr>"

definition hostile_entry :: log_entry where
  "hostile_entry = demo_entry\<lparr> event := demo_event\<lparr> actor := ''<script>'', metadata := [(''k'', ''</td>'')] \<rparr> \<rparr>"

definition hostile_state :: app_state where
  "hostile_state = \<lparr> as_log = demo_log\<lparr> entries := [hostile_entry] \<rparr>, as_log_path = ''l.qa'', as_verify_ok = False,
     as_verify_error = None, as_independent_key = False \<rparr>"

theorem rows_read_back_as_the_entries_witness:
  "read_html (pg_rows (index toy_log (\<lambda>f t. ''0'') hostile_state first_page)) =
     join_texts (row_nodes toy_log (\<lambda>f t. ''0'') hostile_entry) \<and>
   Txt ''<script>'' \<in> set (row_nodes toy_log (\<lambda>f t. ''0'') hostile_entry)"
proof -
  have "hex_digits toy_log" by (rule toy_hex_digits [OF toy_log_truncate])
  moreover have "times_clean (\<lambda>f t. ''0'')" by (simp add: times_clean_def)
  moreover have "v_shown (view_page first_page (entries (as_log hostile_state))) = [hostile_entry]"
    by (simp add: view_page_def bounds_def first_page_def hostile_state_def unwrap_or_def Let_def)
  ultimately show ?thesis
    using rows_read_back_as_the_entries [of toy_log "\<lambda>f t. ''0''" first_page hostile_state "[hostile_entry]"]
    by (simp add: row_nodes_def hostile_entry_def)
qed

subsection \<open>Pages\<close>

lemma view_page_stop:
  assumes "length es < 2 ^ 64"
  shows "v_end (view_page p es) = min (v_offset (view_page p es) + v_limit (view_page p es)) (length es)"
proof -
  have "min (min a (2 ^ 64 - 1)) (length es) = min a (length es)" for a :: nat
    using assms by (auto simp: min_def)
  then show ?thesis by (simp add: view_page_def bounds_def sat_add_usize_def Let_def)
qed

lemma view_page_limit: "1 \<le> v_limit (view_page p es)" "v_limit (view_page p es) \<le> 200" "v_offset (view_page p es) \<le> length es"
  by (simp_all add: view_page_def bounds_def Let_def)

lemma view_page_fields:
  "v_offset (view_page p es) = min (unwrap_or 0 (vo_offset p)) (length es)"
  "v_limit (view_page p es) = max 1 (min (unwrap_or 50 (vo_limit p)) 200)"
  "v_prev (view_page p es) =
     (if v_offset (view_page p es) > 0 then Some (v_offset (view_page p es) - v_limit (view_page p es)) else None)"
  by (simp_all add: view_page_def bounds_def Let_def)

lemma view_page_shown:
  "v_shown (view_page p es) = take (v_limit (view_page p es)) (drop (v_offset (view_page p es)) es)"
  by (simp add: view_page_def bounds_def Let_def)

lemma view_page_next:
  "v_next (view_page p es) = (if v_end (view_page p es) < length es then Some (v_end (view_page p es)) else None)"
  by (simp add: view_page_def bounds_def Let_def)

text \<open>The page a link leads to, and all pages from one on along the links to the next.\<close>

definition follow :: "view_options \<Rightarrow> page_view \<Rightarrow> nat \<Rightarrow> view_options" where
  "follow p v offset = \<lparr> vo_offset = Some offset, vo_limit = Some (v_limit v), vo_lang = vo_lang p \<rparr>"

function pages :: "view_options \<Rightarrow> log_entry list \<Rightarrow> page_view list" where
  "pages p es =
     (let v = view_page p es in
      v # (case v_next v of
             Some n \<Rightarrow> if v_offset v < n then pages (follow p v n) es else []
           | None \<Rightarrow> []))"
  by pat_completeness auto
termination
proof (relation "measure (\<lambda>(p, es). length es - v_offset (view_page p es))")
  fix p es v n
  assume a: "v = view_page p es" "v_next v = Some n" "v_offset v < n"
  then have "n < length es" by (auto simp: view_page_next split: if_splits)
  then have "v_offset (view_page (follow p v n) es) = n"
    by (simp add: view_page_def bounds_def follow_def unwrap_or_def Let_def)
  then show "((follow p v n, es), p, es) \<in> measure (\<lambda>(p, es). length es - v_offset (view_page p es))"
    using a \<open>n < length es\<close> by simp
qed simp

declare pages.simps [simp del]

lemma follow_page:
  assumes "length es < 2 ^ 64" "v_next (view_page p es) = Some n"
  defines "w \<equiv> view_page (follow p (view_page p es) n) es"
  shows "v_offset (view_page p es) < n" "v_offset w = n" "v_limit w = v_limit (view_page p es)"
    "v_prev w = Some (v_offset (view_page p es))" "n = v_offset (view_page p es) + v_limit (view_page p es)"
proof -
  let ?v = "view_page p es"
  have n: "n < length es" "n = v_offset ?v + v_limit ?v"
    using assms(2) view_page_stop [OF assms(1), of p] by (auto simp: view_page_next split: if_splits)
  show "v_offset ?v < n" "n = v_offset ?v + v_limit ?v" using n view_page_limit(1) [of p es] by simp_all
  have "v_limit w = max 1 (min (v_limit ?v) 200)" unfolding w_def by (subst view_page_fields(2)) (simp add: follow_def unwrap_or_def)
  then have "v_limit w = v_limit ?v" using view_page_limit [of p es] by simp
  moreover have "v_offset w = n" unfolding w_def view_page_fields(1) using n(1) by (simp add: follow_def unwrap_or_def)
  ultimately show w: "v_offset w = n" "v_limit w = v_limit ?v" by simp_all
  have "v_prev w = (if v_offset w > 0 then Some (v_offset w - v_limit w) else None)"
    unfolding w_def by (rule view_page_fields(3))
  then show "v_prev w = Some (v_offset ?v)" using w n(2) view_page_limit(1) [of p es] by simp
qed

lemma pages_from:
  "length es < 2 ^ 64 \<Longrightarrow> concat (map v_shown (pages p es)) = drop (v_offset (view_page p es)) es"
proof (induction p es rule: pages.induct)
  case (1 p es)
  let ?v = "view_page p es"
  show ?case
  proof (cases "v_next ?v")
    case None
    then have "length es \<le> v_offset ?v + v_limit ?v"
      using view_page_stop [OF 1(2), of p] by (auto simp: view_page_next split: if_splits)
    then show ?thesis using None by (simp add: pages.simps [of p] view_page_shown Let_def)
  next
    case (Some n)
    note f = follow_page [OF 1(2) Some]
    have "concat (map v_shown (pages (follow p ?v n) es)) = drop n es"
      using 1(1) [OF refl Some f(1) 1(2)] f(2) by simp
    then show ?thesis using Some f(1,5)
      by (simp add: pages.simps [of p] view_page_shown Let_def add.commute) (metis append_take_drop_id drop_drop add.commute)
  qed
qed

lemma pages_views: "v \<in> set (pages p es) \<Longrightarrow> \<exists>q. v = view_page q es"
proof (induction p es rule: pages.induct)
  case (1 p es)
  show ?case
  proof (cases "v = view_page p es")
    case False
    then obtain n where "v_next (view_page p es) = Some n" "v_offset (view_page p es) < n"
      "v \<in> set (pages (follow p (view_page p es) n) es)"
      using 1(2) by (cases "v_next (view_page p es)") (auto simp: pages.simps [of p] Let_def split: if_splits)
    then show ?thesis by (rule 1(1) [OF refl])
  qed blast
qed

text \<open>
  C36. Following the links to the next page from the first one shows every entry of the log
  exactly once and in order, at most two hundred a page, for every requested limit; and the
  link back from the next page leads to where one was.
\<close>

theorem pages_cover_the_log:
  assumes "length es < 2 ^ 64" "vo_offset p = None"
  shows "concat (map v_shown (pages p es)) = es \<and> (\<forall>v. v \<in> set (pages p es) \<longrightarrow> length (v_shown v) \<le> 200) \<and>
    (\<forall>q n. v_next (view_page q es) = Some n \<longrightarrow>
       v_prev (view_page (follow q (view_page q es) n) es) = Some (v_offset (view_page q es)))"
proof (intro conjI allI impI)
  have "v_offset (view_page p es) = 0" using assms(2) by (simp add: view_page_def bounds_def unwrap_or_def Let_def)
  then show "concat (map v_shown (pages p es)) = es" using pages_from [OF assms(1), of p] by simp
next
  fix v assume "v \<in> set (pages p es)"
  then obtain q where "v = view_page q es" using pages_views by blast
  then show "length (v_shown v) \<le> 200" using view_page_limit(2) [of q es] by (simp add: view_page_shown)
next
  fix q n assume "v_next (view_page q es) = Some n"
  then show "v_prev (view_page (follow q (view_page q es) n) es) = Some (v_offset (view_page q es))"
    by (rule follow_page(4) [OF assms(1)])
qed

theorem pages_cover_the_log_witness:
  "concat (map v_shown (pages first_page (replicate 3 demo_entry))) = replicate 3 demo_entry"
  using pages_cover_the_log [of "replicate 3 demo_entry" first_page] by (simp add: first_page_def)

subsection \<open>The verdict\<close>

lemma verdict_ok: "verdict C l = Inr (ok, err) \<Longrightarrow> ok \<longleftrightarrow> al_verify C l = Inr ()"
  by (auto simp: verdict_def split: sum.splits error.splits)

lemma load_state_parts:
  assumes "load_state C fs path pk = Inr s"
  shows "open_log C fs path = Inr (as_log s)" "as_verify_ok s \<longleftrightarrow> al_verify C (as_log s) = Inr ()"
    "pk = Some p \<Longrightarrow> \<exists>b. read_file fs p = Some b \<and> decode_pubkey_any b = Inr (pubkey (header (as_log s)))"
proof -
  obtain l l' where l: "open_log C fs path = Inr l" "with_pk fs pk l = Inr l'" "as_log s = l'"
    and v: "as_verify_ok s \<longleftrightarrow> al_verify C l' = Inr ()"
    using assms verdict_ok [of C] by (auto simp: load_state_def res_simps)
  have "l' = l" using l(2) by (auto simp: with_pk_def override_pubkey_def res_simps split: option.splits)
  then show "open_log C fs path = Inr (as_log s)" "as_verify_ok s \<longleftrightarrow> al_verify C (as_log s) = Inr ()"
    using l v by simp_all
  show "\<exists>b. read_file fs p = Some b \<and> decode_pubkey_any b = Inr (pubkey (header (as_log s)))" if "pk = Some p"
    using l that \<open>l' = l\<close> by (auto simp: with_pk_def res_simps)
qed

lemma security_headers_set:
  "(k, v) \<in> set security_values \<Longrightarrow> map_of (rs_headers (security_headers r)) k = Some v"
  by (auto simp: security_headers_def security_values_def put_header_def update_conv')

lemma security_headers_keep: "rs_status (security_headers r) = rs_status r" "rs_body (security_headers r) = rs_body r"
  by (simp_all add: security_headers_def security_values_def put_header_def)

text \<open>
  C27. The portal answers the verification request with success exactly when the file it loaded
  satisfies the specification of a verified log, and shows the badge for it; with a key file
  given, the key the log was verified under is the one in that file. Every response carries
  the security headers.
\<close>

theorem portal_verdict_is_that_of_the_log:
  assumes "load_state C fs path pk = Inr s" "length (entries (as_log s)) < 2 ^ 64"
  shows "open_log C fs path = Inr (as_log s) \<and>
    (rs_status (serve C show_time s ''/api/verify'' query) = 200 \<longleftrightarrow>
       header_ok (header (as_log s)) \<and> entries_spec C (header (as_log s)) (entries (as_log s))) \<and>
    (\<forall>p. pk = Some p \<longrightarrow> (\<exists>b. read_file fs p = Some b \<and> decode_pubkey_any b = Inr (pubkey (header (as_log s))))) \<and>
    (\<forall>k v url. (k, v) \<in> set security_values \<longrightarrow> map_of (rs_headers (serve C show_time s url query)) k = Some v)"
proof -
  have "rs_status (serve C show_time s ''/api/verify'' query) = 200 \<longleftrightarrow> as_verify_ok s"
    by (simp add: serve_def security_headers_keep route_def api_verify_def Let_def)
  moreover have "al_verify C (as_log s) = Inr () \<longleftrightarrow>
      header_ok (header (as_log s)) \<and> entries_spec C (header (as_log s)) (entries (as_log s))"
    using verify_iff [OF assms(2)] by (simp add: al_verify_def)
  ultimately show ?thesis
    using load_state_parts [OF assms(1)] security_headers_set by (auto simp: serve_def)
qed

theorem portal_verdict_is_that_of_the_log_witness:
  "\<exists>s. load_state toy_log cli_files ''l.qa'' (Some ''l.pk'') = Inr s \<and>
     (rs_status (serve toy_log (\<lambda>f t. []) s ''/api/verify'' None) = 200 \<longleftrightarrow>
       header_ok (header (as_log s)) \<and> entries_spec toy_log (header (as_log s)) (entries (as_log s)))"
proof -
  let ?l = "demo_log0\<lparr> al_signer := None \<rparr>"
  have "verdict toy_log ?l = Inr (True, None)" using sealed_verifies [OF demo_live] by (simp add: verdict_def)
  moreover have "with_pk cli_files (Some ''l.pk'') ?l = Inr ?l"
    by (simp add: with_pk_def cli_files_def read_file_def new_file_def decode_pubkey_any_def PublicKey_from_bytes_def
        demo_keypair_def key_lens override_pubkey_def demo_log0_def demo_header_def)
  ultimately obtain s where s: "load_state toy_log cli_files ''l.qa'' (Some ''l.pk'') = Inr s" "as_log s = ?l"
    by (simp add: load_state_def cli_opens)
  then show ?thesis using portal_verdict_is_that_of_the_log [OF s(1)] by auto
qed

end
