(* ===== verification/Sni_Group.thy ===== *)
theory Sni_Group
  imports Session_Theorems
begin

text \<open>
  A listener that several tenants share (\<open>run_sni_group\<close> and \<open>handle_sni_session\<close> of
  \<open>qgateway-core/src/gateway.rs\<close>). The loop accepts a connection before any tenant is known; the
  connection's task finishes the TLS handshake, looks the server name up in the table that is
  current then, and only after that asks the tenant's admission controller. A context of the
  table names the runtime of its tenant by a number; the runtimes are a map from numbers.
\<close>

record sni_group =
  sg_dispatch :: hot_sni
  sg_pending :: "ip list"
  sg_runtimes :: "nat \<Rightarrow> tenant_rt"
  sg_listening :: bool

text \<open>What the sessions of a runtime run with: the peers its tenant accepts and its context.\<close>

record sni_tenant =
  sn_policy :: peer_policy
  sn_ctx :: sni_ctx

datatype session_event =
    Set_Up nat session_env
  | Ended nat select_state timestamp duration
  | New_Limits "tenant_limits option"
  | Turn env env bool

primrec tenant_event_of :: "session_event \<Rightarrow> tenant_event" where
  "tenant_event_of (Set_Up i v) = Setup i v"
| "tenant_event_of (Ended i sel now elapsed) = Finish i sel now elapsed"
| "tenant_event_of (New_Limits l) = Set_Limits l"
| "tenant_event_of (Turn E E' timer) = Audit_Turn E E' timer"

datatype group_event =
    Accepted ip
  | Handshake_Done nat "string + string option" instant
  | Session nat session_event
  | Swap_Table sni_table
  | Shutdown

definition on_runtime :: "nat \<Rightarrow> (tenant_rt \<Rightarrow> tenant_rt) \<Rightarrow> sni_group \<Rightarrow> sni_group" where
  "on_runtime r f g = g\<lparr> sg_runtimes := (sg_runtimes g)(r := f (sg_runtimes g r)) \<rparr>"

text \<open>The part of \<open>handle_sni_session\<close> from the end of the TLS handshake to the permit.\<close>

definition admit_sni :: "ip \<Rightarrow> string + string option \<Rightarrow> instant \<Rightarrow> sni_group \<Rightarrow> sni_group" where
  "admit_sni who tls now g =
     (case dispatch_sni (sg_dispatch g) tls of
        Inl e \<Rightarrow> g
      | Inr ctx \<Rightarrow> on_runtime (ctx_runtime ctx) (accept_connection who now) g)"

definition session_step :: "'a log_crates_scheme \<Rightarrow> 'b hs_crates_scheme \<Rightarrow> keypair \<Rightarrow> sni_tenant \<Rightarrow> tenant_rt \<Rightarrow> tenant_event \<Rightarrow> tenant_rt" where
  "session_step C H identity t = tenant_step C (setup_sni H identity (sn_policy t) (sn_ctx t)) AppToPeer (ctx_name (sn_ctx t))"

fun group_step :: "'a log_crates_scheme \<Rightarrow> 'b hs_crates_scheme \<Rightarrow> keypair \<Rightarrow> (nat \<Rightarrow> sni_tenant) \<Rightarrow> sni_group \<Rightarrow> group_event \<Rightarrow> sni_group" where
  "group_step C H identity T g (Accepted who) =
     (if sg_listening g then g\<lparr> sg_pending := sg_pending g @ [who] \<rparr> else g)"
| "group_step C H identity T g (Handshake_Done i tls now) =
     (if i < length (sg_pending g)
      then admit_sni (sg_pending g ! i) tls now (g\<lparr> sg_pending := remove_nth i (sg_pending g) \<rparr>)
      else g)"
| "group_step C H identity T g (Session r ev) = on_runtime r (\<lambda>s. session_step C H identity (T r) s (tenant_event_of ev)) g"
| "group_step C H identity T g (Swap_Table t) = g\<lparr> sg_dispatch := snd (hot_sni_swap (sg_dispatch g) t) \<rparr>"
| "group_step C H identity T g Shutdown = g\<lparr> sg_listening := False \<rparr>"

definition group_start :: "hot_sni \<Rightarrow> (nat \<Rightarrow> tenant_rt) \<Rightarrow> sni_group" where
  "group_start d rts = \<lparr> sg_dispatch = d, sg_pending = [], sg_runtimes = rts, sg_listening = True \<rparr>"

subsection \<open>A group is its tenants\<close>

text \<open>
  The events that concern one runtime: its sessions' own, and the connections whose server
  name the table of that moment gives to its tenant.
\<close>

definition events_for :: "nat \<Rightarrow> sni_group \<Rightarrow> group_event \<Rightarrow> tenant_event list" where
  "events_for r g ev =
     (case ev of
        Handshake_Done i tls now \<Rightarrow>
          (case dispatch_sni (sg_dispatch g) tls of
             Inr ctx \<Rightarrow> if i < length (sg_pending g) \<and> ctx_runtime ctx = r then [Connection (sg_pending g ! i) now] else []
           | Inl e \<Rightarrow> [])
      | Session r' sev \<Rightarrow> if r' = r then [tenant_event_of sev] else []
      | _ \<Rightarrow> [])"

fun own_events :: "'a log_crates_scheme \<Rightarrow> 'b hs_crates_scheme \<Rightarrow> keypair \<Rightarrow> (nat \<Rightarrow> sni_tenant) \<Rightarrow> nat \<Rightarrow> sni_group \<Rightarrow> group_event list \<Rightarrow> tenant_event list" where
  "own_events C H identity T r g [] = []"
| "own_events C H identity T r g (ev # evs) = events_for r g ev @ own_events C H identity T r (group_step C H identity T g ev) evs"

lemma accept_listening: "rt_listening (accept_connection who now s) = rt_listening s"
  by (auto simp: accept_connection_def split: prod.splits admit.splits)

lemma end_listening [simp]: "rt_listening (end_session i s) = rt_listening s"
  by (simp add: end_session_def)

lemma session_listening: "rt_listening (session_step C H identity t s (tenant_event_of ev)) = rt_listening s"
  by (cases ev) (auto simp: session_step_def Let_def split: prod.splits sum.splits)

lemma group_step_runtime:
  assumes "rt_listening (sg_runtimes g r)"
  shows "sg_runtimes (group_step C H identity T g ev) r =
      foldl (session_step C H identity (T r)) (sg_runtimes g r) (events_for r g ev)"
    and "rt_listening (sg_runtimes (group_step C H identity T g ev) r)"
proof -
  show "sg_runtimes (group_step C H identity T g ev) r =
      foldl (session_step C H identity (T r)) (sg_runtimes g r) (events_for r g ev)"
    using assms by (cases ev) (auto simp: events_for_def admit_sni_def on_runtime_def session_step_def split: sum.splits)
  show "rt_listening (sg_runtimes (group_step C H identity T g ev) r)"
    using assms by (cases ev) (auto simp: admit_sni_def on_runtime_def accept_listening session_listening split: sum.splits)
qed

lemma group_run_runtime:
  "rt_listening (sg_runtimes g r) \<Longrightarrow> sg_runtimes (foldl (group_step C H identity T) g evs) r =
     foldl (session_step C H identity (T r)) (sg_runtimes g r) (own_events C H identity T r g evs)"
proof (induction evs arbitrary: g)
  case (Cons ev evs)
  show ?case
    using Cons.IH [OF group_step_runtime(2) [OF Cons.prems, of C H identity T ev]]
      group_step_runtime(1) [OF Cons.prems, of C H identity T ev] by simp
qed simp

lemma dispatch_sni_Inr [res_simps]:
  "dispatch_sni d tls = Inr ctx \<longleftrightarrow> (\<exists>name. tls = Inr (Some name) \<and> table_lookup (hot_sni_load d) name = Some ctx)"
  by (auto simp: dispatch_sni_def res_simps)

lemma session_not_connection [simp]: "tenant_event_of ev \<noteq> Connection who now"
  by (cases ev) simp_all

lemma own_events_Connection:
  "Connection who now \<in> set (own_events C H identity T r g evs) \<Longrightarrow>
   \<exists>pre i name post. evs = pre @ Handshake_Done i (Inr (Some name)) now # post \<and>
     (\<exists>ctx. table_lookup (hot_sni_load (sg_dispatch (foldl (group_step C H identity T) g pre))) name = Some ctx \<and> ctx_runtime ctx = r)"
proof (induction evs arbitrary: g)
  case (Cons ev evs)
  show ?case
  proof (cases "Connection who now \<in> set (events_for r g ev)")
    case True
    then obtain i name ctx where "ev = Handshake_Done i (Inr (Some name)) now"
      "table_lookup (hot_sni_load (sg_dispatch g)) name = Some ctx" "ctx_runtime ctx = r"
      using session_not_connection [symmetric]
      by (cases ev) (auto simp: events_for_def split: sum.splits if_splits dest!: sym [where s = "Inr x" for x] simp: res_simps)
    then show ?thesis by (intro exI [of _ "[]"]) auto
  next
    case False
    then have "Connection who now \<in> set (own_events C H identity T r (group_step C H identity T g ev) evs)"
      using Cons.prems by simp
    from Cons.IH [OF this] obtain pre i name post where "evs = pre @ Handshake_Done i (Inr (Some name)) now # post"
      "\<exists>ctx. table_lookup (hot_sni_load (sg_dispatch (foldl (group_step C H identity T) (group_step C H identity T g ev) pre))) name = Some ctx \<and>
        ctx_runtime ctx = r" by blast
    then show ?thesis by (intro exI [of _ "ev # pre"]) auto
  qed
qed simp

text \<open>
  C16. In every run of a shared listener, with connections, sessions, limit changes, table swaps
  and the shutdown in any order, the runtime of each tenant is exactly that of a tenant alone
  that saw its own events: no other tenant's traffic touches its counters, permits or audit
  channel. Every connection it was given asked for a name that the table of that moment gives
  to it, and its counters and permits follow its sessions.
\<close>

theorem sni_group_is_its_tenants:
  assumes "g = group_start d (\<lambda>r. tenant_start (build_admission (limits r)) (chan r))"
    and "own = own_events C H identity T r g evs"
    and "s = sg_runtimes (foldl (group_step C H identity T) g evs) r"
  shows "s = foldl (session_step C H identity (T r)) (tenant_start (build_admission (limits r)) (chan r)) own \<and>
    gauge_inv s \<and> quota_ok (foldl caps_step [limit_of (limits r)] own) s \<and>
    (\<forall>who now. Connection who now \<in> set own \<longrightarrow>
       (\<exists>pre i name post ctx. evs = pre @ Handshake_Done i (Inr (Some name)) now # post \<and>
          table_lookup (hot_sni_load (sg_dispatch (foldl (group_step C H identity T) g pre))) name = Some ctx \<and> ctx_runtime ctx = r))"
proof (intro conjI)
  have l: "rt_listening (sg_runtimes g r)" and g: "sg_runtimes g r = tenant_start (build_admission (limits r)) (chan r)"
    using assms(1) by (simp_all add: group_start_def tenant_start_def)
  show s: "s = foldl (session_step C H identity (T r)) (tenant_start (build_admission (limits r)) (chan r)) own"
    using group_run_runtime [OF l] g assms(2,3) by simp
  have "gauge_inv (tenant_start (build_admission (limits r)) (chan r))"
    by (simp add: gauge_inv_def tenant_start_def Metrics_default_def opened_def)
  then show "gauge_inv s" unfolding s session_step_def by (rule serve_sni.gauge.run_inv)
  show "quota_ok (foldl caps_step [limit_of (limits r)] own) s"
    unfolding s session_step_def by (intro quota_ok_run quota_ok_start)
  show "\<forall>who now. Connection who now \<in> set own \<longrightarrow>
       (\<exists>pre i name post ctx. evs = pre @ Handshake_Done i (Inr (Some name)) now # post \<and>
          table_lookup (hot_sni_load (sg_dispatch (foldl (group_step C H identity T) g pre))) name = Some ctx \<and> ctx_runtime ctx = r)"
    using own_events_Connection assms(2) by blast
qed

definition shared_listener :: "serve_tcp_tenant \<Rightarrow> (nat \<Rightarrow> channel) \<Rightarrow> sni_group" where
  "shared_listener t chan = group_start (hot_sni_new \<lparr> by_sni = [(''a.x'', \<lparr> ctx_tenant = t, ctx_runtime = 0 \<rparr>)], wildcards = [] \<rparr>)
     (\<lambda>r. tenant_start (build_admission one_session) (chan r))"

theorem sni_group_is_its_tenants_witness:
  "\<forall>t T chan.
     sg_runtimes (foldl (group_step toy_log toy_hs (toy_identity 0) T) (shared_listener t chan)
        [Accepted ''10.0.0.1'', Handshake_Done 0 (Inr (Some ''a.x'')) 5]) 1 = tenant_start (build_admission one_session) (chan 1) \<and>
     sg_runtimes (foldl (group_step toy_log toy_hs (toy_identity 0) T) (shared_listener t chan)
        [Accepted ''10.0.0.1'', Handshake_Done 0 (Inr (Some ''a.x'')) 5]) 0 =
       accept_connection ''10.0.0.1'' 5 (tenant_start (build_admission one_session) (chan 0))"
proof (intro allI)
  fix t T chan
  let ?g = "shared_listener t chan" and ?evs = "[Accepted ''10.0.0.1'', Handshake_Done 0 (Inr (Some ''a.x'')) 5]"
  have own: "own_events toy_log toy_hs (toy_identity 0) T 1 ?g ?evs = []"
    "own_events toy_log toy_hs (toy_identity 0) T 0 ?g ?evs = [Connection ''10.0.0.1'' 5]"
    by (simp_all add: shared_listener_def group_start_def events_for_def dispatch_sni_def hot_sni_load_def hot_sni_new_def table_lookup_def)
  have "rt_listening (tenant_start h c)" for h c by (simp add: tenant_start_def)
  then show "sg_runtimes (foldl (group_step toy_log toy_hs (toy_identity 0) T) ?g ?evs) 1 = tenant_start (build_admission one_session) (chan 1) \<and>
     sg_runtimes (foldl (group_step toy_log toy_hs (toy_identity 0) T) ?g ?evs) 0 =
       accept_connection ''10.0.0.1'' 5 (tenant_start (build_admission one_session) (chan 0))"
    using sni_group_is_its_tenants [OF shared_listener_def own(1) [symmetric] refl] sni_group_is_its_tenants [OF shared_listener_def own(2) [symmetric] refl]
    by (simp add: session_step_def)
qed

end
