(* ===== verification/Durability.thy ===== *)
theory Durability
  imports Cli_Theorems
begin

text \<open>
  What is on disk while an audit channel runs. At every moment the published archives and the
  file at the log's path form a chain that \<open>qaudit verify-chain\<close> accepts, whatever system calls
  failed; the one case in which the published archives are not the counted ones is a rotation
  whose last directory sync failed, which leaves one archive more.
\<close>

definition disk_ok :: "'a log_crates_scheme \<Rightarrow> filesystem \<Rightarrow> string \<Rightarrow> string list \<Rightarrow> bool" where
  "disk_ok C fs path as \<longleftrightarrow>
     (\<exists>extra ls d. length extra \<le> 1 \<and> path \<notin> set extra \<and> map (open_log C fs) (as @ extra) = map Inr ls \<and>
        open_log C fs path = Inr d \<and> verify_chain C (ls @ [d]) = Inr ())"

lemma open_log_present: "open_log C fs q = Inr l \<Longrightarrow> fs q \<noteq> None"
  by (auto simp: open_log_def split: option.splits)

lemma disk_frame:
  assumes "disk_ok C fs path as" "\<And>q. fs q \<noteq> None \<Longrightarrow> fs' q = fs q"
  shows "disk_ok C fs' path as"
proof -
  obtain extra ls d where e: "length extra \<le> 1" "path \<notin> set extra" "map (open_log C fs) (as @ extra) = map Inr ls"
    "open_log C fs path = Inr d" "verify_chain C (ls @ [d]) = Inr ()"
    using assms(1) by (auto simp: disk_ok_def)
  have "map (open_log C fs') (as @ extra) = map Inr ls"
    unfolding e(3) [symmetric] by (rule open_log_frame) (metis assms(2) opened_present [OF e(3)])
  moreover have "open_log C fs' path = Inr d"
    using e(4) assms(2) [OF open_log_present [OF e(4)]] by (simp add: open_log_def)
  ultimately show ?thesis using e unfolding disk_ok_def by blast
qed

lemma disk_written:
  assumes c: "cbor_log_ok C" and ok: "live_ok C l" and s: "map (open_log C fs) (as @ extra) = map Inr sealed"
    and ch: "verify_chain C (sealed @ [l]) = Inr ()" and p: "path \<notin> set (as @ extra)" "length extra \<le> 1"
    and sv: "save_to C l = Inr b" "fs' path = Some n" "is_file n" "contents n = b" and fr: "\<And>q. q \<noteq> path \<Longrightarrow> fs' q = fs q"
  shows "disk_ok C fs' path as"
proof -
  have "map (open_log C fs') (as @ extra) = map Inr sealed"
    unfolding s [symmetric] by (rule open_log_frame) (use fr p in metis)
  moreover have "verify_chain C (sealed @ [l\<lparr> al_signer := None \<rparr>]) = Inr ()" using ch chain_last_signer by blast
  ultimately show ?thesis
    using written_reads [of C l b fs' path n] c ok sv p unfolding disk_ok_def by auto
qed

lemma disk_flush:
  assumes b: "blake3_ok C" and c: "cbor_log_ok C" and core: "chan_core C tot hist as ch" and room: "room ch < 2 ^ 64"
    and d: "disk_ok C (ch_fs ch) (ch_path ch) as"
  shows "disk_ok C (ch_fs (flush C E ch)) (ch_path ch) as"
proof -
  obtain r l where a: "append_all C (env_entropy E) (env_clock E) (ch_log ch) (ch_pending ch) = (r, l)" by (meson surj_pair)
  obtain rs fs' where sv: "save C (env_save E) (ch_fs ch) (ch_path ch) l = (rs, fs')" by (meson surj_pair)
  have l: "ch_log (flush C E ch) = l" by (simp add: flush_log a)
  obtain sealed where s: "map (open_log C (ch_fs (flush C E ch))) as = map Inr sealed" "verify_chain C (sealed @ [l]) = Inr ()"
    "live_ok C l" "ch_path ch \<notin> set as"
    using chan_core_flush [OF b core room, of E] l by (auto simp: chan_core_def flush_frame)
  have fr: "fs' q = ch_fs ch q" if "q \<noteq> ch_path ch" for q using save_frame [OF sv that] .
  have old: "map (open_log C (ch_fs ch)) as = map Inr sealed"
    unfolding s(1) [symmetric] by (rule open_log_frame) (metis flush_frame(11) s(4))
  have "disk_ok C fs' (ch_path ch) as"
    using save_result [OF sv] disk_written [OF c s(3), of "ch_fs ch" as "[]" sealed "ch_path ch"] old s(2,4) fr d by auto
  then show ?thesis using d a sv by (auto simp: flush_def split: sum.splits prod.splits)
qed

text \<open>
  Once the archive is published, saving the new log leaves the files a chain, whether the new
  archive is counted or not, and also when the save fails after it has replaced the file.
\<close>

lemma disk_saved:
  assumes c: "cbor_log_ok C" and new: "live_ok C new" and chain: "verify_chain C ((sealed @ [old]) @ [new]) = Inr ()"
    and arch: "map (open_log C fs1) (as @ [a]) = map Inr (sealed @ [old])" and path: "path \<notin> set (as @ [a])"
    and sv: "save C io fs1 path new = (r, fs2)" and d: "disk_ok C fs1 path as"
  shows "disk_ok C fs2 path (if is_ok r then as @ [a] else as)"
proof -
  have fr: "fs2 q = fs1 q" if "q \<noteq> path" for q by (rule save_frame [OF sv that])
  have "disk_ok C fs2 path (as @ [a]) \<and> disk_ok C fs2 path as"
    if "save_to C new = Inr b" "fs2 path = Some n" "is_file n" "contents n = b" for b n
    using disk_written [OF c new, of fs1 "as @ [a]" "[]" "sealed @ [old]" path b fs2 n]
      disk_written [OF c new, of fs1 as "[a]" "sealed @ [old]" path b fs2 n]
      arch chain path that fr by (simp del: map_eq_conv)
  then show ?thesis using save_result [OF sv] d by (cases r) (auto split: if_splits)
qed

lemma disk_rotation:
  assumes b: "blake3_ok C" and c: "cbor_log_ok C" and core: "chan_core C tot hist as ch"
    and room: "room ch + 1 < 2 ^ 64" and rnd: "length (env_rnd E) = 16" and path: "archive_path req \<noteq> ch_path ch"
    and pr: "perform_rotation C E ch req = (r, ch')" and d: "disk_ok C (ch_fs ch) (ch_path ch) as"
  shows "disk_ok C (ch_fs ch') (ch_path ch) (if is_ok r then as @ [archive_path req] else as)"
proof (cases "prepare_rotation C E (ch_log ch) (ch_fs ch) req (ch_factory ch)")
  case (Inl err)
  then show ?thesis using pr d by (auto simp: perform_rotation_def)
next
  case (Inr on)
  obtain old new where on: "prepare_rotation C E (ch_log ch) (ch_fs ch) req (ch_factory ch) = Inr (old, new)"
    using Inr by (cases on) simp
  obtain r1 fs1 where pub: "publish_archive C (env_archive E) (ch_fs ch) (archive_path req) old = (r1, fs1)" by (meson surj_pair)
  obtain r2 fs2 where sv: "save C (env_save E) fs1 (ch_path ch) new = (r2, fs2)" by (meson surj_pair)
  obtain sealed where s: "map (open_log C (ch_fs ch)) as = map Inr sealed" "verify_chain C (sealed @ [ch_log ch]) = Inr ()"
    and rest: "live_ok C (ch_log ch)" "ch_path ch \<notin> set as" "factory_ok C ch"
    using core by (auto simp: chan_core_def)
  obtain absent: "ch_fs ch (archive_path req) = None" and old: "live_ok C old" "al_signer old = None" and new: "live_ok C new"
    and chain: "verify_chain C ((sealed @ [old]) @ [new]) = Inr ()"
    by (rule prepared_core [OF b c rest(1,3) s(2) room rnd on])
  have fr: "fs1 q = ch_fs ch q" if "ch_fs ch q \<noteq> None" for q using publish_archive_frame [OF pub, of q] that absent by metis
  have d1: "disk_ok C fs1 (ch_path ch) as" by (rule disk_frame [OF d fr])
  show ?thesis
  proof (cases r1)
    case (Inl e)
    then show ?thesis using pr on pub d1 by (auto simp: perform_rotation_def)
  next
    case (Inr u)
    have "open_log C fs1 (archive_path req) = Inr old" using published_reads [OF c old] pub Inr by simp
    moreover have "map (open_log C fs1) as = map Inr sealed"
      unfolding s(1) [symmetric] by (rule open_log_frame) (metis fr opened_present [OF s(1)])
    ultimately have "map (open_log C fs1) (as @ [archive_path req]) = map Inr (sealed @ [old])" by (simp del: map_eq_conv)
    from disk_saved [OF c new chain this _ sv d1] rest(2) path
    show ?thesis using pr on pub sv Inr by (cases r2) (auto simp: perform_rotation_def)
  qed
qed


subsection \<open>Turns and runs\<close>

lemma disk_serve_rotation:
  assumes b: "blake3_ok C" and c: "cbor_log_ok C" and core: "chan_core C tot hist as ch"
    and room: "room ch + 1 < 2 ^ 64" and rnd: "length (env_rnd E') = 16" and rot: "ch_rot ch = Some req"
    and path: "archive_path req \<noteq> ch_path ch" and d: "disk_ok C (ch_fs ch) (ch_path ch) as"
    and ch': "ch' = serve_rotation C E E' req ch"
  shows "disk_ok C (ch_fs ch') (ch_path ch') (as @ archived ch ch')"
proof -
  let ?ch0 = "ch\<lparr> ch_rot := None, ch_pending := ch_pending ch @ ch_queue ch, ch_queue := [] \<rparr>"
  have c0: "chan_core C tot hist as ?ch0" by (rule chan_core_cong [OF core]) simp_all
  have r0: "room ?ch0 = room ch" by (simp add: room_def)
  let ?ch1 = "flush C E ?ch0"
  have c1: "chan_core C tot hist as ?ch1" by (rule chan_core_flush [OF b c0]) (use r0 room in simp)
  have r1: "room ?ch1 + 1 < 2 ^ 64" using room_flush [of C E ?ch0] r0 room by simp
  have d1: "disk_ok C (ch_fs ?ch1) (ch_path ?ch1) as"
    using disk_flush [OF b c c0, of E] r0 room d by (simp add: flush_frame)
  obtain r ch2 where p: "perform_rotation C E' ?ch1 req = (r, ch2)" by (meson surj_pair)
  have p1: "archive_path req \<noteq> ch_path ?ch1" by (simp add: flush_frame path)
  note f2 = perform_rotation_frame [OF p]
  have same: "ch_fs ch' = ch_fs ch2" "ch_path ch' = ch_path ch2" "ch_audit_rotations ch' = ch_audit_rotations ch2"
    unfolding ch' serve_rotation_def using p by (simp_all add: Let_def)
  have "archived ch ch' = (if is_ok r then [archive_path req] else [])"
    using rot same(3) f2(1) by (simp add: archived_def flush_frame)
  then show ?thesis using disk_rotation [OF b c c1 r1 rnd p1 p d1] same f2(3) by (simp add: flush_frame split: if_splits)
qed

lemma disk_after_select:
  assumes "blake3_ok C" "cbor_log_ok C" "chan_core C tot hist as ch" "room ch < 2 ^ 64" "disk_ok C (ch_fs ch) (ch_path ch) as"
  shows "disk_ok C (ch_fs (after_select C E ch)) (ch_path ch) as"
proof -
  have f: "chan_core C tot hist as (fill_batch ch)"
    by (rule chan_core_cong [OF assms(3)]) (simp_all add: fill_batch_def Let_def)
  have "room (fill_batch ch) = room ch" by (auto simp: room_def fill_batch_def Let_def)
  moreover have "ch_fs (fill_batch ch) = ch_fs ch" "ch_path (fill_batch ch) = ch_path ch" by (simp_all add: fill_batch_def Let_def)
  ultimately show ?thesis
    using disk_flush [OF assms(1,2) f, of E] assms(4,5) by (simp add: after_select_def store_count_def Let_def)
qed

lemma disk_idle_turn:
  assumes b: "blake3_ok C" and c: "cbor_log_ok C" and core: "chan_core C tot hist as ch" and room: "room ch + 1 < 2 ^ 64"
    and idle: "ch_rot ch = None" "\<not> ch_done ch" "ch_rot_senders ch \<noteq> 0" and d: "disk_ok C (ch_fs ch) (ch_path ch) as"
  shows "disk_ok C (ch_fs (task_turn C E E' timer ch)) (ch_path (task_turn C E E' timer ch)) as"
proof (cases "ch_queue ch")
  case (Cons ev q)
  let ?c = "ch\<lparr> ch_queue := q, ch_pending := ch_pending ch @ [ev] \<rparr>"
  have "chan_core C tot hist as ?c" by (rule chan_core_cong [OF core]) (simp_all add: Cons)
  moreover have "room ?c < 2 ^ 64" using room Cons by (simp add: room_def)
  ultimately show ?thesis
    using disk_after_select [OF b c, of tot hist as ?c E] after_select_core(3) [OF b, of tot hist as ?c E] d idle Cons
    by (simp add: task_turn_def)
next
  case Nil
  let ?f = "store_count (flush C E ch)"
  have fl: "chan_core C tot hist as ?f"
    by (rule store_count_core [OF chan_core_flush [OF b core]]) (use room in simp)
  have rf: "room ?f < 2 ^ 64" using room_flush [of C E ch] room by (simp add: room_def store_count_def)
  have df: "disk_ok C (ch_fs ?f) (ch_path ?f) as"
    using disk_flush [OF b c core, of E] room d by (simp add: store_count_def flush_frame)
  show ?thesis
    using disk_after_select [OF b c fl rf df, of E'] after_select_core(3) [OF b fl rf, of E'] df d idle Nil
    by (simp add: task_turn_def)
qed

lemma disk_turn:
  assumes b: "blake3_ok C" and c: "cbor_log_ok C" and core: "chan_core C tot hist as ch" and rp: "rot_path_ok ch"
    and room: "room ch + 1 < 2 ^ 64" and rnd: "length (env_rnd E') = 16" and ch': "ch' = task_turn C E E' timer ch"
    and d: "disk_ok C (ch_fs ch) (ch_path ch) as"
  shows "disk_ok C (ch_fs ch') (ch_path ch') (as @ archived ch ch')"
proof (cases "ch_done ch \<or> ch_rot ch = None \<and> ch_rot_senders ch = 0")
  case True
  then have "ch' = ch" using ch' by (auto simp: task_turn_def)
  then show ?thesis using d by (simp add: archived_def split: option.splits)
next
  case False
  show ?thesis
  proof (cases "ch_rot ch")
    case (Some req)
    have e: "ch' = serve_rotation C E E' req ch" using ch' False Some by (simp add: task_turn_def)
    have p: "archive_path req \<noteq> ch_path ch" using rp Some by (simp add: rot_path_ok_def)
    show ?thesis by (rule disk_serve_rotation [OF b c core room rnd Some p d e])
  next
    case None
    then show ?thesis using disk_idle_turn [OF b c core room None _ _ d, of E E' timer] False ch' by (simp add: archived_def)
  qed
qed

definition disk_inv :: "'a log_crates_scheme \<Rightarrow> audit_event list \<Rightarrow> chan_state \<Rightarrow> bool" where
  "disk_inv C base st \<longleftrightarrow> chan_inv C False base st \<and> (case st of (as, acc, ch) \<Rightarrow> disk_ok C (ch_fs ch) (ch_path ch) as)"

lemma disk_step:
  assumes "blake3_ok C" "cbor_log_ok C" "chan_step C st st'" "disk_inv C base st"
  shows "disk_inv C base st'"
proof -
  have "chan_inv C False base st'" using chan_step_inv [OF assms(1-3)] assms(4) by (simp add: disk_inv_def)
  moreover have "case st' of (as, acc, ch) \<Rightarrow> disk_ok C (ch_fs ch) (ch_path ch) as"
    using assms(3,4)
  proof cases
    case (step_turn E' ch ch' E timer as acc)
    then show ?thesis
      using assms(4) disk_turn [OF assms(1,2) _ _ step_turn(4,3,5), of False "base @ acc" as] by (simp add: disk_inv_def chan_inv_def)
  qed (use assms(4) in \<open>auto simp: disk_inv_def emit_def request_rotation_silent_def rotate_send_def
      get_handle_def drop_handle_def shutdown_begin_def split: if_splits\<close>)
  ultimately show ?thesis by (simp add: disk_inv_def)
qed

lemma disk_run:
  assumes "blake3_ok C" "cbor_log_ok C" "(chan_step C)\<^sup>*\<^sup>* st st'" "disk_inv C base st"
  shows "disk_inv C base st'"
  using assms(3,4) by (induction rule: rtranclp_induct) (auto intro: disk_step [OF assms(1,2)])

subsection \<open>The property\<close>



end
