(* ===== verification/Monitor.thy ===== *)
theory Monitor
  imports Audit_Channel
begin

text \<open>
  The task that rotates a log by itself (\<open>RotationMonitor\<close> of \<open>qgateway-core/src/audit.rs\<close>) beside its
  channel: construction, \<open>spawn\<close>, and the loop that waits for the shutdown notice or the timer. The
  state \<open>mon\<close> says whether the task runs and holds the counter it shares with the signal handler;
  the rotation handle and the log path are those of the channel it is given.
  The last lemmas show that a channel with a monitor is a channel: whatever the two do in turn
  is a run of \<open>chan_step\<close>, so what is shown of channels holds with monitors.
\<close>

record rotation_monitor =
  rm_tenant_name :: string
  rm_policy :: rotation_policy
  rm_poll_interval :: nat

definition RotationMonitor_new :: "string \<Rightarrow> rotation_policy \<Rightarrow> rotation_monitor" where
  "RotationMonitor_new tenant_name policy =
     \<lparr> rm_tenant_name = tenant_name, rm_policy = policy, rm_poll_interval = 5000 \<rparr>"

definition with_poll_interval :: "rotation_monitor \<Rightarrow> nat \<Rightarrow> rotation_monitor" where
  "with_poll_interval m interval = m\<lparr> rm_poll_interval := interval \<rparr>"

record mon =
  mon_running :: bool
  mon_counter :: u64

text \<open>The task returns at once when the policy has no trigger.\<close>

definition monitor_spawn :: "rotation_monitor \<Rightarrow> u64 \<Rightarrow> mon" where
  "monitor_spawn m counter = \<lparr> mon_running = has_auto_trigger (rm_policy m), mon_counter = counter \<rparr>"

datatype monitor_event = Shutdown_Notified | Timer timestamp int

fun monitor_turn :: "(timestamp \<Rightarrow> string) \<Rightarrow> rotation_monitor \<Rightarrow> monitor_event \<Rightarrow> mon \<times> channel \<Rightarrow> mon \<times> channel" where
  "monitor_turn fmt_ts m Shutdown_Notified (s, ch) = (s\<lparr> mon_running := False \<rparr>, ch)"
| "monitor_turn fmt_ts m (Timer now unix) (s, ch) =
     (if mon_running s then
        (case monitor_tick fmt_ts (rm_tenant_name m) (rm_policy m) now unix (mon_counter s) ch of
           (n, ch') \<Rightarrow> (s\<lparr> mon_counter := n \<rparr>, ch'))
      else (s, ch))"

subsection \<open>What a turn does\<close>

lemma monitor_quiet:
  "\<not> mon_running s \<Longrightarrow> snd (monitor_turn fmt_ts m ev (s, ch)) = ch \<and> \<not> mon_running (fst (monitor_turn fmt_ts m ev (s, ch)))"
  by (cases ev) simp_all

text \<open>Once shut down, the monitor asks for nothing more, whatever the timer does.\<close>

lemma shut_down_monitor_is_quiet:
  "\<not> mon_running s \<Longrightarrow> snd (foldl (\<lambda>st ev. monitor_turn fmt_ts m ev st) (s, ch) evs) = ch"
proof (induction evs arbitrary: s ch)
  case (Cons ev evs)
  then show ?case using monitor_quiet [OF Cons.prems, of fmt_ts m ev ch] by (cases "monitor_turn fmt_ts m ev (s, ch)") simp
qed simp

text \<open>
  At a tick with a segment at its limit of entries an open channel has a rotation request
  afterwards; below all limits nothing is asked for and no number is used up.
\<close>

lemma full_segment_is_rotated:
  assumes "mon_running s" "max_entries (rm_policy m) = Some k" "k \<le> entries_in_current_segment ch" "\<not> ch_done ch"
  shows "ch_rot (snd (monitor_turn fmt_ts m (Timer now unix) (s, ch))) \<noteq> None"
proof -
  have "has_auto_trigger (rm_policy m)" using assms(2) by (simp add: has_auto_trigger_def)
  moreover have "check_thresholds (rm_policy m) ch unix = Some ''max_entries reached''"
    using assms(2,3) by (simp add: check_thresholds_def)
  ultimately show ?thesis using assms(1,4) by (simp add: monitor_tick_def request_rotation_silent_def Let_def)
qed

lemma small_segment_is_left:
  "check_thresholds (rm_policy m) ch unix = None \<Longrightarrow> monitor_turn fmt_ts m (Timer now unix) (s, ch) = (s, ch)"
  by (simp add: monitor_tick_def)

subsection \<open>A channel with its monitor\<close>

text \<open>
  The archive names of the policy never name the live log. With this the monitor is one more
  source of requests.
\<close>

definition archives_elsewhere :: "(timestamp \<Rightarrow> string) \<Rightarrow> rotation_monitor \<Rightarrow> string \<Rightarrow> bool" where
  "archives_elsewhere fmt_ts m path \<longleftrightarrow>
     (\<forall>n now. sibling_path path (render_archive_name fmt_ts (rm_policy m) (rm_tenant_name m) n now) \<noteq> path)"

inductive monitored :: "'a log_crates_scheme \<Rightarrow> (timestamp \<Rightarrow> string) \<Rightarrow> rotation_monitor \<Rightarrow> mon \<times> chan_state \<Rightarrow> mon \<times> chan_state \<Rightarrow> bool"
  for C fmt_ts m where
  by_channel: "chan_step C st st' \<Longrightarrow> monitored C fmt_ts m (s, st) (s, st')"
| by_monitor: "monitor_turn fmt_ts m ev (s, ch) = (s', ch') \<Longrightarrow> monitored C fmt_ts m (s, as, acc, ch) (s', as, acc, ch')"

inductive_cases monitoredE: "monitored C fmt_ts m (s, st) (s', st')"

lemma monitor_turn_request:
  assumes "monitor_turn fmt_ts m ev (s, ch) = (s', ch')" "archives_elsewhere fmt_ts m (ch_path ch)"
  shows "ch' = ch \<or> (\<exists>path lbl. path \<noteq> ch_path ch \<and> ch' = request_rotation_silent ch path lbl)"
  using assms
  by (cases ev) (auto simp: monitor_tick_def Let_def archives_elsewhere_def split: if_splits option.splits)

lemma monitored_step_is_channel_step:
  assumes "monitored C fmt_ts m (s, st) (s', st')" "archives_elsewhere fmt_ts m (ch_path (snd (snd st)))"
  shows "st' = st \<or> chan_step C st st'"
  using assms by (cases rule: monitoredE) (auto dest!: monitor_turn_request intro: chan_step.step_request)

lemma task_turn_path: "ch_path (task_turn C E E' timer ch) = ch_path ch"
  by (auto simp: task_turn_def serve_rotation_def after_select_def fill_batch_def store_count_def flush_frame Let_def
      split: option.splits list.splits prod.splits if_splits dest!: perform_rotation_frame(3))

lemma chan_step_path: "chan_step C st st' \<Longrightarrow> ch_path (snd (snd st')) = ch_path (snd (snd st))"
  by (induction rule: chan_step.induct)
     (auto simp: emit_def request_rotation_silent_def rotate_send_def get_handle_def drop_handle_def shutdown_begin_def task_turn_path
        split: if_splits)

lemma monitored_run_is_channel_run:
  assumes "(monitored C fmt_ts m)\<^sup>*\<^sup>* (s, st) (s', st')" "archives_elsewhere fmt_ts m (ch_path (snd (snd st)))"
  shows "(chan_step C)\<^sup>*\<^sup>* st st'"
proof -
  have "(chan_step C)\<^sup>*\<^sup>* st (snd p) \<and> ch_path (snd (snd (snd p))) = ch_path (snd (snd st))"
    if "(monitored C fmt_ts m)\<^sup>*\<^sup>* (s, st) p" for p
    using that
  proof (induction rule: rtranclp_induct)
    case (step y z)
    have "snd z = snd y \<or> chan_step C (snd y) (snd z)"
      using monitored_step_is_channel_step [of C fmt_ts m "fst y" "snd y" "fst z" "snd z"] step assms(2) by simp
    then show ?case using step.IH chan_step_path by (metis rtranclp.rtrancl_into_rtrancl)
  qed simp
  from this [OF assms(1)] show ?thesis by simp
qed

end
