(* ===== verification/Spec2Isabelle.thy ===== *)
theory Spec2Isabelle
  imports Audit_Theorems Transport_Theorems Gateway_Theorems Channel_Theorems Session_Theorems Startup_Theorems
    Daemon_Theorems Cli_Theorems Cli_Main Portal_Theorems Log_Types Sni_Group Durability Monitor
begin

text \<open>
  A verification library for Cofre Soberano PQ: a tamper-evident audit log signed with
  ML-DSA-87 (\<open>qaudit-core\<close>, \<open>qaudit-hsm\<close>), an authenticated post-quantum transport
  (\<open>qtransport-cspq\<close>) and a multi-tenant gateway that tunnels connections through the
  transport and records what it does in one audit log per tenant (\<open>qgateway-core\<close>, \<open>qgateway\<close>).

  \<^bold>\<open>How the parts interact.\<close> A gateway loads its configuration, resolves it into tenants and
  listener groups, and builds for each group a TLS acceptor and a table from server names to
  tenants. A connection passes admission, is dispatched to a tenant and is carried over a
  CSPQ session: a handshake gives directional keys, the record layer seals one frame per
  record, and the poll machines drive it under an asynchronous runtime. Events go through
  the tenant's audit channel into its log; rotation seals a log and links its successor. The
  daemon starts the tenants, and its signal handlers add, change and remove them while the
  others serve.

  \<^bold>\<open>Theories and sources\<close> (paths under \<open>src/crates/\<close>).

  \<^item> \<open>Prelude\<close>: results as sums with \<open>and_then\<close> for the \<open>?\<close> operator, loops that leave at the
    first error, big-endian integers, \<open>BTreeMap\<close> as a sorted association list, strings; the
    locales \<open>stream_codec\<close> (self-delimiting encodings), \<open>char_escape\<close> (interpreted on the JSON, metric
    label, HTML and terminal escapes) and \<open>step_invariant\<close>.
  \<^item> \<open>Crates\<close>: what is called but not under \<open>src/\<close> (BLAKE3, hex, ML-DSA) as fields of the record
    \<open>crates\<close>, with the hypotheses \<open>blake3_ok\<close>, \<open>hex_ok\<close>, \<open>mldsa_ok\<close> and one concrete instance.
    Components extend the record: CBOR (\<open>Event\<close>, \<open>Auditlog\<close>), AEAD (\<open>Record_Layer\<close>), KEM and
    HKDF (\<open>Handshake\<close>).
  \<^item> \<open>Signing\<close>: \<open>qaudit-core/src/error.rs\<close>, \<open>signing.rs\<close>, \<open>qaudit-hsm/src/soft.rs\<close>; the locale
    \<open>signer_backend\<close> is what a log needs of a signer. \<open>Hsm\<close>: \<open>qaudit-hsm/src/pkcs11.rs\<close> over a
    driver record.
  \<^item> \<open>Event\<close>, \<open>Merkle\<close>, \<open>Auditlog\<close>, \<open>Rotation\<close>: \<open>qaudit-core/src/event.rs\<close>, \<open>merkle.rs\<close>, \<open>log.rs\<close>.
    \<open>mth\<close> is the RFC 6962 tree hash; \<open>entries_spec\<close> and \<open>link_spec\<close> say what a verified log and a
    verified chain are; the locale \<open>accumulator\<close> relates an incremental digest to its reference.
  \<^item> \<open>Framing\<close>, \<open>Record_Layer\<close>, \<open>Handshake\<close>, \<open>Poll_Machines\<close>: \<open>qtransport-cspq/src/framing.rs\<close>,
    \<open>transport.rs\<close>, \<open>handshake.rs\<close>. A socket is a byte list, or for the poll machines a script of
    the results of inner polls, so that every chunking and every delay is a script. \<open>Async_Stream\<close>:
    the traits of the stream and its halves, related by the locale \<open>call_simulation\<close>.
  \<^item> \<open>Admission\<close>, \<open>Config\<close>, \<open>Sni\<close>: \<open>qgateway-core/src/admission.rs\<close>, \<open>config.rs\<close>, the dispatch table
    of \<open>gateway.rs\<close>, and \<open>tls.rs\<close>. \<open>config_ok\<close> specifies validation, \<open>sni_route\<close> specifies routing;
    the locale \<open>sni_router\<close> is the contract of both tables.
  \<^item> \<open>Audit_Channel\<close>, \<open>Keyfiles\<close>: \<open>qgateway-core/src/audit.rs\<close>, \<open>auditkey.rs\<close>. The channel is a step
    relation \<open>chan_step\<close> in which producers and the task take turns. \<open>Monitor\<close>: the task that asks for
    rotations by itself; a channel with a monitor is a run of \<open>chan_step\<close>.
  \<^item> \<open>Export\<close>, \<open>Metrics\<close>: \<open>qaudit-core/src/export.rs\<close>, \<open>qgateway-core/src/metrics.rs\<close>; the specifications
    are an XML tree, a reader of JSON lines and a reader of metric samples.
  \<^item> \<open>Proxy\<close>, \<open>Sessions\<close>: \<open>qgateway-core/src/proxy.rs\<close>, the accept loops of \<open>gateway.rs\<close>. The local side of
    a session is a script of read results, the select loop a step relation over the outcomes of
    its two tasks, and a tenant at run time a state machine over events in any order; the locale
    \<open>session_handler\<close> is what the loops share of the three ways to set a session up. \<open>Sni_Group\<close>: a
    listener that several tenants share, over the runtimes of its tenants.
  \<^item> \<open>Durability\<close>: what the files hold while a channel runs, against the command line tool.
  \<^item> \<open>Log_Types\<close>: the inductive set of logs the operations of \<open>log.rs\<close> produce, and their types.
  \<^item> \<open>Startup\<close>, \<open>Daemon\<close>: \<open>qgateway/src/main.rs\<close>. The host is a record; the daemon is the record of the
    maps its handlers share, and every signal is one step on it.
  \<^item> \<open>Auditcli\<close>: \<open>qaudit/src/main.rs\<close>. A command takes its arguments and the files and gives its result
    and the files after it; how every system call fares is data. \<open>Cli_Main\<close>: \<open>main\<close>, the output and the
    exit of the tool, and sequences of commands on the same files.
  \<^item> \<open>Portal\<close>: \<open>qaudit-portal/src/main.rs\<close>. The state is the snapshot taken at start; a route is a
    function of it. The specifications are a reader of markup and the walk along the page links.
  \<^item> \<open>Instances\<close>: concrete parameters and a concrete log. \<open>Audit_Theorems\<close>, \<open>Transport_Theorems\<close>,
    \<open>Gateway_Theorems\<close>, \<open>Channel_Theorems\<close>, \<open>Session_Theorems\<close>, \<open>Startup_Theorems\<close>, \<open>Daemon_Theorems\<close>,
    \<open>Cli_Theorems\<close>, \<open>Portal_Theorems\<close> and the ends of \<open>Export\<close>, \<open>Log_Types\<close>, \<open>Sni_Group\<close>, \<open>Cli_Main\<close> and
    \<open>Durability\<close>: the properties, each with an instance where it has
    hypotheses.

  \<^bold>\<open>What the lemmas show.\<close> Audit core: the incremental tree computes the reference hash and
  binds its leaves; append keeps a log verified and is a no-op on error; verification
  accepts exactly the specified logs; saving is atomic and reads back; rotation extends a
  verified chain, and a chain fixes every event of a predecessor. Transport: an honest
  handshake completes with mirrored keys; both sides finish only with an allowed peer that
  signed this exchange; nonces never repeat; records arrive unchanged and in order for every
  chunking and whatever is written in between; a stream can be split at any moment; the end of
  the stream is authenticated. Gateway: rate and session limits hold
  over all runs; validation matches its specification for every hash map order; the
  certificate shown is that of the tenant dispatched to; failed changes keep what is
  installed. Audit channel: in every interleaving the archives on disk and the live log form
  a verified chain and, when nothing fails, hold exactly the accepted events in order; a
  closed channel drains; at every moment, whatever failed, the files on disk are a chain that
  the command line tool accepts. Sessions: the bytes read on one side of a tunnel are the bytes
  written on the other, a cut tunnel is an error, a session ends when a direction fails, and
  the counters and permits of a tenant follow its sessions in every order of events; tenants
  on a shared listener do not affect each other. Daemon:
  a configuration that passes the dry run starts; a tenant gets only a verified log of its
  own key; whatever signals arrive the shared maps agree; a reload concerns only the tenants
  and limits that changed. Two lemmas state what the code does where it means to do
  otherwise: limits that are restored are not applied, and the channels of tenants added at
  run time are not closed at exit. Command line: what \<open>init\<close> creates verifies, \<open>append\<close> extends a
  verified log by one event, \<open>rotate\<close> leaves files that \<open>verify-chain\<close> accepts, and \<open>inspect\<close> lets no
  text of a log steer the terminal; under any sequence of commands a log is append-only; a closed
  pipe ends \<open>inspect\<close> well and makes \<open>info\<close> panic. Portal: the verdict is that of the file, the
  rows read back as the entries, the pages cover the log. Export and metrics: the XML is that of
  the document, the JSON lines read back, the histogram counts the observed durations.

  \<^bold>\<open>Conventions and bounds.\<close> Integers that can wrap are words of their width; counts of
  elements in memory are naturals, and where a count becomes a \<open>u64\<close> the property assumes
  fewer than \<open>2 ^ 64\<close> elements. Functions that borrow mutably return the new value. Panics are
  the error \<open>Panic\<close>, and of the command line tool the exit \<open>Exit_panic\<close>. Entropy, clocks, random identifiers and which system calls fail are
  arguments. No fuel is used: every loop is structural or has a termination proof; polling
  consumes its script.

  \<^bold>\<open>Not modelled.\<close> Wiping of secrets, logging, argument parsing, \<open>Debug\<close> renderings and module
  exports; the passage of time
  in timeouts (whether a task joins in time is data); the effect of a drained channel's last
  turns on the files while the daemon removes a tenant, which \<open>Audit_Channel\<close> covers for one
  channel; the constant captions of the portal's page and HTTP; the texts on standard error.
\<close>

end
